(* ===== verification/Prelude.thy ===== *)
theory Prelude
  imports Main
begin

text \<open>
  Shared vocabulary of the development: the result type of fallible Go functions, the theorem
  collections the component theories feed, and the few generic facts on lists, options and maps
  that several components use.

  A Go function \<open>f(x) (T, error)\<close> is modelled by a HOL function into \<open>'e + 'a\<close>: \<open>Inl e\<close> is the
  error return, \<open>Inr v\<close> the success. Code that mutates an object takes the object's record and
  returns the new one.
\<close>

type_synonym ('e, 'a) result = "'e + 'a"

named_theorems go_string_simps \<open>evaluation rules for Go's strings package\<close>
named_theorems breaker_defs \<open>the operations of the circuit breaker\<close>

subsection \<open>Results\<close>

fun is_ok :: "('e, 'a) result \<Rightarrow> bool" where
  "is_ok (Inl e) = False"
| "is_ok (Inr a) = True"

fun bind_result :: "('e, 'a) result \<Rightarrow> ('a \<Rightarrow> ('e, 'b) result) \<Rightarrow> ('e, 'b) result" where
  "bind_result (Inl e) f = Inl e"
| "bind_result (Inr a) f = f a"

lemma is_ok_iff: "is_ok r \<longleftrightarrow> (\<exists>a. r = Inr a)"
  by (cases r) auto

lemma bind_result_Inr_iff:
  "bind_result r f = Inr b \<longleftrightarrow> (\<exists>a. r = Inr a \<and> f a = Inr b)"
  by (cases r) auto

lemma bind_result_Inl_iff:
  "bind_result r f = Inl e \<longleftrightarrow> r = Inl e \<or> (\<exists>a. r = Inr a \<and> f a = Inl e)"
  by (cases r) auto

lemma map_prod_id_eq_iff: "map_prod id f p = (a, b) \<longleftrightarrow> a = fst p \<and> b = f (snd p)"
  by (cases p) auto

subsection \<open>Errors\<close>

text \<open>A Go error is a sentinel or message made with \<^verbatim>\<open>errors.New\<close>, or such an error wrapped with
  \<^verbatim>\<open>fmt.Errorf("...: %w", err)\<close>; of the wrapping's text only the fixed part is kept. \<^verbatim>\<open>errors.Is\<close> looks through the wrapping.\<close>

datatype go_error = ErrorNew string | Errorf string go_error

fun errors_Is :: "go_error \<Rightarrow> go_error \<Rightarrow> bool" where
  "errors_Is (ErrorNew m) target \<longleftrightarrow> ErrorNew m = target"
| "errors_Is (Errorf m e) target \<longleftrightarrow> Errorf m e = target \<or> errors_Is e target"

lemma errors_Is_refl [simp]: "errors_Is e e"
  by (cases e) auto

subsection \<open>Lists\<close>

lemma take_length_append [simp]: "take (length xs) (xs @ ys) = xs"
  by simp

lemma set_dropWhile_last:
  assumes "xs \<noteq> []" and "\<not> P (last xs)"
  shows "dropWhile P xs \<noteq> []" and "last (dropWhile P xs) = last xs"
  using assms by (induction xs) (auto split: if_splits)

lemma distinct_remove1_set: "distinct xs \<Longrightarrow> set (remove1 x xs) = set xs - {x}"
  by simp

lemma foldl_invariant:
  assumes "I s" and "\<And>s x. I s \<Longrightarrow> x \<in> set xs \<Longrightarrow> I (f s x)"
  shows "I (foldl f s xs)"
  using assms by (induction xs arbitrary: s) auto

end
