(* ===== verification/Go_Strings.thy ===== *)
theory Go_Strings
  imports Prelude "HOL-Library.Sublist"
begin

text \<open>
  The part of Go's \<^verbatim>\<open>strings\<close> package the code base calls, on byte strings. A Go string is a
  sequence of bytes, conventionally UTF-8; a HOL \<open>string\<close> is a list of 8-bit characters, so
  \<open>length\<close> is Go's \<^verbatim>\<open>len\<close>. \<^verbatim>\<open>TrimSpace\<close> and \<^verbatim>\<open>Fields\<close> cut at the Unicode white-space runes,
  written here as their UTF-8 encodings; \<^verbatim>\<open>ToLower\<close> and \<^verbatim>\<open>ToUpper\<close> are exact on ASCII strings and
  take the Unicode case table as an argument for the others, which is the split Go makes itself.
\<close>

section \<open>Bytes\<close>

abbreviation byte_of :: "char \<Rightarrow> nat" where
  "byte_of c \<equiv> of_char c"

definition is_ascii :: "string \<Rightarrow> bool" where
  "is_ascii s \<longleftrightarrow> list_all (\<lambda>c. byte_of c < 128) s"

definition is_digit :: "char \<Rightarrow> bool" where
  "is_digit c \<longleftrightarrow> 48 \<le> byte_of c \<and> byte_of c \<le> 57"

definition lower_char :: "char \<Rightarrow> char" where
  "lower_char c = (if 65 \<le> byte_of c \<and> byte_of c \<le> 90 then char_of (byte_of c + 32) else c)"

definition upper_char :: "char \<Rightarrow> char" where
  "upper_char c = (if 97 \<le> byte_of c \<and> byte_of c \<le> 122 then char_of (byte_of c - 32) else c)"

section \<open>Prefixes, suffixes, search\<close>

definition HasPrefix :: "string \<Rightarrow> string \<Rightarrow> bool" where
  "HasPrefix s p \<longleftrightarrow> take (length p) s = p"

definition HasSuffix :: "string \<Rightarrow> string \<Rightarrow> bool" where
  "HasSuffix s p \<longleftrightarrow> length p \<le> length s \<and> drop (length s - length p) s = p"

definition TrimPrefix :: "string \<Rightarrow> string \<Rightarrow> string" where
  "TrimPrefix s p = (if HasPrefix s p then drop (length p) s else s)"

definition TrimSuffix :: "string \<Rightarrow> string \<Rightarrow> string" where
  "TrimSuffix s p = (if HasSuffix s p then take (length s - length p) s else s)"

fun Contains :: "string \<Rightarrow> string \<Rightarrow> bool" where
  "Contains [] p = (p = [])"
| "Contains (c # cs) p = (HasPrefix (c # cs) p \<or> Contains cs p)"

text \<open>\<^verbatim>\<open>strings.IndexByte\<close>; Go's result \<open>-1\<close> is \<open>None\<close>.\<close>

fun IndexByte :: "string \<Rightarrow> char \<Rightarrow> nat option" where
  "IndexByte [] c = None"
| "IndexByte (x # xs) c = (if x = c then Some 0 else map_option Suc (IndexByte xs c))"

section \<open>White space\<close>

text \<open>The UTF-8 encodings of the runes for which \<^verbatim>\<open>unicode.IsSpace\<close> holds.\<close>

definition space_runes :: "string list" where
  "space_runes = map (map char_of)
     ([[9], [10], [11], [12], [13], [32], [0xC2, 0x85], [0xC2, 0xA0], [0xE1, 0x9A, 0x80],
       [0xE2, 0x80, 0x80], [0xE2, 0x80, 0x81], [0xE2, 0x80, 0x82], [0xE2, 0x80, 0x83],
       [0xE2, 0x80, 0x84], [0xE2, 0x80, 0x85], [0xE2, 0x80, 0x86], [0xE2, 0x80, 0x87],
       [0xE2, 0x80, 0x88], [0xE2, 0x80, 0x89], [0xE2, 0x80, 0x8A], [0xE2, 0x80, 0xA8],
       [0xE2, 0x80, 0xA9], [0xE2, 0x80, 0xAF], [0xE2, 0x81, 0x9F], [0xE3, 0x80, 0x80]] :: nat list list)"

definition find_prefix :: "string list \<Rightarrow> string \<Rightarrow> string option" where
  "find_prefix es s = find (\<lambda>e. e \<noteq> [] \<and> HasPrefix s e) es"

text \<open>Drop leading occurrences of the given encodings.\<close>

function strip :: "string list \<Rightarrow> string \<Rightarrow> string" where
  "strip es s = (case find_prefix es s of None \<Rightarrow> s | Some e \<Rightarrow> strip es (drop (length e) s))"
  by pat_completeness auto
termination
proof (relation "measure (\<lambda>(es, s). length s)", simp)
  fix es s e
  assume "find_prefix es s = Some e"
  then have "e \<noteq> []" and "HasPrefix s e"
    by (auto simp: find_prefix_def find_Some_iff)
  then have "s \<noteq> []" by (auto simp: HasPrefix_def)
  with \<open>e \<noteq> []\<close> show "((es, drop (length e) s), es, s) \<in> measure (\<lambda>(es, s). length s)"
    by simp
qed

declare strip.simps [simp del]

definition TrimSpace :: "string \<Rightarrow> string" where
  "TrimSpace s = rev (strip (map rev space_runes) (rev (strip space_runes s)))"

text \<open>\<^verbatim>\<open>strings.Fields\<close>: the maximal runs of bytes between white-space runes. The accumulator
  holds the current field, reversed.\<close>

function Fields_from :: "string \<Rightarrow> string \<Rightarrow> string list" where
  "Fields_from cur [] = (if cur = [] then [] else [rev cur])"
| "Fields_from cur (c # cs) =
     (case find_prefix space_runes (c # cs) of
        Some e \<Rightarrow> (if cur = [] then [] else [rev cur]) @ Fields_from [] (drop (length e) (c # cs))
      | None \<Rightarrow> Fields_from (c # cur) cs)"
  by pat_completeness auto
termination
proof (relation "measure (\<lambda>(cur, s). length s)", simp_all)
  fix c cs and e :: string
  assume "find_prefix space_runes (c # cs) = Some e"
  then have "e \<noteq> []" by (auto simp: find_prefix_def find_Some_iff)
  then show "Suc (length cs) - length e < Suc (length cs)" by simp
qed

definition Fields :: "string \<Rightarrow> string list" where
  "Fields s = Fields_from [] s"

section \<open>Splitting and joining\<close>

text \<open>\<^verbatim>\<open>strings.Split\<close> at a one-byte separator: always at least one part.\<close>

fun SplitByte :: "char \<Rightarrow> string \<Rightarrow> string list" where
  "SplitByte c [] = [[]]"
| "SplitByte c (x # xs) =
     (if x = c then [] # SplitByte c xs
      else (case SplitByte c xs of [] \<Rightarrow> [[x]] | p # ps \<Rightarrow> (x # p) # ps))"

fun Join :: "string list \<Rightarrow> string \<Rightarrow> string" where
  "Join [] sep = []"
| "Join [p] sep = p"
| "Join (p # q # ps) sep = p @ sep @ Join (q # ps) sep"

text \<open>\<^verbatim>\<open>strings.Trim\<close> with a one-byte cutset.\<close>

definition TrimByte :: "char \<Rightarrow> string \<Rightarrow> string" where
  "TrimByte c s = rev (dropWhile (\<lambda>x. x = c) (rev (dropWhile (\<lambda>x. x = c) s)))"

section \<open>Case mapping\<close>

definition ToLower :: "(string \<Rightarrow> string) \<Rightarrow> string \<Rightarrow> string" where
  "ToLower uni s = (if is_ascii s then map lower_char s else uni s)"

definition ToUpper :: "(string \<Rightarrow> string) \<Rightarrow> string \<Rightarrow> string" where
  "ToUpper uni s = (if is_ascii s then map upper_char s else uni s)"

text \<open>
  \<^verbatim>\<open>strings.EqualFold\<close> against an ASCII word. Simple case folding relates an ASCII letter to its
  other case, and besides that only \<open>k\<close> to U+212A (Kelvin sign) and \<open>s\<close> to U+017F (long s).
\<close>

fun EqualFold :: "string \<Rightarrow> string \<Rightarrow> bool" where
  "EqualFold s [] = (s = [])"
| "EqualFold [] (t # ts) = False"
| "EqualFold (c # cs) (t # ts) =
     (if lower_char c = lower_char t then EqualFold cs ts
      else if lower_char t = CHR ''k'' \<and> map byte_of (take 3 (c # cs)) = [0xE2, 0x84, 0xAA]
        then EqualFold (drop 2 cs) ts
      else if lower_char t = CHR ''s'' \<and> map byte_of (take 2 (c # cs)) = [0xC5, 0xBF]
        then EqualFold (drop 1 cs) ts
      else False)"

section \<open>Facts\<close>

subsection \<open>Prefixes and suffixes\<close>

lemma HasPrefix_iff: "HasPrefix s p \<longleftrightarrow> (\<exists>t. s = p @ t)"
  unfolding HasPrefix_def
  by (metis append_eq_conv_conj append_take_drop_id)

lemma HasSuffix_iff: "HasSuffix s p \<longleftrightarrow> (\<exists>t. s = t @ p)"
  unfolding HasSuffix_def
  by (metis append_take_drop_id diff_diff_cancel diff_le_self length_append length_drop
      append_eq_conv_conj add_diff_cancel_right' le_add2)

lemma HasPrefix_append [simp]: "HasPrefix (p @ t) p"
  by (simp add: HasPrefix_iff)

lemma HasSuffix_append [simp]: "HasSuffix (t @ p) p"
  by (simp add: HasSuffix_iff)

lemma TrimPrefix_append [simp]: "TrimPrefix (p @ t) p = t"
  by (simp add: TrimPrefix_def)

lemma TrimSuffix_append [simp]: "TrimSuffix (t @ p) p = t"
  by (simp add: TrimSuffix_def)

lemma HasPrefix_Nil [simp]: "HasPrefix s []"
  by (simp add: HasPrefix_def)

lemma HasPrefix_Cons [simp]: "HasPrefix s (c # p) \<longleftrightarrow> (case s of [] \<Rightarrow> False | x # xs \<Rightarrow> x = c \<and> HasPrefix xs p)"
  by (auto simp: HasPrefix_def split: list.splits)

lemma HasPrefix_trans: "HasPrefix s p \<Longrightarrow> HasPrefix p q \<Longrightarrow> HasPrefix s q"
  by (auto simp: HasPrefix_iff)

lemma IndexByte_None: "IndexByte s c = None \<longleftrightarrow> c \<notin> set s"
  by (induction s) auto

lemma IndexByte_append: "c \<notin> set p \<Longrightarrow> IndexByte (p @ c # t) c = Some (length p)"
  by (induction p) auto

lemma IndexByte_Some:
  "IndexByte s c = Some i \<Longrightarrow> i < length s \<and> s = take i s @ c # drop (Suc i) s \<and> c \<notin> set (take i s)"
proof (induction s arbitrary: i)
  case Nil
  then show ?case by simp
next
  case (Cons x xs)
  then show ?case by (auto split: if_splits)
qed

subsection \<open>White space\<close>

lemma find_prefix_None:
  "find_prefix es s = None \<longleftrightarrow> (\<forall>e \<in> set es. e \<noteq> [] \<longrightarrow> \<not> HasPrefix s e)"
  by (auto simp: find_prefix_def find_None_iff)

lemma find_prefix_Some:
  "find_prefix es s = Some e \<Longrightarrow> e \<in> set es \<and> e \<noteq> [] \<and> HasPrefix s e"
  by (auto simp: find_prefix_def find_Some_iff)

lemma find_prefix_Nil [simp]: "find_prefix es [] = None"
  by (auto simp: find_prefix_None HasPrefix_def)

lemma find_prefix_drop_end:
  "find_prefix es (p @ t) = None \<Longrightarrow> find_prefix es p = None"
  unfolding find_prefix_None by (metis HasPrefix_append HasPrefix_trans)

lemma strip_suffix: "\<exists>p. s = p @ strip es s"
proof (induction es s rule: strip.induct)
  case (1 es s)
  show ?case
  proof (cases "find_prefix es s")
    case None
    then show ?thesis by (simp add: strip.simps [of es s])
  next
    case (Some e)
    with "1" obtain p where "drop (length e) s = p @ strip es (drop (length e) s)" by blast
    then have "s = (take (length e) s @ p) @ strip es s"
      using Some by (metis append.assoc append_take_drop_id option.simps(5) strip.simps)
    then show ?thesis by blast
  qed
qed

lemma find_prefix_strip: "find_prefix es (strip es s) = None"
proof (induction es s rule: strip.induct)
  case (1 es s)
  then show ?case
    by (cases "find_prefix es s") (simp_all add: strip.simps [of es s])
qed

lemma strip_id: "find_prefix es s = None \<Longrightarrow> strip es s = s"
  by (simp add: strip.simps)

lemma strip_idem [simp]: "strip es (strip es s) = strip es s"
  by (simp add: strip_id find_prefix_strip)

lemma TrimSpace_trimmed:
  shows "find_prefix space_runes (TrimSpace s) = None"
    and "find_prefix (map rev space_runes) (rev (TrimSpace s)) = None"
proof -
  obtain p where p: "rev (strip space_runes s) = p @ rev (TrimSpace s)"
    unfolding TrimSpace_def by (metis rev_rev_ident strip_suffix)
  then have "strip space_runes s = TrimSpace s @ rev p"
    by (metis rev_append rev_rev_ident)
  then show "find_prefix space_runes (TrimSpace s) = None"
    by (metis find_prefix_drop_end find_prefix_strip)
  show "find_prefix (map rev space_runes) (rev (TrimSpace s)) = None"
    by (simp add: TrimSpace_def find_prefix_strip)
qed

lemma TrimSpace_idI:
  assumes "find_prefix space_runes s = None"
    and "find_prefix (map rev space_runes) (rev s) = None"
  shows "TrimSpace s = s"
  using assms by (simp add: TrimSpace_def strip_id)

lemma TrimSpace_idem [simp]: "TrimSpace (TrimSpace s) = TrimSpace s"
  by (intro TrimSpace_idI TrimSpace_trimmed)

lemma TrimSpace_Nil [simp]: "TrimSpace [] = []"
  by (intro TrimSpace_idI) (auto simp: find_prefix_None HasPrefix_def)

text \<open>Bytes that begin or end no white-space rune: the printable ASCII bytes.\<close>

definition is_graphic :: "char \<Rightarrow> bool" where
  "is_graphic c \<longleftrightarrow> 33 \<le> byte_of c \<and> byte_of c \<le> 126"

lemma graphic_no_space:
  assumes "is_graphic c" and "e \<in> set space_runes"
  shows "\<not> HasPrefix (c # cs) e" and "\<not> HasPrefix (c # cs) (rev e)"
  using assms by (auto simp: space_runes_def is_graphic_def)

lemma TrimSpace_graphic:
  assumes "s \<noteq> []" and "is_graphic (hd s)" and "is_graphic (last s)"
  shows "TrimSpace s = s"
proof (rule TrimSpace_idI)
  obtain c cs where "s = c # cs" using assms(1) by (cases s) auto
  with assms(2) show "find_prefix space_runes s = None"
    by (auto simp: find_prefix_None graphic_no_space simp del: HasPrefix_Cons)
  obtain d ds where "rev s = d # ds" and "d = last s"
    using assms(1) by (metis hd_rev list.collapse rev_is_Nil_conv)
  with assms(3) have "\<forall>e \<in> set space_runes. \<not> HasPrefix (rev s) (rev e)"
    by (metis graphic_no_space(2))
  then show "find_prefix (map rev space_runes) (rev s) = None"
    by (auto simp: find_prefix_None)
qed

lemma TrimSpace_wordI [go_string_simps]:
  "is_graphic c \<Longrightarrow> is_graphic (last (c # cs)) \<Longrightarrow> TrimSpace (c # cs) = c # cs"
  by (rule TrimSpace_graphic) auto

lemma set_TrimSpace: "set (TrimSpace s) \<subseteq> set s"
proof -
  obtain p where "s = p @ strip space_runes s" using strip_suffix by blast
  moreover obtain q where "rev (strip space_runes s) = q @ rev (TrimSpace s)"
    unfolding TrimSpace_def by (metis rev_rev_ident strip_suffix)
  ultimately show ?thesis by (metis Un_upper2 dual_order.trans set_append set_rev)
qed

lemma length_TrimSpace: "length (TrimSpace s) \<le> length s"
proof -
  obtain p where "s = p @ strip space_runes s" using strip_suffix by blast
  then have "length (strip space_runes s) \<le> length s" by (metis le_add2 length_append)
  moreover obtain q where "rev (strip space_runes s) = q @ rev (TrimSpace s)"
    unfolding TrimSpace_def by (metis rev_rev_ident strip_suffix)
  then have "length (TrimSpace s) \<le> length (strip space_runes s)"
    by (metis le_add2 length_append length_rev)
  ultimately show ?thesis by simp
qed

subsection \<open>Splitting and joining\<close>

lemma SplitByte_not_Nil [simp]: "SplitByte c s \<noteq> []"
  by (induction s) (auto split: list.splits)

lemma Join_Cons: "ps \<noteq> [] \<Longrightarrow> Join (p # ps) sep = p @ sep @ Join ps sep"
  by (cases ps) auto

lemma Join_SplitByte: "Join (SplitByte c s) [c] = s"
proof (induction s)
  case Nil
  then show ?case by simp
next
  case (Cons x xs)
  obtain p ps where ps: "SplitByte c xs = p # ps"
    by (meson SplitByte_not_Nil list.exhaust)
  with Cons show ?case by (cases ps) (auto simp: Join_Cons)
qed

lemma SplitByte_no_sep: "p \<in> set (SplitByte c s) \<Longrightarrow> c \<notin> set p"
proof (induction s arbitrary: p)
  case Nil
  then show ?case by simp
next
  case (Cons x xs)
  obtain q qs where "SplitByte c xs = q # qs"
    by (meson SplitByte_not_Nil list.exhaust)
  with Cons show ?case by (auto split: if_splits)
qed

lemma SplitByte_plain: "c \<notin> set s \<Longrightarrow> SplitByte c s = [s]"
  by (induction s) auto

lemma SplitByte_append: "c \<notin> set p \<Longrightarrow> SplitByte c (p @ c # t) = p # SplitByte c t"
  by (induction p) auto

lemma SplitByte_Join:
  "ps \<noteq> [] \<Longrightarrow> (\<And>p. p \<in> set ps \<Longrightarrow> c \<notin> set p) \<Longrightarrow> SplitByte c (Join ps [c]) = ps"
proof (induction ps)
  case Nil
  then show ?case by simp
next
  case (Cons p ps)
  then show ?case
    by (cases "ps = []") (simp_all add: SplitByte_plain Join_Cons SplitByte_append)
qed

subsection \<open>Fields\<close>

lemma Fields_from_graphic:
  "list_all is_graphic w \<Longrightarrow> Fields_from cur (w @ s) = Fields_from (rev w @ cur) s"
proof (induction w arbitrary: cur)
  case Nil
  then show ?case by simp
next
  case (Cons c w)
  then have "find_prefix space_runes (c # w @ s) = None"
    by (auto simp: find_prefix_None graphic_no_space simp del: HasPrefix_Cons)
  with Cons show ?case by simp
qed

lemma find_prefix_blank: "find_prefix space_runes (CHR '' '' # s) = Some '' ''"
  by (simp add: find_prefix_def space_runes_def char_of_def bit_0)

lemma Fields_from_blank [simp]:
  "Fields_from cur (CHR '' '' # s) = (if cur = [] then [] else [rev cur]) @ Fields_from [] s"
  by (simp add: find_prefix_blank)

text \<open>A word is a field of visible ASCII; joining words by blanks and splitting is the identity.\<close>

definition is_word :: "string \<Rightarrow> bool" where
  "is_word w \<longleftrightarrow> w \<noteq> [] \<and> list_all is_graphic w"

lemma Fields_Join:
  "list_all is_word ws \<Longrightarrow> Fields (Join ws '' '') = ws"
proof (induction ws)
  case Nil
  then show ?case by (simp add: Fields_def)
next
  case (Cons w ws)
  then have w: "w \<noteq> []" "list_all is_graphic w" by (auto simp: is_word_def)
  show ?case
  proof (cases "ws = []")
    case True
    with w show ?thesis using Fields_from_graphic [of w "[]" "[]"] by (simp add: Fields_def)
  next
    case False
    with Cons w show ?thesis
      using Fields_from_graphic [of w "[]" "CHR '' '' # Join ws '' ''"]
      by (simp add: Fields_def Join_Cons del: Fields_from.simps)
  qed
qed

lemma Fields_from_nonempty: "w \<in> set (Fields_from cur s) \<Longrightarrow> w \<noteq> []"
  by (induction cur s rule: Fields_from.induct) (auto split: option.splits if_splits)

lemma Fields_nonempty: "w \<in> set (Fields s) \<Longrightarrow> w \<noteq> []"
  unfolding Fields_def by (rule Fields_from_nonempty)

text \<open>No white-space rune starts inside a field, whatever its bytes.\<close>

definition spaceless :: "string \<Rightarrow> bool" where
  "spaceless w \<longleftrightarrow> (\<forall>u v. w = u @ v \<longrightarrow> find_prefix space_runes v = None)"

lemma spaceless_Cons: "spaceless (c # w) \<longleftrightarrow> find_prefix space_runes (c # w) = None \<and> spaceless w"
  unfolding spaceless_def by (auto simp: Cons_eq_append_conv)

lemma spaceless_graphic: "list_all is_graphic w \<Longrightarrow> spaceless w"
proof (induction w)
  case (Cons c w)
  then show ?case by (auto simp: spaceless_Cons find_prefix_None graphic_no_space simp del: HasPrefix_Cons)
qed (simp add: spaceless_def)

lemma blank_rune: "e \<in> set space_runes \<Longrightarrow> CHR '' '' \<in> set e \<Longrightarrow> e = '' ''"
  by (auto simp: space_runes_def char_of_def bit_0)

lemma find_prefix_before_blank:
  assumes "find_prefix space_runes v = None" and "v \<noteq> []"
  shows "find_prefix space_runes (v @ CHR '' '' # t) = None"
  unfolding find_prefix_None
proof (intro ballI impI notI)
  fix e assume e: "e \<in> set space_runes" "e \<noteq> []" and "HasPrefix (v @ CHR '' '' # t) e"
  then obtain r where r: "v @ CHR '' '' # t = e @ r" by (auto simp: HasPrefix_iff)
  then consider x where "v = e @ x" | x where "e = v @ CHR '' '' # x"
    by (auto simp: append_eq_append_conv2 Cons_eq_append_conv)
  then show False
  proof cases
    case 1
    with assms(1) e show False by (auto simp: find_prefix_None)
  next
    case 2
    with blank_rune [OF e(1)] assms(2) show False by (cases v) auto
  qed
qed

lemma Fields_from_spaceless:
  "spaceless w \<Longrightarrow> Fields_from cur (w @ CHR '' '' # t) = Fields_from (rev w @ cur) (CHR '' '' # t)"
  "spaceless w \<Longrightarrow> Fields_from cur w = Fields_from (rev w @ cur) []"
proof (induction w arbitrary: cur)
  case (Cons c w)
  {
    case 1
    then show ?case
      using Cons.IH(1) find_prefix_before_blank [of "c # w" t] by (simp add: spaceless_Cons)
  next
    case 2
    then show ?case using Cons.IH(2) by (simp add: spaceless_Cons)
  }
qed simp_all

lemma Fields_Join_spaceless:
  "(\<And>w. w \<in> set ws \<Longrightarrow> spaceless w \<and> w \<noteq> []) \<Longrightarrow> Fields (Join ws '' '') = ws"
proof (induction ws)
  case Nil
  then show ?case by (simp add: Fields_def)
next
  case (Cons w ws)
  then have w: "w \<noteq> []" "spaceless w" and IH: "Fields (Join ws '' '') = ws" by auto
  show ?case
  proof (cases "ws = []")
    case True
    with w show ?thesis using Fields_from_spaceless(2) [of w "[]"] by (simp add: Fields_def)
  next
    case False
    with w IH show ?thesis
      using Fields_from_spaceless(1) [of w "[]" "Join ws '' ''"]
      by (simp add: Fields_def Join_Cons del: Fields_from.simps(2))
  qed
qed

lemma Fields_from_all_spaceless:
  assumes "\<And>u v. rev cur = u @ v \<Longrightarrow> v \<noteq> [] \<Longrightarrow> find_prefix space_runes (v @ s) = None"
    and "w \<in> set (Fields_from cur s)"
  shows "spaceless w"
  using assms
proof (induction cur s arbitrary: w rule: Fields_from.induct)
  case (1 cur)
  have "find_prefix space_runes v = None" if "rev cur = u @ v" for u v
    using 1(1) [OF that] by (cases "v = []") simp_all
  with 1(2) show ?case by (auto simp: spaceless_def split: if_splits)
next
  case (2 cur c cs)
  show ?case
  proof (cases "find_prefix space_runes (c # cs)")
    case None
    have step: "find_prefix space_runes (v @ cs) = None" if v: "rev (c # cur) = u @ v" "v \<noteq> []" for u v
    proof -
      obtain v' where v': "v = v' @ [c]" using v by (metis append_butlast_last_id last_appendR last_snoc rev.simps(2))
      with v have "rev cur = u @ v'" by simp
      with 2(3) None v' show ?thesis by (cases "v' = []") auto
    qed
    from 2(1) [OF None step] 2(4) None show ?thesis by simp
  next
    case (Some e)
    have "spaceless (rev cur)"
      unfolding spaceless_def
    proof (intro allI impI)
      fix u v assume uv: "rev cur = u @ v"
      show "find_prefix space_runes v = None"
        using 2(3) [OF uv] find_prefix_drop_end by (cases "v = []") auto
    qed
    moreover have "spaceless w" if "w \<in> set (Fields_from [] (drop (length e) (c # cs)))"
      by (rule 2(2) [OF Some _ that]) simp
    ultimately show ?thesis using 2(4) Some by (auto split: if_splits)
  qed
qed

lemma Fields_spaceless: "w \<in> set (Fields s) \<Longrightarrow> spaceless w"
  unfolding Fields_def by (rule Fields_from_all_spaceless [of "[]"]) auto

lemma set_Fields_from: "w \<in> set (Fields_from cur s) \<Longrightarrow> set w \<subseteq> set cur \<union> set s"
proof (induction cur s rule: Fields_from.induct)
  case (2 cur c cs)
  show ?case
  proof (cases "find_prefix space_runes (c # cs)")
    case None
    with 2 show ?thesis by auto
  next
    case (Some e)
    with 2 consider "w = rev cur" | "set w \<subseteq> set (drop (length e) (c # cs))" by (auto split: if_splits)
    then show ?thesis using set_drop_subset [of "length e" "c # cs"] by cases auto
  qed
qed (auto split: if_splits)

lemma set_Fields: "w \<in> set (Fields s) \<Longrightarrow> set w \<subseteq> set s"
  using set_Fields_from [of w "[]" s] by (simp add: Fields_def)

lemma set_Join: "set (Join ws sep) \<subseteq> \<Union> (set ` set ws) \<union> set sep"
  by (induction ws sep rule: Join.induct) auto

lemma TrimSpace_ends:
  assumes "is_graphic c" and "spaceless w" and "w \<noteq> []"
  shows "TrimSpace (c # u @ CHR '' '' # w) = c # u @ CHR '' '' # w"
proof (rule TrimSpace_idI)
  show "find_prefix space_runes (c # u @ CHR '' '' # w) = None"
    using assms(1) by (auto simp: find_prefix_None graphic_no_space simp del: HasPrefix_Cons)
  show "find_prefix (map rev space_runes) (rev (c # u @ CHR '' '' # w)) = None"
    unfolding find_prefix_None
  proof (intro ballI impI notI)
    fix e assume "e \<in> set (map rev space_runes)" "e \<noteq> []" "HasPrefix (rev (c # u @ CHR '' '' # w)) e"
    then obtain d r where d: "d \<in> set space_runes" "d \<noteq> []" and "rev (c # u @ CHR '' '' # w) = rev d @ r"
      by (auto simp: HasPrefix_iff)
    then have r: "c # u @ CHR '' '' # w = rev r @ d" by (metis rev_append rev_rev_ident)
    then have "(c # u @ [CHR '' '']) @ w = rev r @ d" by simp
    then consider x where "w = x @ d" | x where "d = x @ CHR '' '' # w"
      unfolding append_eq_append_conv2 by (auto simp: append_eq_Cons_conv snoc_eq_iff_butlast) (metis append_Cons append_Nil append_assoc append_butlast_last_id last_snoc)+
    then show False
    proof cases
      case 1
      with assms(2) have "find_prefix space_runes d = None" by (auto simp: spaceless_def)
      with d show False by (auto simp: find_prefix_None HasPrefix_iff)
    next
      case 2
      with blank_rune [OF d(1)] assms(3) show False by (cases x) auto
    qed
  qed
qed

end
