(* ===== verification/Go_Strconv.thy ===== *)
theory Go_Strconv
  imports Go_Strings
begin

text \<open>
  Decimal and hexadecimal text as Go's \<^verbatim>\<open>strconv\<close>, \<^verbatim>\<open>fmt\<close> and \<^verbatim>\<open>encoding/hex\<close> read and write it.
  \<^verbatim>\<open>ParseUint\<close> and \<^verbatim>\<open>ParseInt\<close> return a value together with the error, because callers that drop
  the error still see the value: 0 after a syntax error, the nearest bound after a range error.
\<close>

section \<open>Machine ranges\<close>

abbreviation max_uint64 :: nat where
  "max_uint64 \<equiv> 18446744073709551615"

abbreviation max_int64 :: int where
  "max_int64 \<equiv> 9223372036854775807"

abbreviation min_int64 :: int where
  "min_int64 \<equiv> - 9223372036854775808"

definition in_int64 :: "int \<Rightarrow> bool" where
  "in_int64 i \<longleftrightarrow> min_int64 \<le> i \<and> i \<le> max_int64"

text \<open>Two's complement wrap-around of a 64-bit signed result.\<close>

definition wrap64 :: "int \<Rightarrow> int" where
  "wrap64 i = (i + 9223372036854775808) mod 18446744073709551616 - 9223372036854775808"

text \<open>Go's integer division truncates towards zero.\<close>

definition go_div :: "int \<Rightarrow> int \<Rightarrow> int" where
  "go_div a b = sgn a * sgn b * (\<bar>a\<bar> div \<bar>b\<bar>)"

section \<open>Decimal\<close>

definition digit_char :: "nat \<Rightarrow> char" where
  "digit_char d = char_of (48 + d)"

definition digit_val :: "char \<Rightarrow> nat" where
  "digit_val c = byte_of c - 48"

fun FormatUint :: "nat \<Rightarrow> string" where
  "FormatUint n = (if n < 10 then [digit_char n] else FormatUint (n div 10) @ [digit_char (n mod 10)])"

declare FormatUint.simps [simp del]

definition FormatInt :: "int \<Rightarrow> string" where
  "FormatInt i = (if i < 0 then CHR ''-'' # FormatUint (nat (- i)) else FormatUint (nat i))"

text \<open>\<^verbatim>\<open>%0*d\<close>: pad with zeros on the left up to the width.\<close>

definition pad_zeros :: "nat \<Rightarrow> string \<Rightarrow> string" where
  "pad_zeros w s = replicate (w - length s) (CHR ''0'') @ s"

datatype num_error = ErrSyntax | ErrRange

fun parse_digits :: "nat \<Rightarrow> string \<Rightarrow> nat \<times> num_error option" where
  "parse_digits n [] = (n, None)"
| "parse_digits n (c # cs) =
     (if \<not> is_digit c then (0, Some ErrSyntax)
      else let n' = n * 10 + digit_val c
           in if n' > max_uint64 then (max_uint64, Some ErrRange) else parse_digits n' cs)"

definition ParseUint :: "string \<Rightarrow> nat \<times> num_error option" where
  "ParseUint s = (if s = [] then (0, Some ErrSyntax) else parse_digits 0 s)"

definition ParseInt :: "string \<Rightarrow> int \<times> num_error option" where
  "ParseInt s =
     (case s of
        [] \<Rightarrow> (0, Some ErrSyntax)
      | c # cs \<Rightarrow>
          let neg = (c = CHR ''-'');
              (un, err) = ParseUint (if c = CHR ''+'' \<or> neg then cs else s)
          in if err = Some ErrSyntax then (0, err)
             else if \<not> neg \<and> int un > max_int64 then (max_int64, Some ErrRange)
             else if neg \<and> - int un < min_int64 then (min_int64, Some ErrRange)
             else (if neg then - int un else int un, None))"

section \<open>Hexadecimal\<close>

definition hex_digit :: "nat \<Rightarrow> char" where
  "hex_digit d = (if d < 10 then char_of (48 + d) else char_of (87 + d))"

definition hex_val :: "char \<Rightarrow> nat option" where
  "hex_val c =
     (if 48 \<le> byte_of c \<and> byte_of c \<le> 57 then Some (byte_of c - 48)
      else if 97 \<le> byte_of c \<and> byte_of c \<le> 102 then Some (byte_of c - 87)
      else if 65 \<le> byte_of c \<and> byte_of c \<le> 70 then Some (byte_of c - 55)
      else None)"

fun EncodeToString :: "string \<Rightarrow> string" where
  "EncodeToString [] = []"
| "EncodeToString (c # cs) =
     hex_digit (byte_of c div 16) # hex_digit (byte_of c mod 16) # EncodeToString cs"

fun DecodeString :: "string \<Rightarrow> string option" where
  "DecodeString [] = Some []"
| "DecodeString [c] = None"
| "DecodeString (a # b # cs) =
     (case (hex_val a, hex_val b, DecodeString cs) of
        (Some x, Some y, Some t) \<Rightarrow> Some (char_of (x * 16 + y) # t)
      | _ \<Rightarrow> None)"

section \<open>Facts\<close>

subsection \<open>Wrap-around\<close>

lemma wrap64_id: "in_int64 i \<Longrightarrow> wrap64 i = i"
  by (simp add: wrap64_def in_int64_def)

lemma in_int64_wrap64 [simp]: "in_int64 (wrap64 i)"
proof -
  have "0 \<le> (i + 9223372036854775808) mod 18446744073709551616"
    and "(i + 9223372036854775808) mod 18446744073709551616 < 18446744073709551616"
    by simp_all
  then show ?thesis unfolding wrap64_def in_int64_def by linarith
qed

lemma go_div_nonneg: "0 \<le> a \<Longrightarrow> 0 < b \<Longrightarrow> go_div a b = a div b"
  by (cases "a = 0") (simp_all add: go_div_def)

subsection \<open>Decimal round trip\<close>

lemma byte_digit_char [simp]: "d < 10 \<Longrightarrow> byte_of (digit_char d) = 48 + d"
  by (simp add: digit_char_def)

lemma is_digit_digit_char [simp]: "d < 10 \<Longrightarrow> is_digit (digit_char d)"
  by (simp add: is_digit_def)

lemma digit_val_digit_char [simp]: "d < 10 \<Longrightarrow> digit_val (digit_char d) = d"
  by (simp add: digit_val_def)

definition decimal_value :: "nat \<Rightarrow> string \<Rightarrow> nat" where
  "decimal_value n s = foldl (\<lambda>a c. a * 10 + digit_val c) n s"

lemma decimal_value_simps [simp]:
  "decimal_value n [] = n"
  "decimal_value n (c # cs) = decimal_value (n * 10 + digit_val c) cs"
  "decimal_value n (s @ t) = decimal_value (decimal_value n s) t"
  by (simp_all add: decimal_value_def)

lemma decimal_value_ge: "n \<le> decimal_value n s"
proof (induction s arbitrary: n)
  case Nil
  then show ?case by simp
next
  case (Cons c cs)
  from Cons [of "n * 10 + digit_val c"] show ?case by simp
qed

lemma parse_digits_value:
  "list_all is_digit s \<Longrightarrow> decimal_value n s \<le> max_uint64 \<Longrightarrow>
   parse_digits n s = (decimal_value n s, None)"
proof (induction s arbitrary: n)
  case Nil
  then show ?case by simp
next
  case (Cons c cs)
  then have "n * 10 + digit_val c \<le> max_uint64"
    using decimal_value_ge [of "n * 10 + digit_val c" cs] by simp
  with Cons show ?case by (simp add: Let_def)
qed

lemma FormatUint_digits: "list_all is_digit (FormatUint n)"
proof (induction n rule: FormatUint.induct)
  case (1 n)
  then show ?case by (cases "n < 10") (simp_all add: FormatUint.simps [of n])
qed

lemma FormatUint_not_Nil [simp]: "FormatUint n \<noteq> []"
  by (simp add: FormatUint.simps [of n])

lemma decimal_value_FormatUint [simp]: "decimal_value 0 (FormatUint n) = n"
proof (induction n rule: FormatUint.induct)
  case (1 n)
  then show ?case by (cases "n < 10") (simp_all add: FormatUint.simps [of n])
qed

lemma ParseUint_FormatUint: "n \<le> max_uint64 \<Longrightarrow> ParseUint (FormatUint n) = (n, None)"
  by (simp add: ParseUint_def parse_digits_value FormatUint_digits)

lemma FormatUint_inj: "FormatUint m = FormatUint n \<Longrightarrow> m = n"
  by (metis decimal_value_FormatUint)

lemma digit_not_sign: "is_digit c \<Longrightarrow> c \<noteq> CHR ''+'' \<and> c \<noteq> CHR ''-''"
  by (auto simp: is_digit_def)

lemma hd_FormatUint: "is_digit (hd (FormatUint n))"
  using FormatUint_digits [of n] by (cases "FormatUint n") simp_all

lemma ParseInt_FormatInt:
  assumes "in_int64 i"
  shows "ParseInt (FormatInt i) = (i, None)"
proof (cases "i < 0")
  case True
  with assms have "nat (- i) \<le> max_uint64" by (simp add: in_int64_def)
  with True assms show ?thesis
    by (simp add: ParseInt_def FormatInt_def ParseUint_FormatUint in_int64_def)
next
  case False
  obtain c cs where c: "FormatUint (nat i) = c # cs"
    by (meson FormatUint_not_Nil list.exhaust)
  then have "c \<noteq> CHR ''+''" and "c \<noteq> CHR ''-''"
    using hd_FormatUint [of "nat i"] digit_not_sign by auto
  moreover have "nat i \<le> max_uint64"
    using assms by (simp add: in_int64_def nat_le_iff)
  then have "ParseUint (c # cs) = (nat i, None)"
    using c ParseUint_FormatUint [of "nat i"] by simp
  ultimately show ?thesis
    using False assms c by (simp add: ParseInt_def FormatInt_def in_int64_def)
qed

lemma ParseInt_in_int64: "in_int64 (fst (ParseInt s))"
  by (auto simp: ParseInt_def in_int64_def Let_def split: list.splits prod.splits if_splits)

lemma ParseUint_le: "fst (ParseUint s) \<le> max_uint64"
proof -
  have "n \<le> max_uint64 \<Longrightarrow> fst (parse_digits n s) \<le> max_uint64" for n
    by (induction s arbitrary: n) (auto simp: Let_def)
  then show ?thesis by (simp add: ParseUint_def)
qed

subsection \<open>Hexadecimal round trip\<close>

lemma hex_val_hex_digit [simp]: "d < 16 \<Longrightarrow> hex_val (hex_digit d) = Some d"
  by (auto simp: hex_val_def hex_digit_def)

lemmas byte_of_less = nat_of_char_less_256

lemma DecodeString_EncodeToString: "DecodeString (EncodeToString s) = Some s"
proof (induction s)
  case Nil
  then show ?case by simp
next
  case (Cons c cs)
  have "byte_of c div 16 < 16" using byte_of_less [of c] by linarith
  with Cons show ?case by simp
qed

lemma length_EncodeToString [simp]: "length (EncodeToString s) = 2 * length s"
  by (induction s) auto

lemma EncodeToString_graphic: "list_all is_graphic (EncodeToString s)"
proof (induction s)
  case (Cons c cs)
  have "byte_of c div 16 < 16" using byte_of_less [of c] by linarith
  with Cons show ?case by (auto simp: hex_digit_def is_graphic_def)
qed simp

lemma EncodeToString_no_comma: "CHR '','' \<notin> set (EncodeToString s)"
proof (induction s)
  case (Cons c cs)
  have "byte_of c div 16 < 16" using byte_of_less [of c] by linarith
  then have "byte_of (hex_digit (byte_of c div 16)) \<noteq> 44"
    and "byte_of (hex_digit (byte_of c mod 16)) \<noteq> 44"
    by (auto simp: hex_digit_def)
  then have "hex_digit (byte_of c div 16) \<noteq> CHR '',''"
    and "hex_digit (byte_of c mod 16) \<noteq> CHR '',''"
    by auto
  with Cons show ?case by simp
qed simp

lemma FormatInt_graphic: "list_all is_graphic (FormatInt i)"
proof -
  have "list_all is_graphic (FormatUint n)" for n
    using FormatUint_digits [of n]
    by (rule list.pred_mono_strong) (auto simp: is_digit_def is_graphic_def)
  then show ?thesis by (simp add: FormatInt_def is_graphic_def)
qed

lemma FormatInt_no_comma: "CHR '','' \<notin> set (FormatInt i)"
proof -
  have "CHR '','' \<notin> set (FormatUint n)" for n
    using FormatUint_digits [of n] by (auto simp: list_all_iff is_digit_def)
  then show ?thesis by (simp add: FormatInt_def)
qed

lemma FormatInt_not_Nil [simp]: "FormatInt i \<noteq> []"
  by (simp add: FormatInt_def)

end
