(* ===== verification/Go_Time.thy ===== *)
theory Go_Time
  imports Go_Strconv
begin

text \<open>
  Go's \<^verbatim>\<open>time\<close> package as the components use it. An instant is the integer number of nanoseconds
  since Go's zero time (1 January of year 1, UTC), so \<^verbatim>\<open>IsZero\<close> is a test for 0; a duration is a
  signed 64-bit count of nanoseconds. \<^verbatim>\<open>Time.Sub\<close> saturates at the ends of the duration range, as
  the library documents, and \<^verbatim>\<open>time.Unix\<close> adds the epoch offset in 64-bit arithmetic.
\<close>

type_synonym go_time = int
type_synonym duration = int

abbreviation millisecond :: duration where "millisecond \<equiv> 1000000"
abbreviation second :: duration where "second \<equiv> 1000000000"
abbreviation minute :: duration where "minute \<equiv> 60000000000"
abbreviation hour :: duration where "hour \<equiv> 3600000000000"

definition IsZero :: "go_time \<Rightarrow> bool" where
  "IsZero t \<longleftrightarrow> t = 0"

definition After :: "go_time \<Rightarrow> go_time \<Rightarrow> bool" where
  "After t u \<longleftrightarrow> u < t"

definition Before :: "go_time \<Rightarrow> go_time \<Rightarrow> bool" where
  "Before t u \<longleftrightarrow> t < u"

definition Add :: "go_time \<Rightarrow> duration \<Rightarrow> go_time" where
  "Add t d = t + d"

definition Sub :: "go_time \<Rightarrow> go_time \<Rightarrow> duration" where
  "Sub t u = (if in_int64 (t - u) then t - u else if t < u then min_int64 else max_int64)"

text \<open>\<^verbatim>\<open>Duration.Milliseconds\<close> and \<^verbatim>\<open>d / time.Millisecond\<close>: truncated division.\<close>

definition Milliseconds :: "duration \<Rightarrow> int" where
  "Milliseconds d = go_div d millisecond"

text \<open>Seconds between Go's zero time and the Unix epoch.\<close>

abbreviation unix_to_internal :: int where
  "unix_to_internal \<equiv> 62135596800"

definition Unix :: "go_time \<Rightarrow> int" where
  "Unix t = t div second - unix_to_internal"

definition time_Unix :: "int \<Rightarrow> go_time" where
  "time_Unix sec = wrap64 (sec + unix_to_internal) * second"

lemmas time_defs = IsZero_def After_def Before_def Add_def

lemma Unix_time_Unix:
  "in_int64 (sec + unix_to_internal) \<Longrightarrow> Unix (time_Unix sec) = sec"
  by (simp add: Unix_def time_Unix_def wrap64_id)

lemma Sub_in_range: "in_int64 (t - u) \<Longrightarrow> Sub t u = t - u"
  by (simp add: Sub_def)

lemma in_int64_Sub: "in_int64 (Sub t u)"
  by (auto simp: Sub_def in_int64_def)

lemma Sub_ge_iff: "in_int64 d \<Longrightarrow> d \<le> max_int64 \<Longrightarrow> min_int64 < d \<Longrightarrow> d \<le> Sub t u \<longleftrightarrow> d \<le> t - u"
  by (auto simp: Sub_def in_int64_def)

end
