(* ===== verification/Circuit_Breaker.thy ===== *)
theory Circuit_Breaker
  imports Go_Time
begin

text \<open>
  \<^verbatim>\<open>circuitbreaker/breaker.go\<close>: a circuit per key, closed, open or half-open. Every exported method
  holds the breaker's mutex for its whole body, so an execution is a sequence of whole operations;
  \<open>breaker_step\<close> is that sequence as a step relation. The clock \<^verbatim>\<open>time.Now()\<close> is an argument.
\<close>

section \<open>State\<close>

datatype breaker_state = StateClosed | StateOpen | StateHalfOpen

record breaker_config =
  FailureThreshold :: int
  OpenDuration :: duration
  HalfOpenMaxRequests :: int

record circuit_state =
  State :: breaker_state
  ConsecutiveFailures :: int
  ConsecutiveSuccess :: int
  OpenUntil :: go_time

record circuit_breaker =
  states :: "string \<rightharpoonup> circuit_state"
  config :: breaker_config

section \<open>Operations\<close>

definition breaker_New :: "breaker_config \<Rightarrow> circuit_breaker" where
  "breaker_New cfg =
     (let cfg = (if FailureThreshold cfg = 0 then cfg\<lparr>FailureThreshold := 5\<rparr> else cfg);
          cfg = (if OpenDuration cfg = 0 then cfg\<lparr>OpenDuration := 30 * second\<rparr> else cfg);
          cfg = (if HalfOpenMaxRequests cfg = 0 then cfg\<lparr>HalfOpenMaxRequests := 3\<rparr> else cfg)
      in \<lparr>states = Map.empty, config = cfg\<rparr>)"

definition IsAvailable :: "go_time \<Rightarrow> circuit_breaker \<Rightarrow> string \<Rightarrow> bool \<times> circuit_breaker" where
  "IsAvailable now cb key =
     (case states cb key of
        None \<Rightarrow> (True, cb)
      | Some s \<Rightarrow>
          (case State s of
             StateClosed \<Rightarrow> (True, cb)
           | StateOpen \<Rightarrow>
               if After now (OpenUntil s)
               then (True, cb\<lparr>states := (states cb)(key \<mapsto> s\<lparr>State := StateHalfOpen, ConsecutiveSuccess := 0\<rparr>)\<rparr>)
               else (False, cb)
           | StateHalfOpen \<Rightarrow> (True, cb)))"

definition new_circuit :: circuit_state where
  "new_circuit = \<lparr>State = StateClosed, ConsecutiveFailures = 0, ConsecutiveSuccess = 0, OpenUntil = 0\<rparr>"

text \<open>\<^verbatim>\<open>getOrCreate\<close> returns the circuit and stores a new one when the key is unknown; both
  callers then overwrite the entry through the pointer, so the model returns the value.\<close>

definition getOrCreate :: "circuit_breaker \<Rightarrow> string \<Rightarrow> circuit_state" where
  "getOrCreate cb key = (case states cb key of None \<Rightarrow> new_circuit | Some s \<Rightarrow> s)"

definition RecordSuccess :: "circuit_breaker \<Rightarrow> string \<Rightarrow> circuit_breaker" where
  "RecordSuccess cb key =
     (let s = getOrCreate cb key;
          s = s\<lparr>ConsecutiveFailures := 0, ConsecutiveSuccess := ConsecutiveSuccess s + 1\<rparr>;
          s = (if State s = StateHalfOpen \<and> ConsecutiveSuccess s \<ge> HalfOpenMaxRequests (config cb)
               then s\<lparr>State := StateClosed, ConsecutiveSuccess := 0\<rparr> else s)
      in cb\<lparr>states := (states cb)(key \<mapsto> s)\<rparr>)"

definition RecordFailure :: "go_time \<Rightarrow> circuit_breaker \<Rightarrow> string \<Rightarrow> circuit_breaker" where
  "RecordFailure now cb key =
     (let s = getOrCreate cb key;
          s = s\<lparr>ConsecutiveFailures := ConsecutiveFailures s + 1, ConsecutiveSuccess := 0\<rparr>;
          until = Add now (OpenDuration (config cb));
          s = (case State s of
                 StateClosed \<Rightarrow>
                   if ConsecutiveFailures s \<ge> FailureThreshold (config cb)
                   then s\<lparr>State := StateOpen, OpenUntil := until\<rparr> else s
               | StateHalfOpen \<Rightarrow> s\<lparr>State := StateOpen, OpenUntil := until\<rparr>
               | StateOpen \<Rightarrow> s\<lparr>OpenUntil := until\<rparr>)
      in cb\<lparr>states := (states cb)(key \<mapsto> s)\<rparr>)"

lemmas [breaker_defs] = IsAvailable_def RecordSuccess_def RecordFailure_def getOrCreate_def
  new_circuit_def Let_def time_defs

section \<open>Executions\<close>

inductive breaker_step :: "circuit_breaker \<Rightarrow> circuit_breaker \<Rightarrow> bool" where
  query: "IsAvailable now cb key = (b, cb') \<Longrightarrow> breaker_step cb cb'"
| success: "breaker_step cb (RecordSuccess cb key)"
| failure: "breaker_step cb (RecordFailure now cb key)"

inductive breaker_reachable :: "breaker_config \<Rightarrow> circuit_breaker \<Rightarrow> bool" for cfg where
  start: "breaker_reachable cfg (breaker_New cfg)"
| step: "breaker_reachable cfg cb \<Longrightarrow> breaker_step cb cb' \<Longrightarrow> breaker_reachable cfg cb'"

text \<open>The failures recorded for one key at the given times, in order.\<close>

definition record_failures :: "go_time list \<Rightarrow> circuit_breaker \<Rightarrow> string \<Rightarrow> circuit_breaker" where
  "record_failures ts cb key = foldl (\<lambda>cb t. RecordFailure t cb key) cb ts"

definition record_successes :: "nat \<Rightarrow> circuit_breaker \<Rightarrow> string \<Rightarrow> circuit_breaker" where
  "record_successes n cb key = ((\<lambda>cb. RecordSuccess cb key) ^^ n) cb"

section \<open>Invariant\<close>

definition circuit_ok :: "breaker_config \<Rightarrow> circuit_state \<Rightarrow> bool" where
  "circuit_ok cfg s \<longleftrightarrow>
     0 \<le> ConsecutiveFailures s \<and> 0 \<le> ConsecutiveSuccess s \<and>
     (ConsecutiveFailures s = 0 \<or> ConsecutiveSuccess s = 0) \<and>
     (State s = StateClosed \<longrightarrow> ConsecutiveFailures s = 0 \<or> ConsecutiveFailures s < FailureThreshold cfg) \<and>
     (State s = StateHalfOpen \<longrightarrow> ConsecutiveSuccess s = 0 \<or> ConsecutiveSuccess s < HalfOpenMaxRequests cfg)"

definition breaker_ok :: "circuit_breaker \<Rightarrow> bool" where
  "breaker_ok cb \<longleftrightarrow> (\<forall>key s. states cb key = Some s \<longrightarrow> circuit_ok (config cb) s)"

lemma breaker_ok_New [simp]: "breaker_ok (breaker_New cfg)"
  by (simp add: breaker_ok_def breaker_New_def Let_def)

lemma config_preserved:
  "breaker_step cb cb' \<Longrightarrow> config cb' = config cb"
  by (induction rule: breaker_step.induct)
     (auto simp: breaker_defs split: option.splits breaker_state.splits if_splits)

lemma getOrCreate_ok: "breaker_ok cb \<Longrightarrow> circuit_ok (config cb) (getOrCreate cb key)"
  by (auto simp: breaker_ok_def getOrCreate_def new_circuit_def circuit_ok_def split: option.splits)

lemma IsAvailable_ok: "breaker_ok cb \<Longrightarrow> breaker_ok (snd (IsAvailable now cb key))"
  by (auto simp: breaker_ok_def circuit_ok_def IsAvailable_def
      split: option.splits breaker_state.splits)

lemma RecordSuccess_ok: "breaker_ok cb \<Longrightarrow> breaker_ok (RecordSuccess cb key)"
  using getOrCreate_ok [of cb key]
  by (auto simp: breaker_ok_def circuit_ok_def RecordSuccess_def Let_def)

lemma RecordFailure_ok: "breaker_ok cb \<Longrightarrow> breaker_ok (RecordFailure now cb key)"
  using getOrCreate_ok [of cb key]
  by (auto simp: breaker_ok_def circuit_ok_def RecordFailure_def Let_def split: breaker_state.splits)

lemma breaker_step_ok: "breaker_step cb cb' \<Longrightarrow> breaker_ok cb \<Longrightarrow> breaker_ok cb'"
  by (induction rule: breaker_step.induct)
     (metis IsAvailable_ok snd_conv, simp_all add: RecordSuccess_ok RecordFailure_ok)

section \<open>What the operations do to one circuit\<close>

lemma RecordSuccess_circuit:
  "states (RecordSuccess cb key) = (states cb)(key \<mapsto>
     (let s = getOrCreate cb key; n = ConsecutiveSuccess s + 1
      in if State s = StateHalfOpen \<and> n \<ge> HalfOpenMaxRequests (config cb)
         then s\<lparr>ConsecutiveFailures := 0, State := StateClosed, ConsecutiveSuccess := 0\<rparr>
         else s\<lparr>ConsecutiveFailures := 0, ConsecutiveSuccess := n\<rparr>))"
  and RecordSuccess_config [simp]: "config (RecordSuccess cb key) = config cb"
  by (simp_all add: RecordSuccess_def Let_def)

lemma RecordFailure_config [simp]: "config (RecordFailure now cb key) = config cb"
  by (simp add: RecordFailure_def Let_def)

lemma IsAvailable_config [simp]: "config (snd (IsAvailable now cb key)) = config cb"
  by (simp add: IsAvailable_def split: option.splits breaker_state.splits)

lemma record_failures_snoc:
  "record_failures (ts @ [t]) cb key = RecordFailure t (record_failures ts cb key) key"
  by (simp add: record_failures_def)

lemma record_failures_config [simp]: "config (record_failures ts cb key) = config cb"
  by (induction ts rule: rev_induct) (simp_all add: record_failures_snoc, simp add: record_failures_def)

lemma record_failures_circuit:
  assumes "states cb key = None" and "ts \<noteq> []"
  shows "states (record_failures ts cb key) key = Some
     \<lparr>State = (if int (length ts) \<ge> FailureThreshold (config cb) then StateOpen else StateClosed),
      ConsecutiveFailures = int (length ts), ConsecutiveSuccess = 0,
      OpenUntil = (if int (length ts) \<ge> FailureThreshold (config cb)
                   then last ts + OpenDuration (config cb) else 0)\<rparr>"
  using assms(2)
proof (induction ts rule: rev_induct)
  case Nil
  then show ?case by simp
next
  case (snoc t ts)
  show ?case
  proof (cases "ts = []")
    case True
    with assms(1) show ?thesis by (simp add: record_failures_def breaker_defs)
  next
    case False
    with snoc show ?thesis
      by (simp add: record_failures_snoc breaker_defs split: if_splits)
  qed
qed

lemma record_successes_Suc:
  "record_successes (Suc n) cb key = RecordSuccess (record_successes n cb key) key"
  by (simp add: record_successes_def)

lemma record_successes_config [simp]: "config (record_successes n cb key) = config cb"
  by (induction n) (simp_all add: record_successes_Suc, simp add: record_successes_def)

lemma record_successes_half_open:
  assumes "states cb key = Some s" and "State s = StateHalfOpen" and "ConsecutiveSuccess s = 0"
  shows "\<exists>s'. states (record_successes n cb key) key = Some s' \<and>
     State s' = (if n \<ge> 1 \<and> int n \<ge> HalfOpenMaxRequests (config cb) then StateClosed else StateHalfOpen) \<and>
     (State s' = StateHalfOpen \<longrightarrow> ConsecutiveSuccess s' = int n)"
proof (induction n)
  case 0
  with assms show ?case by (simp add: record_successes_def)
next
  case (Suc n)
  then obtain s' where "states (record_successes n cb key) key = Some s'"
    and "State s' = (if n \<ge> 1 \<and> int n \<ge> HalfOpenMaxRequests (config cb) then StateClosed else StateHalfOpen)"
    and "State s' = StateHalfOpen \<longrightarrow> ConsecutiveSuccess s' = int n"
    by blast
  then show ?case
    by (auto simp: record_successes_Suc RecordSuccess_circuit getOrCreate_def Let_def)
qed

section \<open>Properties\<close>

text \<open>C9: in every reachable breaker, whatever the interleaving of the three operations over all
  keys, a closed circuit has recorded fewer consecutive failures than the configured threshold, a
  half-open one fewer consecutive successes than it needs to close, both counters are non-negative
  and at most one of them is non-zero.\<close>

theorem breaker_reachable_ok:
  assumes "breaker_reachable cfg cb" and "states cb key = Some s"
  shows "circuit_ok (config (breaker_New cfg)) s"
proof -
  from assms(1) have "breaker_ok cb \<and> config cb = config (breaker_New cfg)"
    by (induction rule: breaker_reachable.induct)
       (auto simp: config_preserved dest: breaker_step_ok)
  with assms(2) show ?thesis by (auto simp: breaker_ok_def)
qed

theorem breaker_reachable_ok_witness:
  "circuit_ok (config (breaker_New \<lparr>FailureThreshold = 2, OpenDuration = 10, HalfOpenMaxRequests = 1\<rparr>))
     \<lparr>State = StateClosed, ConsecutiveFailures = 1, ConsecutiveSuccess = 0, OpenUntil = 0\<rparr>"
proof -
  let ?cfg = "\<lparr>FailureThreshold = 2, OpenDuration = 10, HalfOpenMaxRequests = 1\<rparr>"
  have "breaker_reachable ?cfg (RecordFailure 5 (breaker_New ?cfg) ''p'')"
    by (rule breaker_reachable.step [OF breaker_reachable.start breaker_step.failure])
  then show ?thesis
    by (rule breaker_reachable_ok [where key = "''p''"]) (simp add: breaker_defs breaker_New_def)
qed

text \<open>after any non-empty run of failures for a fresh key, the circuit refuses a request exactly
  when the run has reached the failure threshold and the open period, counted from the last failure,
  is not over yet.\<close>

theorem breaker_trips:
  assumes "states cb key = None" and "ts \<noteq> []"
  shows "fst (IsAvailable now (record_failures ts cb key) key) \<longleftrightarrow>
     int (length ts) < FailureThreshold (config cb) \<or> last ts + OpenDuration (config cb) < now"
  using record_failures_circuit [OF assms] by (auto simp: IsAvailable_def time_defs)

theorem breaker_trips_witness:
  "\<not> fst (IsAvailable 12 (record_failures [1, 2] (breaker_New
      \<lparr>FailureThreshold = 2, OpenDuration = 10, HalfOpenMaxRequests = 1\<rparr>) ''p'') ''p'')"
  using breaker_trips [of "breaker_New \<lparr>FailureThreshold = 2, OpenDuration = 10, HalfOpenMaxRequests = 1\<rparr>"
      "''p''" "[1, 2]" 12]
  by (simp add: breaker_New_def)

text \<open>once the open period of a tripped circuit is over, the next query admits the request and
  moves the circuit to half-open; then exactly the configured number of successes (at least one)
  closes it, and a failure before that opens it again for a full period.\<close>

theorem breaker_recovers:
  assumes "states cb key = Some s" and "State s = StateOpen" and "OpenUntil s < now"
    and "IsAvailable now cb key = (admitted, cb')"
  shows "admitted
     \<and> (\<exists>s'. states (record_successes n cb' key) key = Some s' \<and>
            (State s' = StateClosed \<longleftrightarrow> n \<ge> 1 \<and> int n \<ge> HalfOpenMaxRequests (config cb)) \<and>
            (State s' \<noteq> StateClosed \<longrightarrow> State s' = StateHalfOpen \<and>
               (fst (IsAvailable later (RecordFailure failed (record_successes n cb' key) key) key)
                 \<longleftrightarrow> failed + OpenDuration (config cb) < later)))"
proof -
  let ?s = "s\<lparr>State := StateHalfOpen, ConsecutiveSuccess := 0\<rparr>"
  from assms have cb': "admitted" "cb' = cb\<lparr>states := (states cb)(key \<mapsto> ?s)\<rparr>"
    by (auto simp: IsAvailable_def time_defs)
  then have "states cb' key = Some ?s" and [simp]: "config cb' = config cb" by simp_all
  then obtain s' where s': "states (record_successes n cb' key) key = Some s'"
    "State s' = (if n \<ge> 1 \<and> int n \<ge> HalfOpenMaxRequests (config cb) then StateClosed else StateHalfOpen)"
    using record_successes_half_open [of cb' key ?s n] by auto
  have "State s' \<noteq> StateClosed \<longrightarrow> State s' = StateHalfOpen \<and>
      (fst (IsAvailable later (RecordFailure failed (record_successes n cb' key) key) key)
        \<longleftrightarrow> failed + OpenDuration (config cb) < later)"
    using s' by (auto simp: breaker_defs)
  with s' cb'(1) show ?thesis by auto
qed

theorem breaker_recovers_witness:
  "\<exists>s'. states (record_successes 2 (snd (IsAvailable 20 (record_failures [1, 2] (breaker_New
        \<lparr>FailureThreshold = 2, OpenDuration = 10, HalfOpenMaxRequests = 2\<rparr>) ''p'') ''p'')) ''p'') ''p'' = Some s'
      \<and> State s' = StateClosed"
proof -
  let ?cb = "record_failures [1, 2] (breaker_New
    \<lparr>FailureThreshold = 2, OpenDuration = 10, HalfOpenMaxRequests = 2\<rparr>) ''p''"
  have "states ?cb ''p'' = Some \<lparr>State = StateOpen, ConsecutiveFailures = 2, ConsecutiveSuccess = 0, OpenUntil = 12\<rparr>"
    and cfg: "HalfOpenMaxRequests (config ?cb) = 2"
    by (simp_all add: record_failures_def breaker_defs breaker_New_def)
  from breaker_recovers [OF this(1), of 20 "fst (IsAvailable 20 ?cb ''p'')" "snd (IsAvailable 20 ?cb ''p'')" 2]
  show ?thesis unfolding cfg by auto
qed

text \<open>the operations for one key never touch the circuit of another key.\<close>

theorem breaker_keys_independent:
  "states (snd (IsAvailable now cb key)) |` (- {key}) = states cb |` (- {key}) \<and>
   states (RecordSuccess cb key) |` (- {key}) = states cb |` (- {key}) \<and>
   states (RecordFailure now cb key) |` (- {key}) = states cb |` (- {key})"
  by (simp add: IsAvailable_def RecordSuccess_def RecordFailure_def Let_def
      split: option.splits breaker_state.splits)

text \<open>A half-open circuit admits every query and is left unchanged by it: the number of probes
  in flight is not limited.\<close>

theorem half_open_admits_all:
  assumes "states cb key = Some s" and "State s = StateHalfOpen"
  shows "IsAvailable now cb key = (True, cb)"
  using assms by (simp add: IsAvailable_def)

end
