(* ===== verification/Cache_Interface.thy ===== *)
theory Cache_Interface
  imports Go_Time
begin

text \<open>
  The cache surface the HTTP layer relies on (\<^verbatim>\<open>StatusCache\<close> in \<^verbatim>\<open>middleware/platform.go\<close>): \<open>get\<close>
  and \<open>set\<close> on a cache state, with the clock as an argument. \<open>holds c k v\<close> says that the cache
  currently stores \<open>v\<close> under \<open>k\<close>, expired or not. A cache may forget entries at any time, but it
  never invents one: that is all a client may rely on.
\<close>

locale lookup_cache =
  fixes get :: "go_time \<Rightarrow> 'c \<Rightarrow> 'k \<Rightarrow> 'v option \<times> 'c"
    and set_entry :: "go_time \<Rightarrow> 'c \<Rightarrow> 'k \<Rightarrow> 'v \<Rightarrow> 'c"
    and holds :: "'c \<Rightarrow> 'k \<Rightarrow> 'v \<Rightarrow> bool"
    and invar :: "'c \<Rightarrow> bool"
  assumes get_invar: "invar c \<Longrightarrow> invar (snd (get now c k))"
    and set_invar: "invar c \<Longrightarrow> invar (set_entry now c k v)"
    and get_stored: "invar c \<Longrightarrow> fst (get now c k) = Some v \<Longrightarrow> holds c k v"
    and get_keeps: "invar c \<Longrightarrow> holds (snd (get now c k)) k' v \<Longrightarrow> holds c k' v"
    and set_keeps: "invar c \<Longrightarrow> holds (set_entry now c k v) k' v' \<Longrightarrow>
                      (k' = k \<and> v' = v) \<or> (k' \<noteq> k \<and> holds c k' v')"
begin

text \<open>Every stored pair is among the given facts.\<close>

definition backed_by :: "('k \<times> 'v) set \<Rightarrow> 'c \<Rightarrow> bool" where
  "backed_by F c \<longleftrightarrow> invar c \<and> (\<forall>k v. holds c k v \<longrightarrow> (k, v) \<in> F)"

lemma backed_by_get: "backed_by F c \<Longrightarrow> backed_by F (snd (get now c k))"
  by (auto simp: backed_by_def get_invar dest: get_keeps)

lemma backed_by_set: "backed_by F c \<Longrightarrow> (k, v) \<in> F \<Longrightarrow> backed_by F (set_entry now c k v)"
  by (auto simp: backed_by_def set_invar dest: set_keeps)

lemma backed_by_hit: "backed_by F c \<Longrightarrow> fst (get now c k) = Some v \<Longrightarrow> (k, v) \<in> F"
  by (auto simp: backed_by_def dest: get_stored)

lemma backed_by_mono: "backed_by F c \<Longrightarrow> F \<subseteq> G \<Longrightarrow> backed_by G c"
  by (auto simp: backed_by_def)

end

end
