(* ===== verification/LRU_Cache.thy ===== *)
theory LRU_Cache
  imports Cache_Interface
begin

text \<open>
  \<^verbatim>\<open>cache/lru.go\<close>: a least-recently-used cache with a time to live per entry. The concrete state
  follows the code: a doubly linked list of elements (here the list of element addresses, front
  first), the memory those addresses point to, and an index from keys to elements. The abstract
  cache is one list of entries in recency order; \<open>lru_abs\<close> reads it off the concrete state and the
  refinement lemmas show that every operation implements its abstract counterpart.
\<close>

section \<open>State\<close>

record ('k, 'v) lru_entry =
  ekey :: 'k
  evalue :: 'v
  expiresAt :: go_time

record ('k, 'v) lru =
  capacity :: int
  ttl :: duration
  ll :: "nat list"
  heap :: "nat \<Rightarrow> ('k, 'v) lru_entry"
  next_element :: nat
  items :: "'k \<rightharpoonup> nat"

section \<open>Operations\<close>

definition lru_New :: "int \<Rightarrow> duration \<Rightarrow> ('k, 'v) lru" where
  "lru_New cap t = \<lparr>capacity = cap, ttl = t, ll = [], heap = (\<lambda>_. undefined),
     next_element = 0, items = Map.empty\<rparr>"

definition removeElement :: "('k, 'v) lru \<Rightarrow> nat \<Rightarrow> ('k, 'v) lru" where
  "removeElement c el = c\<lparr>ll := remove1 el (ll c), items := (items c)(ekey (heap c el) := None)\<rparr>"

definition moveToFront :: "('k, 'v) lru \<Rightarrow> nat \<Rightarrow> ('k, 'v) lru" where
  "moveToFront c el = c\<lparr>ll := el # remove1 el (ll c)\<rparr>"

definition entry_expired :: "go_time \<Rightarrow> ('k, 'v) lru_entry \<Rightarrow> bool" where
  "entry_expired now en \<longleftrightarrow> \<not> IsZero (expiresAt en) \<and> After now (expiresAt en)"

definition lru_Get :: "go_time \<Rightarrow> ('k, 'v) lru \<Rightarrow> 'k \<Rightarrow> 'v option \<times> ('k, 'v) lru" where
  "lru_Get now c key =
     (if capacity c \<le> 0 then (None, c)
      else case items c key of
             None \<Rightarrow> (None, c)
           | Some el \<Rightarrow>
               (let en = heap c el
                in if entry_expired now en then (None, removeElement c el)
                   else (Some (evalue en), moveToFront c el)))"

definition lru_Set :: "go_time \<Rightarrow> ('k, 'v) lru \<Rightarrow> 'k \<Rightarrow> 'v \<Rightarrow> ('k, 'v) lru" where
  "lru_Set now c key v =
     (if capacity c \<le> 0 then c
      else let expiry = (if ttl c > 0 then Add now (ttl c) else 0)
           in case items c key of
                Some el \<Rightarrow>
                  moveToFront (c\<lparr>heap := (heap c)(el := (heap c el)\<lparr>evalue := v, expiresAt := expiry\<rparr>)\<rparr>) el
              | None \<Rightarrow>
                  (let el = next_element c;
                       c = c\<lparr>heap := (heap c)(el := \<lparr>ekey = key, evalue = v, expiresAt = expiry\<rparr>),
                             next_element := Suc el, ll := el # ll c, items := (items c)(key \<mapsto> el)\<rparr>
                   in if int (length (ll c)) > capacity c then removeElement c (last (ll c)) else c))"

definition lru_Delete :: "('k, 'v) lru \<Rightarrow> 'k \<Rightarrow> ('k, 'v) lru" where
  "lru_Delete c key =
     (if capacity c \<le> 0 then c
      else case items c key of Some el \<Rightarrow> removeElement c el | None \<Rightarrow> c)"

definition lru_Purge :: "('k, 'v) lru \<Rightarrow> ('k, 'v) lru" where
  "lru_Purge c = c\<lparr>ll := [], items := Map.empty\<rparr>"

definition lru_Len :: "('k, 'v) lru \<Rightarrow> nat" where
  "lru_Len c = length (ll c)"

section \<open>Abstract cache\<close>

text \<open>Entries in recency order, most recent first.\<close>

definition drop_key :: "'k \<Rightarrow> ('k, 'v) lru_entry list \<Rightarrow> ('k, 'v) lru_entry list" where
  "drop_key k es = filter (\<lambda>e. ekey e \<noteq> k) es"

definition recency_get :: "go_time \<Rightarrow> 'k \<Rightarrow> ('k, 'v) lru_entry list \<Rightarrow> 'v option \<times> ('k, 'v) lru_entry list" where
  "recency_get now k es =
     (case find (\<lambda>e. ekey e = k) es of
        None \<Rightarrow> (None, es)
      | Some e \<Rightarrow> if entry_expired now e then (None, drop_key k es) else (Some (evalue e), e # drop_key k es))"

definition recency_set :: "nat \<Rightarrow> ('k, 'v) lru_entry \<Rightarrow> ('k, 'v) lru_entry list \<Rightarrow> ('k, 'v) lru_entry list" where
  "recency_set cap e es = take cap (e # drop_key (ekey e) es)"

definition lru_abs :: "('k, 'v) lru \<Rightarrow> ('k, 'v) lru_entry list" where
  "lru_abs c = map (heap c) (ll c)"

section \<open>Invariant\<close>

definition lru_ok :: "('k, 'v) lru \<Rightarrow> bool" where
  "lru_ok c \<longleftrightarrow>
     distinct (ll c) \<and> (\<forall>el \<in> set (ll c). el < next_element c) \<and>
     (\<forall>k el. items c k = Some el \<longleftrightarrow> el \<in> set (ll c) \<and> ekey (heap c el) = k) \<and>
     int (length (ll c)) \<le> max 0 (capacity c)"

lemma lru_ok_items: "lru_ok c \<Longrightarrow> items c k = Some el \<longleftrightarrow> el \<in> set (ll c) \<and> ekey (heap c el) = k"
  by (simp add: lru_ok_def)

lemma lru_ok_same_key:
  "lru_ok c \<Longrightarrow> el \<in> set (ll c) \<Longrightarrow> el' \<in> set (ll c) \<Longrightarrow> ekey (heap c el) = ekey (heap c el') \<Longrightarrow> el = el'"
  by (metis lru_ok_items option.inject)

lemma lru_ok_items_None: "lru_ok c \<Longrightarrow> items c k = None \<longleftrightarrow> (\<forall>el \<in> set (ll c). ekey (heap c el) \<noteq> k)"
  by (metis lru_ok_items not_None_eq option.distinct(1))

lemma lru_ok_removeElement: "lru_ok c \<Longrightarrow> el \<in> set (ll c) \<Longrightarrow> lru_ok (removeElement c el)"
  by (auto simp: lru_ok_def removeElement_def length_remove1) (metis option.inject)

lemma lru_ok_moveToFront: "lru_ok c \<Longrightarrow> el \<in> set (ll c) \<Longrightarrow> lru_ok (moveToFront c el)"
  using length_pos_if_in_set [of el "ll c"]
  by (auto simp: lru_ok_def moveToFront_def length_remove1 of_nat_diff Suc_leI)

lemma lru_ok_New [simp]: "lru_ok (lru_New cap t)"
  by (simp add: lru_ok_def lru_New_def)

lemma lru_ok_Purge: "lru_ok c \<Longrightarrow> lru_ok (lru_Purge c)"
  by (simp add: lru_ok_def lru_Purge_def)

lemma lru_ok_Delete: "lru_ok c \<Longrightarrow> lru_ok (lru_Delete c k)"
  by (auto simp: lru_Delete_def lru_ok_items intro: lru_ok_removeElement split: option.splits)

lemma lru_ok_Get: "lru_ok c \<Longrightarrow> lru_ok (snd (lru_Get now c k))"
  by (auto simp: lru_Get_def Let_def lru_ok_items
      intro: lru_ok_removeElement lru_ok_moveToFront split: option.splits)

section \<open>Refinement of the list operations\<close>

lemma lru_abs_remove:
  assumes "lru_ok c" and "el \<in> set (ll c)"
  shows "map (heap c) (remove1 el (ll c)) = drop_key (ekey (heap c el)) (lru_abs c)"
proof -
  have "distinct (ll c)" using assms(1) by (simp add: lru_ok_def)
  then have "remove1 el (ll c) = filter (\<lambda>x. el \<noteq> x) (ll c)"
    by (simp add: distinct_remove1_removeAll removeAll_filter_not_eq)
  also have "\<dots> = filter (\<lambda>x. ekey (heap c x) \<noteq> ekey (heap c el)) (ll c)"
  proof (rule filter_cong [OF refl])
    fix x assume "x \<in> set (ll c)"
    then show "(el \<noteq> x) = (ekey (heap c x) \<noteq> ekey (heap c el))"
      using lru_ok_same_key [OF assms(1) _ assms(2), of x] by blast
  qed
  finally show ?thesis by (simp add: lru_abs_def drop_key_def filter_map comp_def)
qed

lemma lru_abs_removeElement:
  "lru_ok c \<Longrightarrow> el \<in> set (ll c) \<Longrightarrow> lru_abs (removeElement c el) = drop_key (ekey (heap c el)) (lru_abs c)"
  using lru_abs_remove [of c el] by (simp add: lru_abs_def removeElement_def)

lemma lru_abs_moveToFront:
  "lru_ok c \<Longrightarrow> el \<in> set (ll c) \<Longrightarrow>
   lru_abs (moveToFront c el) = heap c el # drop_key (ekey (heap c el)) (lru_abs c)"
  using lru_abs_remove [of c el] by (simp add: lru_abs_def moveToFront_def)

lemma find_lru_abs:
  assumes "lru_ok c"
  shows "find (\<lambda>e. ekey e = k) (lru_abs c) = map_option (heap c) (items c k)"
proof (cases "items c k")
  case None
  with assms have "\<forall>el \<in> set (ll c). ekey (heap c el) \<noteq> k" by (simp add: lru_ok_items_None)
  with None show ?thesis by (simp add: lru_abs_def find_None_iff)
next
  case (Some el)
  then have el: "el \<in> set (ll c)" "ekey (heap c el) = k" using assms by (auto simp: lru_ok_items)
  then have "find (\<lambda>e. ekey e = k) (lru_abs c) \<noteq> None"
    by (auto simp: lru_abs_def find_None_iff)
  then obtain e where e: "find (\<lambda>e. ekey e = k) (lru_abs c) = Some e" by blast
  then obtain x where "x \<in> set (ll c)" "e = heap c x" "ekey (heap c x) = k"
    by (auto simp: lru_abs_def find_Some_iff nth_mem) (metis nth_mem)
  with assms el have "e = heap c el" using lru_ok_same_key by metis
  with e Some show ?thesis by simp
qed

lemma drop_key_absent: "lru_ok c \<Longrightarrow> items c k = None \<Longrightarrow> drop_key k (lru_abs c) = lru_abs c"
  by (auto simp: drop_key_def lru_abs_def lru_ok_items_None intro: filter_True)

lemma lru_capacity_zero: "lru_ok c \<Longrightarrow> capacity c \<le> 0 \<Longrightarrow> ll c = []"
  by (auto simp: lru_ok_def)

lemma lru_abs_Get:
  assumes "lru_ok c"
  shows "fst (lru_Get now c k) = fst (recency_get now k (lru_abs c))"
    and "lru_abs (snd (lru_Get now c k)) = snd (recency_get now k (lru_abs c))"
proof -
  have "fst (lru_Get now c k) = fst (recency_get now k (lru_abs c)) \<and>
        lru_abs (snd (lru_Get now c k)) = snd (recency_get now k (lru_abs c))"
  proof (cases "capacity c \<le> 0")
    case True
    then have "lru_abs c = []" using assms by (simp add: lru_capacity_zero lru_abs_def)
    with True show ?thesis by (simp add: lru_Get_def recency_get_def)
  next
    case False
    show ?thesis
    proof (cases "items c k")
      case None
      with False show ?thesis by (simp add: lru_Get_def recency_get_def find_lru_abs [OF assms])
    next
      case (Some el)
      then have "el \<in> set (ll c)" and "ekey (heap c el) = k" using assms by (auto simp: lru_ok_items)
      with False Some show ?thesis
        by (simp add: lru_Get_def recency_get_def find_lru_abs [OF assms] Let_def
            lru_abs_removeElement [OF assms] lru_abs_moveToFront [OF assms])
    qed
  qed
  then show "fst (lru_Get now c k) = fst (recency_get now k (lru_abs c))"
    and "lru_abs (snd (lru_Get now c k)) = snd (recency_get now k (lru_abs c))"
    by simp_all
qed

lemma length_lru_abs [simp]: "length (lru_abs c) = lru_Len c"
  by (simp add: lru_abs_def lru_Len_def)

lemma lru_Len_bound: "lru_ok c \<Longrightarrow> lru_Len c \<le> nat (capacity c)"
  by (auto simp: lru_ok_def lru_Len_def)

lemma drop_last_element:
  assumes "distinct xs" and "xs \<noteq> []"
  shows "remove1 (last xs) xs = butlast xs"
proof -
  have "last xs \<notin> set (butlast xs)"
    using assms by (metis append_butlast_last_id distinct_append disjoint_insert(1) list.set(2))
  then show ?thesis
    using assms(2) by (metis append_butlast_last_id append_Nil2 remove1.simps(2) remove1_append)
qed

text \<open>Inserting a fresh key: the new element goes to the front, and if the list is now one longer
  than the capacity, the element at the back goes.\<close>

definition lru_push :: "('k, 'v) lru \<Rightarrow> ('k, 'v) lru_entry \<Rightarrow> ('k, 'v) lru" where
  "lru_push c e = c\<lparr>heap := (heap c)(next_element c := e), next_element := Suc (next_element c),
     ll := next_element c # ll c, items := (items c)(ekey e \<mapsto> next_element c)\<rparr>"

lemma lru_push_index:
  assumes "lru_ok c" and "items c (ekey e) = None"
  shows "items (lru_push c e) k = Some el \<longleftrightarrow> el \<in> set (ll (lru_push c e)) \<and> ekey (heap (lru_push c e) el) = k"
proof -
  have fresh: "next_element c \<notin> set (ll c)" using assms(1) by (auto simp: lru_ok_def)
  show ?thesis
  proof (cases "k = ekey e")
    case True
    then have "\<not> (el \<in> set (ll c) \<and> ekey (heap c el) = k)" using assms by (simp add: lru_ok_items_None)
    with True fresh show ?thesis by (auto simp: lru_push_def)
  next
    case False
    with fresh show ?thesis using assms(1) by (auto simp: lru_push_def lru_ok_items)
  qed
qed

lemma lru_abs_push:
  assumes "lru_ok c"
  shows "lru_abs (lru_push c e) = e # lru_abs c"
proof -
  have "next_element c \<notin> set (ll c)" using assms by (auto simp: lru_ok_def)
  then show ?thesis by (simp add: lru_abs_def lru_push_def)
qed

lemma lru_push_evict:
  assumes ok: "lru_ok c" and none: "items c (ekey e) = None" and cap: "0 < capacity c"
  defines "c' \<equiv> removeElement (lru_push c e) (last (ll (lru_push c e)))"
  shows "lru_ok c'" and "lru_abs c' = butlast (e # lru_abs c)"
proof -
  let ?p = "lru_push c e"
  have dist: "distinct (ll ?p)" using ok by (auto simp: lru_ok_def lru_push_def)
  have ll': "ll c' = butlast (ll ?p)"
    using drop_last_element [OF dist] by (simp add: c'_def removeElement_def lru_push_def)
  have last: "last (ll ?p) \<in> set (ll ?p)" by (simp add: lru_push_def)
  have unique: "el = last (ll ?p)"
    if "el \<in> set (ll ?p)" "ekey (heap ?p el) = ekey (heap ?p (last (ll ?p)))" for el
    using that last lru_push_index [OF ok none] by (metis option.inject)
  have index: "items c' k = Some el \<longleftrightarrow> el \<in> set (ll c') \<and> ekey (heap c' el) = k" for k el
    using unique dist last by (auto simp: c'_def removeElement_def lru_push_index [OF ok none])
  have "int (length (ll c')) \<le> max 0 (capacity c')"
    using ok cap ll' by (simp add: lru_ok_def c'_def removeElement_def lru_push_def)
  moreover have "\<forall>el \<in> set (ll c'). el < next_element c'"
  proof
    fix el assume "el \<in> set (ll c')"
    then have "el \<in> set (ll ?p)" unfolding ll' by (rule in_set_butlastD)
    then show "el < next_element c'"
      using ok by (auto simp: lru_ok_def c'_def removeElement_def lru_push_def intro: less_SucI)
  qed
  moreover have "distinct (ll c')" unfolding ll' using dist by (rule distinct_butlast)
  ultimately show "lru_ok c'" using index by (simp add: lru_ok_def)
  have "lru_abs c' = butlast (lru_abs ?p)"
    using ll' by (simp add: lru_abs_def c'_def removeElement_def map_butlast)
  then show "lru_abs c' = butlast (e # lru_abs c)" by (simp add: lru_abs_push [OF ok])
qed

lemma lru_push_ok:
  assumes "lru_ok c" and "items c (ekey e) = None" and "int (length (ll (lru_push c e))) \<le> capacity c"
  shows "lru_ok (lru_push c e)"
proof -
  have "distinct (ll (lru_push c e))" and "\<forall>el \<in> set (ll (lru_push c e)). el < next_element (lru_push c e)"
    using assms(1) by (auto simp: lru_ok_def lru_push_def intro: less_SucI)
  moreover have "int (length (ll (lru_push c e))) \<le> max 0 (capacity (lru_push c e))"
    using assms(3) by (simp add: lru_push_def)
  ultimately show ?thesis
    using lru_push_index [OF assms(1,2)] by (simp add: lru_ok_def)
qed

lemma lru_overwrite:
  fixes c :: "('k, 'v) lru" and v :: 'v and x :: go_time
  assumes "lru_ok c" and "items c k = Some el"
  defines "e \<equiv> (heap c el)\<lparr>evalue := v, expiresAt := x\<rparr>"
  defines "c' \<equiv> c\<lparr>heap := (heap c)(el := e)\<rparr>"
  shows "lru_ok c'" and "drop_key k (lru_abs c') = drop_key k (lru_abs c)" and "el \<in> set (ll c')"
    and "ekey (heap c' el) = k"
proof -
  have el: "el \<in> set (ll c)" "ekey (heap c el) = k" using assms(1,2) by (auto simp: lru_ok_items)
  have key: "ekey (heap c' x) = ekey (heap c x)" for x by (simp add: c'_def e_def)
  have "lru_ok c' \<longleftrightarrow> lru_ok c" unfolding lru_ok_def key by (simp add: c'_def)
  then show "lru_ok c'" using assms(1) by simp
  have "drop_key k (map (heap c') xs) = drop_key k (map (heap c) xs)" for xs
    using el by (induction xs) (auto simp: drop_key_def c'_def e_def)
  then show "drop_key k (lru_abs c') = drop_key k (lru_abs c)"
    by (simp add: lru_abs_def c'_def)
  show "el \<in> set (ll c')" using el by (simp add: c'_def)
  show "ekey (heap c' el) = k" using el by (simp add: key)
qed

lemma length_drop_key: "length (drop_key k es) \<le> length es"
  by (simp add: drop_key_def)

lemma lru_overwrite_front:
  fixes c :: "('k, 'v) lru" and v :: 'v and x :: go_time
  assumes "lru_ok c" and "items c k = Some el"
  defines "c' \<equiv> moveToFront (c\<lparr>heap := (heap c)(el := (heap c el)\<lparr>evalue := v, expiresAt := x\<rparr>)\<rparr>) el"
  shows "lru_ok c'" and "lru_abs c' = \<lparr>ekey = k, evalue = v, expiresAt = x\<rparr> # drop_key k (lru_abs c)"
    and "length (drop_key k (lru_abs c)) = length (ll c) - 1" and "ll c \<noteq> []"
proof -
  note o = lru_overwrite [OF assms(1,2), where v = v and x = x]
  have el: "el \<in> set (ll c)" "ekey (heap c el) = k" using assms(1,2) by (auto simp: lru_ok_items)
  show "lru_ok c'" unfolding c'_def by (rule lru_ok_moveToFront [OF o(1,3)])
  show "lru_abs c' = \<lparr>ekey = k, evalue = v, expiresAt = x\<rparr> # drop_key k (lru_abs c)"
    unfolding c'_def lru_abs_moveToFront [OF o(1,3)] o(4) o(2) using el by simp
  show "length (drop_key k (lru_abs c)) = length (ll c) - 1"
    using arg_cong [OF lru_abs_remove [OF assms(1) el(1)], where f = length] el
    by (simp add: length_remove1)
  show "ll c \<noteq> []" using el by auto
qed

lemma lru_Set_correct:
  assumes ok: "lru_ok c"
  shows "lru_ok (lru_Set now c k v) \<and>
    lru_abs (lru_Set now c k v) =
      recency_set (nat (capacity c))
        \<lparr>ekey = k, evalue = v, expiresAt = (if ttl c > 0 then now + ttl c else 0)\<rparr> (lru_abs c)"
proof -
  let ?x = "if ttl c > 0 then now + ttl c else 0"
  let ?e = "\<lparr>ekey = k, evalue = v, expiresAt = ?x\<rparr>"
  consider (off) "capacity c \<le> 0" | (hit) el where "0 < capacity c" "items c k = Some el"
    | (miss) "0 < capacity c" "items c k = None" by fastforce
  then show ?thesis
  proof cases
    case off
    with ok show ?thesis
      by (simp add: lru_Set_def recency_set_def lru_capacity_zero lru_abs_def)
  next
    case (hit el)
    let ?c = "c\<lparr>heap := (heap c)(el := (heap c el)\<lparr>evalue := v, expiresAt := ?x\<rparr>)\<rparr>"
    note front = lru_overwrite_front(1,2) [OF ok hit(2), where v = v and x = ?x]
      and len = lru_overwrite_front(3,4) [OF ok hit(2)]
    have set: "lru_Set now c k v = moveToFront ?c el"
      using hit by (simp add: lru_Set_def Add_def)
    have "length (?e # drop_key k (lru_abs c)) \<le> nat (capacity c)"
      using lru_Len_bound [OF ok] len hit(1) by (cases "ll c") (auto simp: lru_Len_def)
    then show ?thesis
      unfolding set front(2) recency_set_def using front(1) by (simp only: take_all lru_entry.select_convs simp_thms)
  next
    case miss
    have set: "lru_Set now c k v = (let p = lru_push c ?e in
        if int (length (ll p)) > capacity c then removeElement p (last (ll p)) else p)"
      using miss by (simp add: lru_Set_def lru_push_def Add_def Let_def)
    have abs: "recency_set (nat (capacity c)) ?e (lru_abs c) = take (nat (capacity c)) (?e # lru_abs c)"
      using miss drop_key_absent [OF ok] by (simp add: recency_set_def)
    have none: "items c (ekey ?e) = None" using miss by simp
    have len: "length (ll (lru_push c ?e)) = Suc (length (lru_abs c))"
      by (simp add: lru_push_def lru_Len_def)
    have bound: "length (lru_abs c) \<le> nat (capacity c)"
      using lru_Len_bound [OF ok] by simp
    show ?thesis
    proof (cases "int (length (ll (lru_push c ?e))) > capacity c")
      case True
      with len bound miss(1) have "nat (capacity c) = length (lru_abs c)" by linarith
      then have "take (nat (capacity c)) (?e # lru_abs c) = butlast (?e # lru_abs c)"
        by (simp add: butlast_conv_take)
      with True show ?thesis
        using lru_push_evict [OF ok none miss(1)] by (simp add: set abs Let_def)
    next
      case False
      with len have "Suc (length (lru_abs c)) \<le> nat (capacity c)" by linarith
      with False show ?thesis
        using lru_push_ok [OF ok none] by (simp add: set abs Let_def lru_abs_push [OF ok])
    qed
  qed
qed

lemmas lru_ok_Set = lru_Set_correct [THEN conjunct1]
lemmas lru_Set_abs = lru_Set_correct [THEN conjunct2]

lemma lru_Delete_abs:
  assumes "lru_ok c"
  shows "lru_abs (lru_Delete c k) = drop_key k (lru_abs c)"
proof (cases "capacity c \<le> 0")
  case True
  with assms show ?thesis by (simp add: lru_Delete_def lru_capacity_zero lru_abs_def drop_key_def)
next
  case False
  show ?thesis
  proof (cases "items c k")
    case None
    with False assms show ?thesis by (simp add: lru_Delete_def drop_key_absent)
  next
    case (Some el)
    then have "el \<in> set (ll c)" and "ekey (heap c el) = k" using assms by (auto simp: lru_ok_items)
    with False Some assms show ?thesis by (simp add: lru_Delete_def lru_abs_removeElement)
  qed
qed

lemma lru_Purge_abs: "lru_abs (lru_Purge c) = []"
  by (simp add: lru_Purge_def lru_abs_def)

section \<open>The cache as a client sees it\<close>

definition lru_holds :: "('k, 'v) lru \<Rightarrow> 'k \<Rightarrow> 'v \<Rightarrow> bool" where
  "lru_holds c k v \<longleftrightarrow> (\<exists>e \<in> set (lru_abs c). ekey e = k \<and> evalue e = v)"

lemma recency_get_subset: "set (snd (recency_get now k es)) \<subseteq> set es"
  by (auto simp: recency_get_def drop_key_def find_Some_iff split: option.splits if_splits)

lemma recency_set_subset: "set (recency_set cap e es) \<subseteq> insert e (set (drop_key (ekey e) es))"
  unfolding recency_set_def by (metis list.set(2) set_take_subset)

interpretation lru_cache: lookup_cache lru_Get lru_Set lru_holds lru_ok
proof unfold_locales
  fix c :: "('k, 'v) lru" and now k and v :: 'v and k' and v'
  assume ok: "lru_ok c"
  show "lru_ok (snd (lru_Get now c k))" using ok by (rule lru_ok_Get)
  show "lru_ok (lru_Set now c k v)" using ok by (rule lru_ok_Set)
  show "lru_holds c k v" if "fst (lru_Get now c k) = Some v"
    using that lru_abs_Get(1) [OF ok]
    by (auto simp: recency_get_def lru_holds_def find_Some_iff split: option.splits if_splits)
  show "lru_holds c k' v" if "lru_holds (snd (lru_Get now c k)) k' v"
    using that lru_abs_Get(2) [OF ok] recency_get_subset by (fastforce simp: lru_holds_def)
  show "(k' = k \<and> v' = v) \<or> (k' \<noteq> k \<and> lru_holds c k' v')" if "lru_holds (lru_Set now c k v) k' v'"
    using that recency_set_subset lru_Set_abs [OF ok, of now k v]
    by (auto simp: lru_holds_def drop_key_def dest!: subsetD [OF recency_set_subset])
qed

section \<open>Executions\<close>

inductive lru_reachable :: "int \<Rightarrow> duration \<Rightarrow> ('k, 'v) lru \<Rightarrow> bool" for cap t where
  new: "lru_reachable cap t (lru_New cap t)"
| get: "lru_reachable cap t c \<Longrightarrow> lru_reachable cap t (snd (lru_Get now c k))"
| set_entry: "lru_reachable cap t c \<Longrightarrow> lru_reachable cap t (lru_Set now c k v)"
| delete: "lru_reachable cap t c \<Longrightarrow> lru_reachable cap t (lru_Delete c k)"
| purge: "lru_reachable cap t c \<Longrightarrow> lru_reachable cap t (lru_Purge c)"

lemma lru_config:
  "capacity (snd (lru_Get now c k)) = capacity c" "ttl (snd (lru_Get now c k)) = ttl c"
  "capacity (lru_Set now c k v) = capacity c" "ttl (lru_Set now c k v) = ttl c"
  "capacity (lru_Delete c k) = capacity c" "ttl (lru_Delete c k) = ttl c"
  "capacity (lru_Purge c) = capacity c" "ttl (lru_Purge c) = ttl c"
  by (simp_all add: lru_Get_def lru_Set_def lru_Delete_def lru_Purge_def removeElement_def
      moveToFront_def Let_def split: option.splits)

lemma lru_reachable_ok:
  "lru_reachable cap t c \<Longrightarrow> lru_ok c \<and> capacity c = cap \<and> ttl c = t"
proof (induction rule: lru_reachable.induct)
  case new
  then show ?case by (simp add: lru_New_def lru_ok_def)
qed (simp_all add: lru_config lru_ok_Get lru_ok_Set lru_ok_Delete lru_ok_Purge)

section \<open>Properties\<close>

definition fresh_expiry :: "duration \<Rightarrow> go_time \<Rightarrow> go_time" where
  "fresh_expiry t now = (if t > 0 then Add now t else 0)"

lemma lru_Set_recency:
  "lru_ok c \<Longrightarrow> lru_abs (lru_Set now c k v) =
     recency_set (nat (capacity c)) \<lparr>ekey = k, evalue = v, expiresAt = fresh_expiry (ttl c) now\<rparr> (lru_abs c)"
  unfolding fresh_expiry_def Add_def by (rule lru_Set_abs)

lemma find_take: "find P (take n xs) \<in> {find P xs, None}"
proof (induction xs arbitrary: n)
  case (Cons x xs)
  then show ?case by (cases n) auto
qed simp

lemma find_drop_key: "k' \<noteq> k \<Longrightarrow> find (\<lambda>e. ekey e = k') (drop_key k es) = find (\<lambda>e. ekey e = k') es"
  by (induction es) (auto simp: drop_key_def)

lemma recency_get_fst:
  "fst (recency_get now k es) =
     (case find (\<lambda>e. ekey e = k) es of
        None \<Rightarrow> None | Some e \<Rightarrow> if entry_expired now e then None else Some (evalue e))"
  by (simp add: recency_get_def split: option.splits)

lemma recency_get_set_same:
  "fst (recency_get now (ekey e) (recency_set n e es)) =
     (if n = 0 \<or> entry_expired now e then None else Some (evalue e))"
  by (cases n) (simp_all add: recency_get_def recency_set_def)

lemma find_recency_set:
  assumes "k \<noteq> ekey e"
  shows "find (\<lambda>x. ekey x = k) (recency_set n e es) \<in> {find (\<lambda>x. ekey x = k) es, None}"
proof -
  have "find (\<lambda>x. ekey x = k) (e # drop_key (ekey e) es) = find (\<lambda>x. ekey x = k) es"
    using assms find_drop_key [of k "ekey e" es] by auto
  then show ?thesis
    unfolding recency_set_def using find_take [of "\<lambda>x. ekey x = k" n "e # drop_key (ekey e) es"] by simp
qed

text \<open>C10: In every reachable state the cache is consistent (the key index and the linked list
  describe the same entries, without duplicates, and there are never more entries than the capacity
  allows), and from it every operation acts on the entries in recency order as the abstract cache
  does: \<^verbatim>\<open>Get\<close> answers what the abstract lookup answers and moves the entry to the front (or drops
  it once expired), \<^verbatim>\<open>Set\<close> puts the entry in front and keeps the \<^verbatim>\<open>capacity\<close> most recent ones,
  \<^verbatim>\<open>Delete\<close> removes exactly that key and \<^verbatim>\<open>Purge\<close> removes all.\<close>

theorem lru_refines:
  assumes "lru_reachable cap t c"
  shows "lru_ok c \<and> int (lru_Len c) \<le> max 0 cap \<and>
         fst (lru_Get now c k) = fst (recency_get now k (lru_abs c)) \<and>
         lru_abs (snd (lru_Get now c k)) = snd (recency_get now k (lru_abs c)) \<and>
         lru_abs (lru_Set now c k v) =
           recency_set (nat cap) \<lparr>ekey = k, evalue = v, expiresAt = fresh_expiry t now\<rparr> (lru_abs c) \<and>
         lru_abs (lru_Delete c k) = drop_key k (lru_abs c) \<and> lru_abs (lru_Purge c) = []"
proof -
  from lru_reachable_ok [OF assms] have ok: "lru_ok c" and cfg: "capacity c = cap" "ttl c = t" by auto
  moreover have "int (lru_Len c) \<le> max 0 cap" using ok cfg by (simp add: lru_ok_def lru_Len_def)
  ultimately show ?thesis
    using lru_abs_Get [OF ok] lru_Set_recency [OF ok, unfolded cfg] lru_Delete_abs [OF ok] lru_Purge_abs
    by blast
qed

theorem lru_refines_witness:
  "map ekey (lru_abs (lru_Set 3 (snd (lru_Get 2 (lru_Set 1 (lru_Set 0
     (lru_New 2 0) (1 :: nat) ''a'') 2 ''b'') 1)) 3 ''c'')) = [3, 1]"
proof -
  let ?c = "snd (lru_Get 2 (lru_Set 1 (lru_Set 0 (lru_New 2 0) (1 :: nat) ''a'') 2 ''b'') 1)"
  have r: "lru_reachable 2 0 ?c" by (intro lru_reachable.intros)
  have "lru_abs ?c = [\<lparr>ekey = 1, evalue = ''a'', expiresAt = 0\<rparr>, \<lparr>ekey = 2, evalue = ''b'', expiresAt = 0\<rparr>]"
    by (simp add: lru_abs_def lru_Get_def lru_Set_def lru_New_def moveToFront_def entry_expired_def IsZero_def)
  moreover have "lru_abs (lru_Set 3 ?c 3 ''c'') =
      recency_set (nat 2) \<lparr>ekey = 3, evalue = ''c'', expiresAt = fresh_expiry 0 3\<rparr> (lru_abs ?c)"
    using lru_refines [OF r] by blast
  ultimately show ?thesis by (simp add: recency_set_def drop_key_def)
qed

text \<open>C11: A value just stored is what \<^verbatim>\<open>Get\<close> returns for that key, until its time to live has
  passed; a cache of no capacity returns a miss. (An expiry that falls on Go's zero time counts as
  no expiry.) For any other key \<^verbatim>\<open>Get\<close> returns what it returned before, or a miss if that entry was
  evicted.\<close>

theorem lru_get_after_set:
  assumes "lru_reachable cap t c"
  shows "fst (lru_Get now' (lru_Set now c k v) k) =
           (if 0 < cap \<and> (t \<le> 0 \<or> now' \<le> now + t \<or> now + t = 0) then Some v else None) \<and>
         (k' \<noteq> k \<longrightarrow> fst (lru_Get now' (lru_Set now c k v) k') \<in> {fst (lru_Get now' c k'), None})"
proof -
  from lru_reachable_ok [OF assms] have ok: "lru_ok c" and cfg: "capacity c = cap" "ttl c = t" by auto
  note get = lru_abs_Get(1) [OF lru_ok_Set [OF ok]] and set = lru_Set_recency [OF ok, unfolded cfg]
  let ?e = "\<lparr>ekey = k, evalue = v, expiresAt = fresh_expiry t now\<rparr>"
  have "entry_expired now' ?e \<longleftrightarrow> \<not> (t \<le> 0 \<or> now' \<le> now + t \<or> now + t = 0)"
    by (auto simp: entry_expired_def fresh_expiry_def time_defs)
  then have "fst (lru_Get now' (lru_Set now c k v) k) =
               (if 0 < cap \<and> (t \<le> 0 \<or> now' \<le> now + t \<or> now + t = 0) then Some v else None)"
    unfolding get set using recency_get_set_same [of now' ?e "nat cap"] by simp
  moreover have "fst (lru_Get now' (lru_Set now c k v) k') \<in> {fst (lru_Get now' c k'), None}" if "k' \<noteq> k"
    unfolding get lru_abs_Get(1) [OF ok] set recency_get_fst
    using find_recency_set [of k' ?e "nat cap" "lru_abs c"] that by auto
  ultimately show ?thesis by blast
qed

theorem lru_get_after_set_witness:
  "fst (lru_Get 9 (lru_Set 4 (lru_New 1 5) ''a'' True) ''a'') = Some True"
  using lru_get_after_set [OF lru_reachable.new [of 1 5], of 9 4 "''a''" True "''a''"] by simp

end
