(* ===== verification/Go_Float.thy ===== *)
theory Go_Float
  imports Complex_Main Go_Time
begin

text \<open>
  The floating-point arithmetic the components need. A finite float64 is modelled by the rational
  number it denotes; every operation computes the exact result and rounds it to 53 significant bits,
  ties to even (\<open>fl\<close>); \<open>float64\<close> adds the infinities and NaN. Signed zero and the rounding of
  subnormal numbers are left out: the results they could change are all truncated to 0.

  \<open>go_pow\<close> is the portable implementation of \<^verbatim>\<open>math.Pow\<close> for an integral exponent: binary powering on
  mantissa and exponent.
\<close>

fun bit_length :: "nat \<Rightarrow> nat" where
  "bit_length n = (if n = 0 then 0 else Suc (bit_length (n div 2)))"

declare bit_length.simps [simp del]

definition round_half_even :: "int \<Rightarrow> int \<Rightarrow> int" where
  "round_half_even n d =
     (let q = n div d; r = n mod d in if 2 * r < d \<or> 2 * r = d \<and> even q then q else q + 1)"

definition scale2 :: "rat \<Rightarrow> int \<Rightarrow> rat" where
  "scale2 x e = x * 2 powi e"

definition round_rat :: "rat \<Rightarrow> int" where
  "round_rat x = (let (n, d) = quotient_of x in round_half_even n d)"

text \<open>The exponent of the last of the 53 bits.\<close>

definition fl_exp :: "rat \<Rightarrow> int" where
  "fl_exp x =
     (let (n, d) = quotient_of x;
          e = int (bit_length (nat n)) - int (bit_length (nat d)) - 53
      in if scale2 x (- e) < 2 ^ 53 then e else e + 1)"

definition fl_pos :: "rat \<Rightarrow> rat" where
  "fl_pos x = scale2 (of_int (round_rat (scale2 x (- fl_exp x)))) (fl_exp x)"

definition fl :: "rat \<Rightarrow> rat" where
  "fl x = (if x = 0 then 0 else if 0 < x then fl_pos x else - fl_pos (- x))"

text \<open>\<^verbatim>\<open>int(x)\<close> of a float64 within the int64 range: towards zero.\<close>

definition float_to_int :: "rat \<Rightarrow> int" where
  "float_to_int x = (if 0 \<le> x then \<lfloor>x\<rfloor> else \<lceil>x\<rceil>)"

text \<open>\<^verbatim>\<open>Duration.Seconds\<close>.\<close>

definition Seconds :: "duration \<Rightarrow> rat" where
  "Seconds d = fl (of_int (go_div d second) + fl (of_int (d - go_div d second * second) / 1000000000))"

lemma round_half_even_bounds:
  assumes "0 < d"
  shows "n div d \<le> round_half_even n d" and "round_half_even n d \<le> n div d + 1"
  by (simp_all add: round_half_even_def Let_def)

lemma round_half_even_exact [simp]: "0 < d \<Longrightarrow> round_half_even (q * d) d = q"
  by (simp add: round_half_even_def)

section \<open>Rounding\<close>

lemma bit_length_bounds:
  assumes "0 < n"
  shows "2 ^ (bit_length n - 1) \<le> n" and "n < 2 ^ bit_length n" and "0 < bit_length n"
proof -
  have "0 < n \<Longrightarrow> 2 ^ (bit_length n - 1) \<le> n \<and> n < 2 ^ bit_length n \<and> 0 < bit_length n" for n
  proof (induction n rule: bit_length.induct)
    case (1 n)
    show ?case
    proof (cases "n div 2 = 0")
      case True
      with 1(2) have "n = 1" by (simp add: div_eq_0_iff)
      then show ?thesis by (simp add: bit_length.simps [of "Suc 0"] bit_length.simps [of 0])
    next
      case False
      then have IH: "2 ^ (bit_length (n div 2) - 1) \<le> n div 2" "n div 2 < 2 ^ bit_length (n div 2)" "0 < bit_length (n div 2)"
        using 1 by auto
      have b: "bit_length n = Suc (bit_length (n div 2))" using 1(2) by (simp add: bit_length.simps [of n])
      obtain k where k: "bit_length (n div 2) = Suc k" using IH(3) by (cases "bit_length (n div 2)") auto
      from IH k have "2 * 2 ^ k \<le> n" "n < 2 * 2 ^ Suc k" by auto
      with b k show ?thesis by simp
    qed
  qed
  with assms show "2 ^ (bit_length n - 1) \<le> n" and "n < 2 ^ bit_length n" and "0 < bit_length n" by auto
qed

lemma round_rat_floor: "\<lfloor>x\<rfloor> \<le> round_rat x"
proof -
  obtain n d where q: "quotient_of x = (n, d)" by (cases "quotient_of x")
  then have "0 < d" and "x = of_int n / of_int d" by (simp_all add: quotient_of_denom_pos quotient_of_div)
  then have "\<lfloor>x\<rfloor> = n div d" by (simp add: floor_divide_of_int_eq)
  with round_half_even_bounds(1) [OF \<open>0 < d\<close>, of n] show ?thesis by (simp add: round_rat_def q)
qed

lemma round_rat_le: "x \<le> of_int k \<Longrightarrow> round_rat x \<le> k"
proof -
  assume le: "x \<le> of_int k"
  obtain n d where q: "quotient_of x = (n, d)" by (cases "quotient_of x")
  then have d: "0 < d" and x: "x = of_int n / of_int d" by (simp_all add: quotient_of_denom_pos quotient_of_div)
  from le d have "of_int n \<le> (of_int (k * d) :: rat)" unfolding x by (simp add: field_simps)
  then have n: "n \<le> k * d" by (simp only: of_int_le_iff)
  show ?thesis
  proof (cases "n = k * d")
    case True
    with d show ?thesis by (simp add: round_rat_def q)
  next
    case False
    with n have "n < k * d" by simp
    have "n div d < k"
    proof (rule ccontr)
      assume "\<not> n div d < k"
      with d have "k * d \<le> n div d * d" by (intro mult_right_mono) auto
      also have "\<dots> \<le> n" using pos_mod_sign [OF d, of n] div_mult_mod_eq [of n d] by linarith
      finally show False using \<open>n < k * d\<close> by simp
    qed
    with round_half_even_bounds(2) [OF d, of n] show ?thesis by (simp add: round_rat_def q)
  qed
qed

lemma round_rat_of_int [simp]: "round_rat (of_int k) = k"
proof -
  have "quotient_of (of_int k) = (k, 1)" by simp
  then show ?thesis using round_half_even_exact [of 1 k] by (simp add: round_rat_def)
qed

lemma fl_exp_bounds:
  assumes "0 < x"
  shows "2 ^ 52 \<le> scale2 x (- fl_exp x)" and "scale2 x (- fl_exp x) < 2 ^ 53"
proof -
  obtain n d where q: "quotient_of x = (n, d)" by (cases "quotient_of x")
  then have d: "0 < d" and x: "x = of_int n / of_int d" by (simp_all add: quotient_of_denom_pos quotient_of_div)
  with assms have n: "0 < n" by (simp add: zero_less_divide_iff)
  let ?a = "bit_length (nat n)" and ?b = "bit_length (nat d)"
  define e where "e = int ?a - int ?b - 53"
  have pow: "(2 :: rat) powi (- e) = 2 ^ 53 * (2 ^ ?b / 2 ^ ?a)"
    unfolding e_def by (simp add: power_int_add power_int_diff power_int_minus field_simps)
  have half: "(1 :: rat) / 2 \<le> of_int m / 2 ^ bit_length (nat m)" and one: "(of_int m :: rat) / 2 ^ bit_length (nat m) < 1"
    if "0 < m" for m :: int
  proof -
    let ?k = "bit_length (nat m)"
    have bm: "2 ^ (?k - 1) \<le> nat m" "nat m < 2 ^ ?k" "0 < ?k" using bit_length_bounds [of "nat m"] that by auto
    then have "rat_of_nat (2 ^ (?k - 1)) \<le> rat_of_nat (nat m)" "rat_of_nat (nat m) < rat_of_nat (2 ^ ?k)"
      by (simp_all only: of_nat_le_iff of_nat_less_iff)
    moreover have "(2 :: rat) ^ ?k = 2 * 2 ^ (?k - 1)" using bm(3) by (cases ?k) simp_all
    ultimately show "(1 :: rat) / 2 \<le> of_int m / 2 ^ ?k" and "(of_int m :: rat) / 2 ^ ?k < 1"
      using that by (simp_all add: field_simps)
  qed
  define u v :: rat where "u = of_int n / 2 ^ ?a" and "v = of_int d / 2 ^ ?b"
  have uv: "1 / 2 \<le> u" "u < 1" "1 / 2 \<le> v" "v < 1"
    unfolding u_def v_def using half one n d by blast+
  have scaled: "scale2 x (- e) = 2 ^ 53 * (u / v)"
    unfolding scale2_def pow x u_def v_def by (simp add: field_simps)
  have "1 / 2 < u / v" "u / v < 2" using uv by (simp_all add: field_simps)
  then have lo: "2 ^ 52 \<le> scale2 x (- e)" and hi: "scale2 x (- e) < 2 ^ 54"
    unfolding scaled by simp_all
  have e: "fl_exp x = (if scale2 x (- e) < 2 ^ 53 then e else e + 1)"
    by (simp add: fl_exp_def q e_def Let_def)
  have next_exp: "scale2 x (- (e + 1)) = scale2 x (- e) / 2"
    by (simp add: scale2_def power_int_add power_int_diff power_int_minus field_simps)
  show "2 ^ 52 \<le> scale2 x (- fl_exp x)" and "scale2 x (- fl_exp x) < 2 ^ 53"
    using lo hi next_exp unfolding e by auto
qed

text \<open>Numbers with at most 53 significant bits are exact, and rounding never goes below one of them.\<close>

lemma representable_scaled:
  assumes "0 < m" "m \<le> 2 ^ 53" and "2 ^ 52 \<le> scale2 x (- e)" and "of_int m * 2 powi q \<le> x"
  shows "\<exists>k :: int. of_int m * 2 powi q \<le> scale2 (of_int k) e \<and> of_int k \<le> scale2 x (- e) \<and>
    (of_int m * 2 powi q = x \<longrightarrow> of_int k = scale2 x (- e))"
proof (cases "e \<le> q")
  case True
  define k where "k = m * 2 ^ nat (q - e)"
  have p: "(2 :: rat) powi q = 2 powi e * 2 ^ nat (q - e)"
    using True by (metis power_int_add power_int_nonneg_exp add.commute diff_add_cancel diff_ge_0_iff_ge zero_neq_numeral)
  have k: "scale2 (of_int k) e = of_int m * 2 powi q" by (simp add: k_def scale2_def p)
  have inv: "scale2 (scale2 y e) (- e) = y" for y by (simp add: scale2_def power_int_minus)
  have "scale2 (of_int m * 2 powi q) (- e) \<le> scale2 x (- e)" using assms(4) by (simp add: scale2_def)
  then have "of_int k \<le> scale2 x (- e)" using k inv [of "of_int k"] by simp
  moreover have "of_int m * 2 powi q = x \<longrightarrow> of_int k = scale2 x (- e)" using k inv [of "of_int k"] by auto
  ultimately show ?thesis using k by (metis order_refl)
next
  case False
  then have "(2 :: rat) powi q \<le> 2 powi (e - 1)" by (intro power_int_increasing) auto
  moreover have "(of_int m :: rat) \<le> 2 ^ 53" using assms(2) by (metis of_int_le_numeral_power_cancel_iff)
  ultimately have "of_int m * (2 :: rat) powi q \<le> 2 ^ 53 * 2 powi (e - 1)"
    by (intro mult_mono) simp_all
  also have "\<dots> = scale2 (of_int (2 ^ 52)) e" by (simp add: scale2_def power_int_diff field_simps)
  finally have le: "of_int m * 2 powi q \<le> scale2 (of_int (2 ^ 52)) e" .
  moreover have "scale2 x (- e) = of_int (2 ^ 52)" if "of_int m * 2 powi q = x"
  proof -
    have "x * 2 powi (- e) \<le> scale2 (of_int (2 ^ 52)) e * 2 powi (- e)"
      using le that by (intro mult_right_mono) simp_all
    also have "\<dots> = of_int (2 ^ 52)" by (simp add: scale2_def power_int_minus)
    finally show ?thesis using assms(3) by (simp add: scale2_def)
  qed
  ultimately show ?thesis using assms(3) by (intro exI [where x = "2 ^ 52"]) auto
qed

lemma fl_pos_ge:
  assumes "0 < m" "m \<le> 2 ^ 53" and "of_int m * 2 powi q \<le> x"
  shows "of_int m * 2 powi q \<le> fl_pos x"
proof -
  have x: "0 < x" using assms by (meson less_le_trans mult_pos_pos of_int_0_less_iff zero_less_numeral zero_less_power_int)
  obtain k where k: "of_int m * 2 powi q \<le> scale2 (of_int k) (fl_exp x)" "of_int k \<le> scale2 x (- fl_exp x)"
    using representable_scaled [OF assms(1,2) fl_exp_bounds(1) [OF x] assms(3)] by blast
  have "k \<le> round_rat (scale2 x (- fl_exp x))"
    using k(2) round_rat_floor by (meson le_floor_iff order_trans)
  then have "scale2 (of_int k) (fl_exp x) \<le> fl_pos x" by (simp add: fl_pos_def scale2_def)
  with k(1) show ?thesis by simp
qed

lemma fl_pos_exact:
  assumes "0 < m" "m \<le> 2 ^ 53"
  shows "fl_pos (of_int m * 2 powi q) = of_int m * 2 powi q"
proof -
  let ?x = "(of_int m :: rat) * 2 powi q"
  have x: "0 < ?x" using assms(1) by simp
  obtain k :: int where "of_int k = scale2 ?x (- fl_exp ?x)"
    using representable_scaled [OF assms fl_exp_bounds(1) [OF x] order_refl] by blast
  then have "round_rat (scale2 ?x (- fl_exp ?x)) = k" by (metis round_rat_of_int)
  with \<open>of_int k = _\<close> show ?thesis by (simp add: fl_pos_def scale2_def power_int_minus)
qed

lemma fl_of_int: "\<bar>n\<bar> \<le> 2 ^ 53 \<Longrightarrow> fl (of_int n) = of_int n"
  using fl_pos_exact [of n 0] fl_pos_exact [of "- n" 0] by (auto simp: fl_def)

lemma fl_two_powi [simp]: "fl (2 powi e) = 2 powi e"
  using fl_pos_exact [of 1 e] by (simp add: fl_def)

lemma fl_ge:
  assumes "0 < m" "m \<le> 2 ^ 53" and "of_int m * 2 powi q \<le> x"
  shows "of_int m * 2 powi q \<le> fl x"
proof -
  have "0 < x" using assms by (meson less_le_trans mult_pos_pos of_int_0_less_iff zero_less_numeral zero_less_power_int)
  with fl_pos_ge [OF assms] show ?thesis by (simp add: fl_def)
qed

lemma fl_rep:
  assumes "0 < x"
  shows "\<exists>m q. 0 < m \<and> m \<le> 2 ^ 53 \<and> fl x = of_int m * 2 powi q"
proof (intro exI conjI)
  let ?m = "round_rat (scale2 x (- fl_exp x))"
  show "fl x = of_int ?m * 2 powi fl_exp x" using assms by (simp add: fl_def fl_pos_def scale2_def)
  have "(2 :: int) ^ 52 \<le> \<lfloor>scale2 x (- fl_exp x)\<rfloor>" using fl_exp_bounds(1) [OF assms] by (simp add: le_floor_iff)
  from order_trans [OF this round_rat_floor] have "2 ^ 52 \<le> ?m" .
  then show "0 < ?m" by simp
  show "?m \<le> 2 ^ 53" using fl_exp_bounds(2) [OF assms] by (intro round_rat_le) simp
qed

lemma fl_le:
  assumes "0 < m" "m \<le> 2 ^ 53" and "0 < x" and "x \<le> of_int m * 2 powi q"
  shows "fl x \<le> of_int m * 2 powi q"
proof (cases "fl_exp x \<le> q")
  case True
  define e where "e = fl_exp x"
  define k where "k = m * 2 ^ nat (q - e)"
  have p: "(2 :: rat) powi q = 2 powi e * 2 ^ nat (q - e)"
    using True unfolding e_def
    by (metis power_int_add power_int_nonneg_exp add.commute diff_add_cancel diff_ge_0_iff_ge zero_neq_numeral)
  have k: "of_int m * 2 powi q = scale2 (of_int k) e" by (simp add: k_def scale2_def p)
  have "scale2 x (- e) \<le> of_int k"
    using mult_right_mono [OF assms(4) [unfolded k], of "2 powi (- e)"]
    by (simp add: scale2_def power_int_minus field_simps)
  then have "round_rat (scale2 x (- e)) \<le> k" by (rule round_rat_le)
  with assms(3) show ?thesis unfolding k by (simp add: fl_def fl_pos_def e_def [symmetric] scale2_def)
next
  case False
  define e where "e = fl_exp x"
  from False have "(2 :: rat) powi q \<le> 2 powi (e - 1)" by (intro power_int_increasing) (auto simp: e_def)
  moreover have "(of_int m :: rat) \<le> 2 ^ 53" using assms(2) by (metis of_int_le_numeral_power_cancel_iff)
  ultimately have "of_int m * (2 :: rat) powi q \<le> 2 ^ 53 * 2 powi (e - 1)" by (intro mult_mono) simp_all
  also have "\<dots> = 2 ^ 52 * 2 powi e" by (simp add: power_int_diff)
  also have "\<dots> \<le> x" using mult_right_mono [OF fl_exp_bounds(1) [OF assms(3)], of "2 powi e"]
    by (simp add: e_def scale2_def power_int_minus field_simps)
  finally have "x = of_int m * 2 powi q" using assms(4) by simp
  with fl_pos_exact [OF assms(1,2)] assms(3) show ?thesis by (simp add: fl_def)
qed

lemma fl_mono_rounded:
  assumes "0 < x" and "0 < y" and "y \<le> fl x"
  shows "fl y \<le> fl x"
  using fl_rep [OF assms(1)] fl_le [OF _ _ assms(2)] assms(3) by metis

lemma fl_pos_iff [simp]: "0 < x \<Longrightarrow> 0 < fl x"
  using fl_rep [of x] by auto

section \<open>Extended values\<close>

datatype float64 = Fin rat | PosInf | NegInf | NaN

text \<open>A rounded value of \<open>2^1024\<close> or more in absolute value overflows.\<close>

definition overflow :: "rat \<Rightarrow> float64" where
  "overflow x = (if 2 ^ 1024 \<le> x then PosInf else if x \<le> - (2 ^ 1024) then NegInf else Fin x)"

fun float_mul :: "float64 \<Rightarrow> float64 \<Rightarrow> float64" where
  "float_mul (Fin a) (Fin b) = overflow (fl (a * b))"
| "float_mul NaN y = NaN"
| "float_mul x NaN = NaN"
| "float_mul (Fin a) PosInf = (if a = 0 then NaN else if 0 < a then PosInf else NegInf)"
| "float_mul (Fin a) NegInf = (if a = 0 then NaN else if 0 < a then NegInf else PosInf)"
| "float_mul PosInf (Fin a) = (if a = 0 then NaN else if 0 < a then PosInf else NegInf)"
| "float_mul NegInf (Fin a) = (if a = 0 then NaN else if 0 < a then NegInf else PosInf)"
| "float_mul PosInf PosInf = PosInf"
| "float_mul NegInf NegInf = PosInf"
| "float_mul PosInf NegInf = NegInf"
| "float_mul NegInf PosInf = NegInf"

text \<open>\<^verbatim>\<open>x < y\<close> and \<^verbatim>\<open>x >= y\<close>; both are false when an operand is NaN.\<close>

fun float_less :: "float64 \<Rightarrow> float64 \<Rightarrow> bool" where
  "float_less (Fin a) (Fin b) = (a < b)"
| "float_less NegInf (Fin b) = True"
| "float_less NegInf PosInf = True"
| "float_less (Fin a) PosInf = True"
| "float_less x y = False"

fun float_ge :: "float64 \<Rightarrow> float64 \<Rightarrow> bool" where
  "float_ge NaN y = False"
| "float_ge x NaN = False"
| "float_ge x y = (\<not> float_less x y)"

definition float_of_int :: "int \<Rightarrow> float64" where
  "float_of_int n = Fin (fl (of_int n))"

text \<open>Conversion to a 64-bit integer. Out of range, and for NaN, Go leaves the result to the
  implementation: \<open>conv\<close>.\<close>

definition float_to_int64 :: "(float64 \<Rightarrow> int) \<Rightarrow> float64 \<Rightarrow> int" where
  "float_to_int64 conv x =
     (case x of Fin a \<Rightarrow> if in_int64 (float_to_int a) then float_to_int a else conv x | _ \<Rightarrow> conv x)"

text \<open>What amd64 processors do.\<close>

definition conv_amd64 :: "float64 \<Rightarrow> int" where
  "conv_amd64 x = min_int64"

section \<open>\<^verbatim>\<open>math.Pow\<close>\<close>

definition Frexp :: "rat \<Rightarrow> rat \<times> int" where
  "Frexp x = (let e = fl_exp \<bar>x\<bar> + 53 in (scale2 x (- e), e))"

function pow_loop :: "nat \<Rightarrow> rat \<Rightarrow> int \<Rightarrow> rat \<Rightarrow> int \<Rightarrow> rat \<times> int" where
  "pow_loop i x1 xe a1 ae =
     (if i = 0 then (a1, ae)
      else if xe < - 4096 \<or> 4096 < xe then (a1, ae + xe)
      else let (a1, ae) = (if odd i then (fl (a1 * x1), ae + xe) else (a1, ae));
               x1 = fl (x1 * x1);
               xe = 2 * xe;
               (x1, xe) = (if x1 < 1 / 2 then (fl (x1 + x1), xe - 1) else (x1, xe))
           in pow_loop (i div 2) x1 xe a1 ae)"
  by pat_completeness auto
termination
  by (relation "measure (\<lambda>(i, _). i)") auto

declare pow_loop.simps [simp del]

text \<open>\<^verbatim>\<open>math.Pow(x, float64(n))\<close>.\<close>

definition go_pow :: "float64 \<Rightarrow> int \<Rightarrow> float64" where
  "go_pow x n =
     (let y = float_to_int (fl (of_int n))
      in if y = 0 \<or> x = Fin 1 then Fin 1
         else if y = 1 then x
         else case x of
                NaN \<Rightarrow> NaN
              | PosInf \<Rightarrow> if y < 0 then Fin 0 else PosInf
              | NegInf \<Rightarrow> if y < 0 then Fin 0 else if odd y then NegInf else PosInf
              | Fin a \<Rightarrow>
                  if a = 0 then if y < 0 then PosInf else Fin 0
                  else if 2 ^ 63 \<le> \<bar>y\<bar>
                  then if a = - 1 then Fin 1 else if (\<bar>a\<bar> < 1) = (0 < y) then Fin 0 else PosInf
                  else let (x1, xe) = Frexp a;
                           (a1, ae) = pow_loop (nat \<bar>y\<bar>) x1 xe 1 0;
                           (a1, ae) = (if y < 0 then (fl (1 / a1), - ae) else (a1, ae))
                       in overflow (scale2 a1 ae))"

subsection \<open>Powers of two are exact\<close>

lemma powi_half: "(2 :: rat) powi p * (1 / 2) = 2 powi (p - 1)"
  by (simp add: power_int_diff)

lemma fl_half: "fl (1 / 4) = 1 / 4" "fl (1 / 2) = 1 / 2"
  using fl_two_powi [of "- 2"] fl_two_powi [of "- 1"] by (simp_all add: power_int_minus)

lemma pow_loop_two:
  assumes "1 \<le> xe" and "0 \<le> p + ae"
  shows "\<exists>E. (case pow_loop i (1 / 2) xe (2 powi p) ae of (a1, ae') \<Rightarrow> scale2 a1 ae') = 2 powi E \<and>
    (E = p + ae + int i * (xe - 1) \<or> (4096 \<le> E \<and> 4096 \<le> p + ae + int i * (xe - 1)))"
  using assms
proof (induction i arbitrary: xe p ae rule: less_induct)
  case (less i)
  consider "i = 0" | "0 < i" "4096 < xe" | "0 < i" "xe \<le> 4096" by linarith
  then show ?case
  proof cases
    case 1
    then show ?thesis
      by (auto simp: pow_loop.simps [of 0] scale2_def power_int_add intro!: exI [where x = "p + ae"])
  next
    case 2
    have "4096 \<le> 1 * (xe - 1)" using 2 by simp
    also have "\<dots> \<le> int i * (xe - 1)" using 2 by (intro mult_right_mono) auto
    finally have big: "4096 \<le> p + ae + int i * (xe - 1)"
      using less.prems(2) by (metis add_increasing)
    have "(case pow_loop i (1 / 2) xe (2 powi p) ae of (a1, ae') \<Rightarrow> scale2 a1 ae') = 2 powi (p + (ae + xe))"
      using 2 by (simp add: pow_loop.simps [of i] scale2_def power_int_add)
    moreover have "4096 \<le> p + (ae + xe)" using 2 less.prems by linarith
    ultimately show ?thesis using big by (intro exI conjI disjI2)
  next
    case 3
    define p' where "p' = (if odd i then p - 1 else p)"
    define ae' where "ae' = (if odd i then ae + xe else ae)"
    have step: "pow_loop i (1 / 2) xe (2 powi p) ae = pow_loop (i div 2) (1 / 2) (2 * xe - 1) (2 powi p') ae'"
    proof -
      have a: "fl (2 powi p * (1 / 2)) = 2 powi (p - 1)" unfolding powi_half by (rule fl_two_powi)
      have q: "fl (1 / 2 * (1 / 2)) = 1 / 4" "fl (1 / 4 + 1 / 4) = 1 / 2" using fl_half by simp_all
      have run: "\<not> (xe < - 4096 \<or> 4096 < xe)" "i \<noteq> 0" using 3 less.prems(1) by auto
      show ?thesis
        unfolding p'_def ae'_def by (subst pow_loop.simps) (simp only: run if_False a q Let_def prod.case split: if_split, simp)
    qed
    have i: "int i = 2 * int (i div 2) + (if odd i then 1 else 0)"
      by presburger
    then have E: "p' + ae' + int (i div 2) * (2 * xe - 1 - 1) = p + ae + int i * (xe - 1)"
      unfolding p'_def ae'_def by (cases "odd i") (simp_all add: algebra_simps)
    have "1 \<le> 2 * xe - 1" "0 \<le> p' + ae'" using less.prems unfolding p'_def ae'_def by auto
    from less.IH [OF _ this, of "i div 2"] 3(1) show ?thesis unfolding step E by simp
  qed
qed

lemma overflow_powi: "1024 \<le> E \<Longrightarrow> overflow (2 powi E) = PosInf"
proof -
  assume "1024 \<le> E"
  then have "(2 :: rat) powi 1024 \<le> 2 powi E" by (intro power_int_increasing) auto
  then show ?thesis by (simp add: overflow_def)
qed

lemma Frexp_2: "Frexp 2 = (1 / 2, 2)"
proof -
  have x: "0 < (2 :: rat)" by simp
  note b = fl_exp_bounds [OF x]
  have "fl_exp 2 = - 51"
  proof (rule ccontr)
    assume "fl_exp 2 \<noteq> - 51"
    then consider "fl_exp 2 \<le> - 52" | "- 50 \<le> fl_exp 2" by linarith
    then show False
    proof cases
      case 1
      then have "(2 :: rat) powi 52 \<le> 2 powi (- fl_exp 2)" by (intro power_int_increasing) auto
      with b(2) show False by (simp add: scale2_def)
    next
      case 2
      then have "(2 :: rat) powi (- fl_exp 2) \<le> 2 powi 50" by (intro power_int_increasing) auto
      with b(1) show False by (simp add: scale2_def)
    qed
  qed
  then show ?thesis by (simp add: Frexp_def scale2_def power_int_minus)
qed

lemma float_to_int_of_int [simp]: "float_to_int (of_int n) = n"
  by (simp add: float_to_int_def)

lemma exponent_large:
  assumes "2 ^ 53 < n"
  shows "2 ^ 53 \<le> float_to_int (fl (of_int n))"
proof -
  have "of_int (2 ^ 53) * 2 powi 0 \<le> fl (of_int n)"
    using assms by (intro fl_ge) (simp_all add: of_int_le_iff [symmetric] del: of_int_le_iff)
  then show ?thesis by (simp add: float_to_int_def le_floor_iff)
qed

lemma go_pow_2:
  assumes "0 \<le> n"
  shows "go_pow (Fin 2) n = overflow (2 powi n)"
proof -
  define y where "y = float_to_int (fl (of_int n))"
  have y: "y = n \<or> (2 ^ 53 \<le> y \<and> 2 ^ 53 \<le> n)"
  proof (cases "n \<le> 2 ^ 53")
    case True
    with assms have "fl (of_int n) = of_int n" by (intro fl_of_int) simp
    then show ?thesis by (simp add: y_def)
  qed (use exponent_large in \<open>auto simp: y_def\<close>)
  have same: "overflow (2 powi y) = overflow (2 powi n)" using y overflow_powi by auto
  have loop: "(case pow_loop (nat y) (1 / 2) 2 1 0 of (a1, ae) \<Rightarrow> overflow (scale2 a1 ae)) = overflow (2 powi y)" if "0 \<le> y"
  proof -
    have "int (nat y) = y" using that by simp
    then obtain E where "(case pow_loop (nat y) (1 / 2) 2 1 0 of (a1, ae) \<Rightarrow> scale2 a1 ae) = 2 powi E"
      and "E = y \<or> 4096 \<le> E \<and> 4096 \<le> y"
      using pow_loop_two [of 2 0 0 "nat y"] by (simp del: int_nat_eq) blast
    then show ?thesis using overflow_powi by (auto split: prod.splits)
  qed
  have small: "overflow (2 powi 0) = Fin 1" "overflow (2 powi 1) = Fin 2" by (simp_all add: overflow_def)
  have "0 \<le> y" using y assms by auto
  have "go_pow (Fin 2) n = overflow (2 powi y)"
  proof (cases "2 ^ 63 \<le> y")
    case True
    then have "1024 \<le> y" by simp
    with True show ?thesis by (simp add: go_pow_def y_def [symmetric] overflow_powi)
  next
    case False
    with \<open>0 \<le> y\<close> loop small show ?thesis
      by (auto simp: go_pow_def y_def [symmetric] Let_def Frexp_2 split: prod.splits)
  qed
  with same show ?thesis by simp
qed

subsection \<open>Powers of a base of at least one\<close>

lemma fl_ge_powi: "2 powi q \<le> x \<Longrightarrow> 2 powi q \<le> fl x"
  using fl_ge [of 1 q x] by simp

lemma pow_loop_ge:
  assumes "1 \<le> xe" and "2 powi (- xe) \<le> x1" and "2 powi (- ae) \<le> a1"
  shows "1 \<le> (case pow_loop i x1 xe a1 ae of (a, e) \<Rightarrow> scale2 a e)"
  using assms
proof (induction i arbitrary: x1 xe a1 ae rule: less_induct)
  case (less i)
  have one: "1 \<le> scale2 a e" if "2 powi (- e) \<le> a" for a e
    using mult_right_mono [OF that, of "2 powi e"] by (simp add: scale2_def power_int_minus)
  have prod: "2 powi (- (e + f)) \<le> fl (a * b)" if "2 powi (- e) \<le> a" "2 powi (- f) \<le> b" for a b :: rat and e f
  proof (rule fl_ge_powi)
    have "(2 :: rat) powi (- e) * 2 powi (- f) \<le> a * b" using that by (intro mult_mono) (auto intro: order_trans [rotated])
    then show "2 powi (- (e + f)) \<le> a * b" by (simp add: power_int_diff power_int_minus field_simps power_int_add)
  qed
  consider "i = 0" | "0 < i" "4096 < xe" | "0 < i" "xe \<le> 4096" by linarith
  then show ?case
  proof cases
    case 1
    then show ?thesis using one [OF less.prems(3)] by (simp add: pow_loop.simps [of 0])
  next
    case 2
    have "(2 :: rat) powi (- (ae + xe)) \<le> 2 powi (- ae)" using 2 by (intro power_int_increasing) auto
    with less.prems(3) have "2 powi (- (ae + xe)) \<le> a1" by simp
    from one [OF this] 2 show ?thesis by (simp add: pow_loop.simps [of i])
  next
    case 3
    define a1' where "a1' = (if odd i then fl (a1 * x1) else a1)"
    define ae' where "ae' = (if odd i then ae + xe else ae)"
    define x1' where "x1' = (if fl (x1 * x1) < 1 / 2 then fl (fl (x1 * x1) + fl (x1 * x1)) else fl (x1 * x1))"
    define xe' where "xe' = (if fl (x1 * x1) < 1 / 2 then 2 * xe - 1 else 2 * xe)"
    have run: "\<not> (xe < - 4096 \<or> 4096 < xe)" "i \<noteq> 0" using 3 less.prems(1) by auto
    have step: "pow_loop i x1 xe a1 ae = pow_loop (i div 2) x1' xe' a1' ae'"
      unfolding a1'_def ae'_def x1'_def xe'_def
      by (subst pow_loop.simps) (simp only: run if_False Let_def prod.case split: if_split, simp)
    have sq: "2 powi (- (2 * xe)) \<le> fl (x1 * x1)" using prod [OF less.prems(2,2)] by simp
    have "2 powi (- xe') \<le> x1'"
    proof (cases "fl (x1 * x1) < 1 / 2")
      case True
      have "(2 :: rat) powi (- (2 * xe - 1)) = 2 powi (- (2 * xe)) + 2 powi (- (2 * xe))"
        using power_int_add_1 [of "2 :: rat" "- (2 * xe)"] by (simp add: algebra_simps)
      also have "\<dots> \<le> fl (x1 * x1) + fl (x1 * x1)" using sq by (intro add_mono)
      finally show ?thesis using True by (simp add: x1'_def xe'_def fl_ge_powi)
    qed (use sq in \<open>simp add: x1'_def xe'_def\<close>)
    moreover have "2 powi (- ae') \<le> a1'" using prod [OF less.prems(3,2)] less.prems(3) by (simp add: a1'_def ae'_def)
    moreover have "1 \<le> xe'" using less.prems(1) by (simp add: xe'_def)
    ultimately show ?thesis unfolding step using less.IH [of "i div 2" xe' x1' ae' a1'] 3(1) by simp
  qed
qed

lemma go_pow_ge_1:
  assumes "1 \<le> a" and "0 < n"
  shows "go_pow (Fin a) n = PosInf \<or> (\<exists>r \<ge> 1. go_pow (Fin a) n = Fin r)"
proof -
  define y where "y = float_to_int (fl (of_int n))"
  have "of_int 1 * 2 powi 0 \<le> fl (of_int n)" using assms(2) by (intro fl_ge) auto
  then have y: "1 \<le> y" by (simp add: y_def float_to_int_def le_floor_iff)
  obtain x1 xe where f: "Frexp a = (x1, xe)" by fastforce
  have pos: "0 < a" using assms(1) by simp
  then have x: "xe = fl_exp a + 53" "x1 = scale2 a (- xe)" using f by (auto simp: Frexp_def Let_def)
  have "2 powi (- xe) \<le> x1" using assms(1) by (simp add: x(2) scale2_def)
  moreover have "1 \<le> xe"
  proof (rule ccontr)
    assume "\<not> 1 \<le> xe"
    then have "(2 :: rat) powi 53 \<le> 2 powi (- fl_exp a)" using x(1) by (intro power_int_increasing) auto
    also have "\<dots> \<le> a * 2 powi (- fl_exp a)" using mult_right_mono [OF assms(1), of "2 powi (- fl_exp a)"] by simp
    finally show False using fl_exp_bounds(2) [OF pos] by (simp add: scale2_def)
  qed
  ultimately have "1 \<le> (case pow_loop (nat y) x1 xe 1 0 of (a, e) \<Rightarrow> scale2 a e)" by (intro pow_loop_ge) auto
  then have "overflow (case pow_loop (nat y) x1 xe 1 0 of (a, e) \<Rightarrow> scale2 a e) = PosInf \<or>
      (\<exists>r \<ge> 1. overflow (case pow_loop (nat y) x1 xe 1 0 of (a, e) \<Rightarrow> scale2 a e) = Fin r)"
    by (auto simp: overflow_def)
  moreover have "y \<noteq> 0" "\<not> y < 0" "\<bar>y\<bar> = y" "a \<noteq> 0" "\<bar>a\<bar> = a" "a \<noteq> - 1" "\<not> a < 1" "0 < y" using y assms(1) by auto
  ultimately show ?thesis using assms(1)
    by (auto simp: go_pow_def y_def [symmetric] Let_def f split: prod.splits)
qed

end
