(* ===== verification/Redis_Interface.thy ===== *)
theory Redis_Interface
  imports Go_Float
begin

text \<open>
  Redis and its Go client are not part of the repository: the server is a parameter \<open>r\<close> of every
  definition that talks to it, a record with one field per command, over an arbitrary server state.
  The locale \<open>redis_server\<close> states what the Redis documentation promises of these commands, in terms
  of what a client sees at an instant (\<open>view\<close>): values, and deadlines after which a key is gone.
  \<open>mini_redis\<close> is a small store that satisfies the laws, so they are consistent.

  A call over the network may fail before or after the server has executed it (\<open>link\<close>). Inside a Lua
  script the commands cannot be lost, and the script runs atomically.
\<close>

section \<open>Values\<close>

record redis_entry =
  rvalue :: string
  deadline :: "go_time option"

definition live :: "go_time \<Rightarrow> redis_entry \<Rightarrow> bool" where
  "live now e = (case deadline e of None \<Rightarrow> True | Some d \<Rightarrow> now < d)"

text \<open>A dynamically typed value (\<^verbatim>\<open>any\<close>) as the client returns it.\<close>

datatype go_any = AInt64 int | AInt int | AString string | ABytes string | AArray "go_any list" | ANil

section \<open>Commands\<close>

text \<open>The time to live of a key set through the client is given as a duration; the client sends it
  in milliseconds, at least one.\<close>

definition expiry_of :: "duration \<Rightarrow> duration" where
  "expiry_of ttl = max 1 (ttl div millisecond) * millisecond"

record 's redis =
  GET :: "go_time \<Rightarrow> string \<Rightarrow> 's \<Rightarrow> 's \<times> string option"
  SETNX :: "go_time \<Rightarrow> string \<Rightarrow> string \<Rightarrow> duration \<Rightarrow> 's \<Rightarrow> 's \<times> (go_error + bool)"
  SETEX :: "go_time \<Rightarrow> string \<Rightarrow> string \<Rightarrow> duration \<Rightarrow> 's \<Rightarrow> 's \<times> (go_error + unit)"
  DEL :: "go_time \<Rightarrow> string \<Rightarrow> 's \<Rightarrow> 's \<times> int"
  PEXPIRE :: "go_time \<Rightarrow> string \<Rightarrow> int \<Rightarrow> 's \<Rightarrow> 's \<times> int"
  PTTL :: "go_time \<Rightarrow> string \<Rightarrow> 's \<Rightarrow> 's \<times> int"
  INCRBY :: "go_time \<Rightarrow> string \<Rightarrow> int \<Rightarrow> 's \<Rightarrow> 's \<times> (go_error + int)"

datatype link = Delivered | RequestLost go_error | ReplyLost go_error

definition client_call :: "link \<Rightarrow> ('s \<Rightarrow> 's \<times> (go_error + 'a)) \<Rightarrow> 's \<Rightarrow> 's \<times> (go_error + 'a)" where
  "client_call l cmd s =
     (case l of Delivered \<Rightarrow> cmd s | RequestLost e \<Rightarrow> (s, Inl e) | ReplyLost e \<Rightarrow> (fst (cmd s), Inl e))"

text \<open>A Lua script: given the server that runs it and the time, keys and arguments to a program over
  the server state.\<close>

type_synonym 's script = "'s redis \<Rightarrow> go_time \<Rightarrow> string list \<Rightarrow> string list \<Rightarrow> 's \<Rightarrow> 's \<times> (go_error + go_any)"

section \<open>Lua numbers\<close>

text \<open>Numbers in a script are IEEE doubles: integers beyond \<open>2\<^sup>5\<^sup>3\<close> are rounded to 53 significant
  bits, ties to even.\<close>

definition lua_round :: "int \<Rightarrow> int" where
  "lua_round n =
     (if \<bar>n\<bar> \<le> 9007199254740992 then n
      else let u = 2 ^ (bit_length (nat \<bar>n\<bar>) - 53) in round_half_even n u * u)"

text \<open>\<^verbatim>\<open>tonumber\<close> on a decimal integer; the scripts apply it to nothing else (the counters they read
  are written by \<^verbatim>\<open>INCRBY\<close>, the arguments are integers formatted by the client). \<open>None\<close> is a script
  error: comparing or adding a value that is not a number.\<close>

definition lua_tonumber :: "string \<Rightarrow> int option" where
  "lua_tonumber s = (case ParseInt s of (n, None) \<Rightarrow> Some (lua_round n) | _ \<Rightarrow> None)"

definition lua_error :: go_error where
  "lua_error = ErrorNew ''ERR Error running script''"

lemma lua_round_id: "\<bar>n\<bar> \<le> 9007199254740992 \<Longrightarrow> lua_round n = n"
  by (simp add: lua_round_def)

lemma lua_tonumber_FormatInt:
  assumes "\<bar>n\<bar> \<le> 9007199254740992"
  shows "lua_tonumber (FormatInt n) = Some n"
proof -
  have "in_int64 n" using assms by (auto simp: in_int64_def)
  with assms show ?thesis by (simp add: lua_tonumber_def ParseInt_FormatInt lua_round_id)
qed

section \<open>What the documentation promises\<close>

locale redis_server =
  fixes r :: "'s redis"
    and view :: "'s \<Rightarrow> go_time \<Rightarrow> string \<Rightarrow> redis_entry option"
  assumes view_later: "now \<le> t \<Longrightarrow>
      view s t k = (case view s now k of None \<Rightarrow> None | Some e \<Rightarrow> if live t e then Some e else None)"
    and GET_value: "snd (GET r now k s) = map_option rvalue (view s now k)"
    and GET_view: "view (fst (GET r now k s)) now = view s now"
    and SETNX_free: "0 < ttl \<Longrightarrow> view s now k = None \<Longrightarrow>
      snd (SETNX r now k v ttl s) = Inr True \<and>
      view (fst (SETNX r now k v ttl s)) now =
        (view s now)(k \<mapsto> \<lparr>rvalue = v, deadline = Some (now + expiry_of ttl)\<rparr>)"
    and SETNX_taken: "0 < ttl \<Longrightarrow> view s now k \<noteq> None \<Longrightarrow>
      snd (SETNX r now k v ttl s) = Inr False \<and> view (fst (SETNX r now k v ttl s)) now = view s now"
    and SETEX_value: "0 < ttl \<Longrightarrow>
      snd (SETEX r now k v ttl s) = Inr () \<and>
      view (fst (SETEX r now k v ttl s)) now =
        (view s now)(k \<mapsto> \<lparr>rvalue = v, deadline = Some (now + expiry_of ttl)\<rparr>)"
    and DEL_value: "snd (DEL r now k s) = (if view s now k = None then 0 else 1)"
    and DEL_view: "view (fst (DEL r now k s)) now = (view s now)(k := None)"
    and PEXPIRE_value: "0 < ms \<Longrightarrow> snd (PEXPIRE r now k ms s) = (if view s now k = None then 0 else 1)"
    and PEXPIRE_view: "0 < ms \<Longrightarrow> view (fst (PEXPIRE r now k ms s)) now =
      (view s now)(k := map_option (\<lambda>e. e\<lparr>deadline := Some (now + ms * millisecond)\<rparr>) (view s now k))"
    and PTTL_value: "snd (PTTL r now k s) =
      (case view s now k of None \<Rightarrow> - 2
       | Some e \<Rightarrow> (case deadline e of None \<Rightarrow> - 1 | Some d \<Rightarrow> (d - now) div millisecond))"
    and PTTL_view: "view (fst (PTTL r now k s)) now = view s now"
    and INCRBY_absent: "view s now k = None \<Longrightarrow> in_int64 d \<Longrightarrow>
      snd (INCRBY r now k d s) = Inr d \<and>
      view (fst (INCRBY r now k d s)) now = (view s now)(k \<mapsto> \<lparr>rvalue = FormatInt d, deadline = None\<rparr>)"
    and INCRBY_present: "view s now k = Some e \<Longrightarrow> rvalue e = FormatInt n \<Longrightarrow> in_int64 n \<Longrightarrow> in_int64 (n + d) \<Longrightarrow>
      snd (INCRBY r now k d s) = Inr (n + d) \<and>
      view (fst (INCRBY r now k d s)) now = (view s now)(k \<mapsto> e\<lparr>rvalue := FormatInt (n + d)\<rparr>)"
begin

lemmas redis_laws = GET_value GET_view SETNX_free SETNX_taken SETEX_value DEL_value DEL_view
  PEXPIRE_value PEXPIRE_view PTTL_value PTTL_view

lemma view_live: "view s now k = Some e \<Longrightarrow> live now e"
  using view_later [of now now s k] by (simp split: if_splits)

lemma view_stays: "view s now k = Some e \<Longrightarrow> now \<le> t \<Longrightarrow> live t e \<Longrightarrow> view s t k = Some e"
  using view_later [of now t s k] by simp

lemma view_back: "view s t k = Some e \<Longrightarrow> now \<le> t \<Longrightarrow> view s now k = Some e"
  using view_later [of now t s k] by (simp split: option.splits if_splits)

lemma view_same_later: "view s' now k = view s now k \<Longrightarrow> now \<le> t \<Longrightarrow> view s' t k = view s t k"
  using view_later [of now t s k] view_later [of now t s' k] by simp

end

section \<open>A reference store\<close>

type_synonym redis_store = "string \<rightharpoonup> redis_entry"

definition mini_view :: "redis_store \<Rightarrow> go_time \<Rightarrow> string \<Rightarrow> redis_entry option" where
  "mini_view s now k = (case s k of None \<Rightarrow> None | Some e \<Rightarrow> if live now e then Some e else None)"

definition mini_set :: "go_time \<Rightarrow> string \<Rightarrow> string \<Rightarrow> duration \<Rightarrow> redis_store \<Rightarrow> redis_store" where
  "mini_set now k v ttl s =
     s(k \<mapsto> \<lparr>rvalue = v, deadline = (if ttl = 0 then None else Some (now + expiry_of ttl))\<rparr>)"

definition expire_error :: go_error where
  "expire_error = ErrorNew ''ERR invalid expire time in 'set' command''"

definition value_error :: go_error where
  "value_error = ErrorNew ''ERR value is not an integer or out of range''"

definition mini_incr :: "go_time \<Rightarrow> string \<Rightarrow> int \<Rightarrow> redis_store \<Rightarrow> redis_store \<times> (go_error + int)" where
  "mini_incr now k d s =
     (case mini_view s now k of
        None \<Rightarrow> if in_int64 d then (s(k \<mapsto> \<lparr>rvalue = FormatInt d, deadline = None\<rparr>), Inr d) else (s, Inl value_error)
      | Some e \<Rightarrow>
          (case ParseInt (rvalue e) of
             (n, None) \<Rightarrow> if in_int64 (n + d) then (s(k \<mapsto> e\<lparr>rvalue := FormatInt (n + d)\<rparr>), Inr (n + d))
                         else (s, Inl value_error)
           | _ \<Rightarrow> (s, Inl value_error)))"

definition mini_redis :: "redis_store redis" where
  "mini_redis =
     \<lparr>GET = (\<lambda>now k s. (s, map_option rvalue (mini_view s now k))),
      SETNX = (\<lambda>now k v ttl s.
        if mini_view s now k \<noteq> None then (s, Inr False)
        else if ttl < 0 then (s, Inl expire_error) else (mini_set now k v ttl s, Inr True)),
      SETEX = (\<lambda>now k v ttl s. if ttl < 0 then (s, Inl expire_error) else (mini_set now k v ttl s, Inr ())),
      DEL = (\<lambda>now k s. (s(k := None), if mini_view s now k = None then 0 else 1)),
      PEXPIRE = (\<lambda>now k ms s.
        (case mini_view s now k of
           None \<Rightarrow> (s, 0)
         | Some e \<Rightarrow> (if ms \<le> 0 then s(k := None) else s(k \<mapsto> e\<lparr>deadline := Some (now + ms * millisecond)\<rparr>), 1))),
      PTTL = (\<lambda>now k s.
        (s, case mini_view s now k of None \<Rightarrow> - 2
            | Some e \<Rightarrow> (case deadline e of None \<Rightarrow> - 1 | Some d \<Rightarrow> (d - now) div millisecond))),
      INCRBY = mini_incr\<rparr>"

lemma expiry_of_pos: "0 < expiry_of ttl"
  by (auto simp: expiry_of_def)

lemma mini_view_upd: "mini_view (s(k \<mapsto> e)) now = (if live now e then (mini_view s now)(k \<mapsto> e) else (mini_view s now)(k := None))"
  by (auto simp: mini_view_def fun_eq_iff)

lemma mini_view_del: "mini_view (s(k := None)) now = (mini_view s now)(k := None)"
  by (auto simp: mini_view_def fun_eq_iff)

lemma mini_view_live: "mini_view s now k = Some e \<Longrightarrow> live now e"
  by (auto simp: mini_view_def split: option.splits if_splits)

lemma live_rvalue [simp]: "live now (e\<lparr>rvalue := v\<rparr>) = live now e"
  by (simp add: live_def)

interpretation mini: redis_server mini_redis mini_view
proof unfold_locales
  fix now t :: go_time and s k assume "now \<le> t"
  then show "mini_view s t k = (case mini_view s now k of None \<Rightarrow> None | Some e \<Rightarrow> if live t e then Some e else None)"
    by (auto simp: mini_view_def live_def split: option.splits)
next
  fix now ttl :: int and s k v assume "0 < ttl" "mini_view s now k = None"
  then show "snd (SETNX mini_redis now k v ttl s) = Inr True \<and>
      mini_view (fst (SETNX mini_redis now k v ttl s)) now =
        (mini_view s now)(k \<mapsto> \<lparr>rvalue = v, deadline = Some (now + expiry_of ttl)\<rparr>)"
    by (simp add: mini_redis_def mini_set_def mini_view_upd live_def expiry_of_pos)
next
  fix now :: go_time and ttl s k v assume "0 < (ttl :: duration)"
  then show "snd (SETEX mini_redis now k v ttl s) = Inr () \<and>
      mini_view (fst (SETEX mini_redis now k v ttl s)) now =
        (mini_view s now)(k \<mapsto> \<lparr>rvalue = v, deadline = Some (now + expiry_of ttl)\<rparr>)"
    by (simp add: mini_redis_def mini_set_def mini_view_upd live_def expiry_of_pos)
next
  fix now :: go_time and ms s k assume "0 < (ms :: int)"
  then show "mini_view (fst (PEXPIRE mini_redis now k ms s)) now = (mini_view s now)
      (k := map_option (\<lambda>e. e\<lparr>deadline := Some (now + ms * millisecond)\<rparr>) (mini_view s now k))"
    by (cases "mini_view s now k") (simp_all add: mini_redis_def mini_view_upd live_def fun_upd_idem)
next
  fix now :: go_time and s k and e :: redis_entry and n d
  assume "mini_view s now k = Some e" "rvalue e = FormatInt n" "in_int64 n" "in_int64 (n + d)"
  moreover from this(1) have "live now (e\<lparr>rvalue := FormatInt (n + d)\<rparr>)"
    by (simp add: mini_view_live)
  ultimately show "snd (INCRBY mini_redis now k d s) = Inr (n + d) \<and>
      mini_view (fst (INCRBY mini_redis now k d s)) now = (mini_view s now)(k \<mapsto> e\<lparr>rvalue := FormatInt (n + d)\<rparr>)"
    by (simp add: mini_redis_def mini_incr_def ParseInt_FormatInt mini_view_upd)
next
  fix now :: go_time and s k d assume "mini_view s now k = None" "in_int64 d"
  then show "snd (INCRBY mini_redis now k d s) = Inr d \<and>
      mini_view (fst (INCRBY mini_redis now k d s)) now =
        (mini_view s now)(k \<mapsto> \<lparr>rvalue = FormatInt d, deadline = None\<rparr>)"
    by (simp add: mini_redis_def mini_incr_def mini_view_upd live_def)
next
  fix now ms :: int and s k assume "0 < ms"
  then show "snd (PEXPIRE mini_redis now k ms s) = (if mini_view s now k = None then 0 else 1)"
    by (simp add: mini_redis_def split: option.splits)
qed (simp_all add: mini_redis_def mini_view_del)

end
