(* ===== verification/Lock_Contract.thy ===== *)
theory Lock_Contract
  imports Redis_Interface
begin

text \<open>
  The contract shared by the four lock implementations of the repository (\<^verbatim>\<open>lock.Locker\<close>, the
  \<^verbatim>\<open>lock.DistributedLocker\<close>, \<^verbatim>\<open>runtimeguard.RedisLockManager\<close> and the process-local
  \<^verbatim>\<open>runtimeguard.LockManager\<close>): a key is held by at most one token until its lease ends. The execution
  model lets any number of callers acquire, renew and release in any order, over a link that may lose
  requests and replies, while time passes; mutual exclusion is proved once, from the contract.
\<close>

section \<open>Executions\<close>

text \<open>A positive 64-bit duration.\<close>

definition valid_ttl :: "duration \<Rightarrow> bool" where
  "valid_ttl ttl \<longleftrightarrow> 0 < ttl \<and> in_int64 ttl"

text \<open>Ghost state: the leases callers were told they hold, as key, token and end.\<close>

type_synonym lease = "string \<times> string \<times> go_time"

record 's lock_world =
  lw_clock :: go_time
  lw_store :: 's
  lw_leases :: "lease list"

definition drop_lease :: "string \<Rightarrow> string \<Rightarrow> lease list \<Rightarrow> lease list" where
  "drop_lease k tok = filter (\<lambda>(k', tok', d). \<not> (k' = k \<and> tok' = tok))"

definition clip_lease :: "string \<Rightarrow> string \<Rightarrow> go_time \<Rightarrow> lease list \<Rightarrow> lease list" where
  "clip_lease k tok b = map (\<lambda>(k', tok', d). (k', tok', if k' = k \<and> tok' = tok then min d b else d))"

text \<open>The parameters are the operations of one implementation: \<open>acquire\<close>, \<open>release\<close> and \<open>renew\<close> act on
  the store and say whether they succeeded; \<open>granted\<close> is the length of a lease and \<open>ckey\<close>/\<open>ctok\<close> the
  normal form of keys and tokens. A caller whose renewal failed keeps its lease, but must reckon with
  the shorter of the two ends.\<close>

inductive lock_reachable ::
  "(link \<Rightarrow> go_time \<Rightarrow> string \<Rightarrow> string \<Rightarrow> duration \<Rightarrow> 's \<Rightarrow> 's \<times> bool) \<Rightarrow>
   (link \<Rightarrow> go_time \<Rightarrow> string \<Rightarrow> string \<Rightarrow> 's \<Rightarrow> 's \<times> bool) \<Rightarrow>
   (link \<Rightarrow> go_time \<Rightarrow> string \<Rightarrow> string \<Rightarrow> duration \<Rightarrow> 's \<Rightarrow> 's \<times> bool) \<Rightarrow>
   (duration \<Rightarrow> duration) \<Rightarrow> (string \<Rightarrow> string) \<Rightarrow> (string \<Rightarrow> string) \<Rightarrow> 's lock_world \<Rightarrow> bool"
  for acquire release renew granted ckey ctok where
  start: "lock_reachable acquire release renew granted ckey ctok
            \<lparr>lw_clock = now, lw_store = s, lw_leases = []\<rparr>"
| tick: "lock_reachable acquire release renew granted ckey ctok w \<Longrightarrow> lw_clock w \<le> t \<Longrightarrow>
     lock_reachable acquire release renew granted ckey ctok (w\<lparr>lw_clock := t\<rparr>)"
| acquire: "lock_reachable acquire release renew granted ckey ctok w \<Longrightarrow> valid_ttl ttl \<Longrightarrow>
     acquire l (lw_clock w) k tok ttl (lw_store w) = (s', ok) \<Longrightarrow>
     ls' = (if ok then (ckey k, ctok tok, lw_clock w + granted ttl) # drop_lease (ckey k) (ctok tok) (lw_leases w)
            else lw_leases w) \<Longrightarrow>
     lock_reachable acquire release renew granted ckey ctok (w\<lparr>lw_store := s', lw_leases := ls'\<rparr>)"
| release: "lock_reachable acquire release renew granted ckey ctok w \<Longrightarrow>
     release l (lw_clock w) k tok (lw_store w) = (s', ok) \<Longrightarrow>
     lock_reachable acquire release renew granted ckey ctok
       (w\<lparr>lw_store := s', lw_leases := drop_lease (ckey k) (ctok tok) (lw_leases w)\<rparr>)"
| renew: "lock_reachable acquire release renew granted ckey ctok w \<Longrightarrow> valid_ttl ttl \<Longrightarrow>
     renew l (lw_clock w) k tok ttl (lw_store w) = (s', ok) \<Longrightarrow>
     ls' = (if ok then (ckey k, ctok tok, lw_clock w + granted ttl) # drop_lease (ckey k) (ctok tok) (lw_leases w)
            else clip_lease (ckey k) (ctok tok) (lw_clock w + granted ttl) (lw_leases w)) \<Longrightarrow>
     lock_reachable acquire release renew granted ckey ctok (w\<lparr>lw_store := s', lw_leases := ls'\<rparr>)"

text \<open>For an implementation without renewal.\<close>

definition no_renew :: "link \<Rightarrow> go_time \<Rightarrow> string \<Rightarrow> string \<Rightarrow> duration \<Rightarrow> 's \<Rightarrow> 's \<times> bool" where
  "no_renew l now k tok ttl s = (s, False)"

lemma lock_reachable_first:
  assumes "valid_ttl ttl" and "acquire l now k tok ttl s = (s', True)"
  shows "lock_reachable acquire release renew granted ckey ctok
           \<lparr>lw_clock = now, lw_store = s', lw_leases = [(ckey k, ctok tok, now + granted ttl)]\<rparr>"
proof -
  have "lock_reachable acquire release renew granted ckey ctok \<lparr>lw_clock = now, lw_store = s, lw_leases = []\<rparr>"
    by (rule lock_reachable.start)
  from lock_reachable.acquire [OF this assms(1), where l = l and k = k and tok = tok and ok = True and s' = s', OF _ refl]
    assms(2) show ?thesis by (simp add: drop_lease_def)
qed

section \<open>The contract\<close>

locale token_lock =
  fixes acquire :: "link \<Rightarrow> go_time \<Rightarrow> string \<Rightarrow> string \<Rightarrow> duration \<Rightarrow> 's \<Rightarrow> 's \<times> bool"
    and release :: "link \<Rightarrow> go_time \<Rightarrow> string \<Rightarrow> string \<Rightarrow> 's \<Rightarrow> 's \<times> bool"
    and renew :: "link \<Rightarrow> go_time \<Rightarrow> string \<Rightarrow> string \<Rightarrow> duration \<Rightarrow> 's \<Rightarrow> 's \<times> bool"
    and granted :: "duration \<Rightarrow> duration"
    and ckey :: "string \<Rightarrow> string"
    and ctok :: "string \<Rightarrow> string"
    and owner :: "'s \<Rightarrow> go_time \<Rightarrow> string \<Rightarrow> string option"
  assumes owner_earlier: "owner s t k = Some tok \<Longrightarrow> now \<le> t \<Longrightarrow> owner s now k = Some tok"
    and acquire_ok: "valid_ttl ttl \<Longrightarrow> acquire l now k tok ttl s = (s', True) \<Longrightarrow>
      owner s now (ckey k) \<in> {None, Some (ctok tok)} \<and>
      (\<forall>t. now \<le> t \<and> t < now + granted ttl \<longrightarrow> owner s' t (ckey k) = Some (ctok tok))"
    and acquire_failed: "valid_ttl ttl \<Longrightarrow> acquire l now k tok ttl s = (s', False) \<Longrightarrow>
      owner s now (ckey k) \<noteq> None \<Longrightarrow> now \<le> t \<Longrightarrow> owner s' t (ckey k) = owner s t (ckey k)"
    and acquire_other: "valid_ttl ttl \<Longrightarrow> acquire l now k tok ttl s = (s', ok) \<Longrightarrow> k' \<noteq> ckey k \<Longrightarrow> now \<le> t \<Longrightarrow>
      owner s' t k' = owner s t k'"
    and release_other: "release l now k tok s = (s', ok) \<Longrightarrow>
      \<not> (k' = ckey k \<and> owner s now k' = Some (ctok tok)) \<Longrightarrow> now \<le> t \<Longrightarrow> owner s' t k' = owner s t k'"
    and renew_ok: "valid_ttl ttl \<Longrightarrow> renew l now k tok ttl s = (s', True) \<Longrightarrow>
      owner s now (ckey k) = Some (ctok tok) \<and>
      (\<forall>t. now \<le> t \<and> t < now + granted ttl \<longrightarrow> owner s' t (ckey k) = Some (ctok tok))"
    and renew_failed: "valid_ttl ttl \<Longrightarrow> renew l now k tok ttl s = (s', False) \<Longrightarrow> now \<le> t \<Longrightarrow>
      owner s t (ckey k) = Some (ctok tok) \<Longrightarrow> t < now + granted ttl \<Longrightarrow> owner s' t (ckey k) = Some (ctok tok)"
    and renew_other: "valid_ttl ttl \<Longrightarrow> renew l now k tok ttl s = (s', ok) \<Longrightarrow>
      \<not> (k' = ckey k \<and> owner s now k' = Some (ctok tok)) \<Longrightarrow> now \<le> t \<Longrightarrow> owner s' t k' = owner s t k'"
begin

definition leases_hold :: "'s lock_world \<Rightarrow> bool" where
  "leases_hold w \<longleftrightarrow> (\<forall>(k, tok, d) \<in> set (lw_leases w).
     \<forall>t. lw_clock w \<le> t \<and> t < d \<longrightarrow> owner (lw_store w) t k = Some tok)"

lemma leases_holdD:
  assumes "leases_hold w" and "(k, tok, d) \<in> set (lw_leases w)" and "lw_clock w \<le> t" and "t < d"
  shows "owner (lw_store w) t k = Some tok \<and> owner (lw_store w) (lw_clock w) k = Some tok"
proof -
  have "owner (lw_store w) t k = Some tok" using assms by (auto simp: leases_hold_def)
  with owner_earlier [OF this assms(3)] show ?thesis by simp
qed

lemma leases_hold_acquire:
  assumes inv: "leases_hold w" and "valid_ttl ttl"
    and acq: "acquire l (lw_clock w) k tok ttl (lw_store w) = (s', ok)"
  shows "leases_hold (w\<lparr>lw_store := s', lw_leases := (if ok
           then (ckey k, ctok tok, lw_clock w + granted ttl) # drop_lease (ckey k) (ctok tok) (lw_leases w)
           else lw_leases w)\<rparr>)"
proof -
  have keep: "owner s' t k' = Some tok'"
    if l: "(k', tok', d) \<in> set (lw_leases w)" "lw_clock w \<le> t" "t < d" "ok \<longrightarrow> k' \<noteq> ckey k \<or> tok' \<noteq> ctok tok"
    for k' tok' d t
  proof (cases "k' = ckey k")
    case True
    note own = leases_holdD [OF inv l(1-3)]
    show ?thesis
    proof (cases ok)
      case True
      with acq have "acquire l (lw_clock w) k tok ttl (lw_store w) = (s', True)" by simp
      from acquire_ok [OF assms(2) this] own True \<open>k' = ckey k\<close> l(4) show ?thesis by auto
    next
      case False
      with acq have "acquire l (lw_clock w) k tok ttl (lw_store w) = (s', False)" by simp
      from acquire_failed [OF assms(2) this _ l(2)] own \<open>k' = ckey k\<close> show ?thesis by auto
    qed
  next
    case False
    with acquire_other [OF assms(2) acq] leases_holdD [OF inv l(1-3)] l(2) show ?thesis by simp
  qed
  show ?thesis
  proof (cases ok)
    case True
    with acq have "acquire l (lw_clock w) k tok ttl (lw_store w) = (s', True)" by simp
    from acquire_ok [OF assms(2) this] keep True show ?thesis
      by (auto simp: leases_hold_def drop_lease_def)
  next
    case False
    with keep show ?thesis by (auto simp: leases_hold_def)
  qed
qed

lemma leases_hold_release:
  assumes inv: "leases_hold w" and rel: "release l (lw_clock w) k tok (lw_store w) = (s', ok)"
  shows "leases_hold (w\<lparr>lw_store := s', lw_leases := drop_lease (ckey k) (ctok tok) (lw_leases w)\<rparr>)"
proof -
  have "owner s' t k' = Some tok'"
    if l: "(k', tok', d) \<in> set (lw_leases w)" "lw_clock w \<le> t" "t < d" "\<not> (k' = ckey k \<and> tok' = ctok tok)"
    for k' tok' d t
    using leases_holdD [OF inv l(1-3)] release_other [OF rel, of k' t] l(2,4) by auto
  then show ?thesis by (auto simp: leases_hold_def drop_lease_def)
qed

lemma leases_hold_renew:
  assumes inv: "leases_hold w" and "valid_ttl ttl"
    and ren: "renew l (lw_clock w) k tok ttl (lw_store w) = (s', ok)"
  shows "leases_hold (w\<lparr>lw_store := s', lw_leases := (if ok
           then (ckey k, ctok tok, lw_clock w + granted ttl) # drop_lease (ckey k) (ctok tok) (lw_leases w)
           else clip_lease (ckey k) (ctok tok) (lw_clock w + granted ttl) (lw_leases w))\<rparr>)"
proof -
  have other: "owner s' t k' = Some tok'"
    if l: "(k', tok', d) \<in> set (lw_leases w)" "lw_clock w \<le> t" "t < d" "\<not> (k' = ckey k \<and> tok' = ctok tok)"
    for k' tok' d t
    using leases_holdD [OF inv l(1-3)] renew_other [OF assms(2) ren, of k' t] l(2,4) by auto
  show ?thesis
  proof (cases ok)
    case True
    with ren have "renew l (lw_clock w) k tok ttl (lw_store w) = (s', True)" by simp
    from renew_ok [OF assms(2) this] other True show ?thesis
      by (auto simp: leases_hold_def drop_lease_def)
  next
    case False
    with ren have failed: "renew l (lw_clock w) k tok ttl (lw_store w) = (s', False)" by simp
    have "owner s' t (ckey k) = Some (ctok tok)"
      if l: "(ckey k, ctok tok, d) \<in> set (lw_leases w)" "lw_clock w \<le> t" "t < d" "t < lw_clock w + granted ttl" for d t
      using leases_holdD [OF inv l(1-3)] renew_failed [OF assms(2) failed l(2) _ l(4)] by simp
    with other False show ?thesis
      by (auto simp: leases_hold_def clip_lease_def split: if_splits)
  qed
qed

lemma leases_hold_reachable:
  "lock_reachable acquire release renew granted ckey ctok w \<Longrightarrow> leases_hold w"
proof (induction rule: lock_reachable.induct)
  case (start now s)
  then show ?case by (simp add: leases_hold_def)
next
  case (tick w t)
  then show ?case by (fastforce simp: leases_hold_def)
next
  case (acquire w ttl l k tok s' ok ls')
  then show ?case using leases_hold_acquire by simp
next
  case (release w l k tok s' ok)
  then show ?case using leases_hold_release by simp
next
  case (renew w ttl l k tok s' ok ls')
  then show ?case using leases_hold_renew by simp
qed

lemma mutual_exclusion:
  assumes "lock_reachable acquire release renew granted ckey ctok w"
    and "(k, tok, d) \<in> set (lw_leases w)" "(k, tok', d') \<in> set (lw_leases w)"
    and "lw_clock w < d" "lw_clock w < d'"
  shows "tok = tok' \<and> owner (lw_store w) (lw_clock w) k = Some tok"
  using leases_holdD [OF leases_hold_reachable [OF assms(1)]] assms(2-5)
  by (metis option.inject order_refl)

end

end
