(* ===== verification/Redis_Locks.thy ===== *)
theory Redis_Locks
  imports Lock_Contract
begin

text \<open>
  The Redis locks of the repository: \<^verbatim>\<open>lock/lock.go\<close> (\<^verbatim>\<open>Locker\<close>), \<^verbatim>\<open>lock/distributed.go\<close> (owner
  handles with renewal) and the lock half of \<^verbatim>\<open>runtimeguard/redis.go\<close> (\<^verbatim>\<open>RedisLockManager\<close>), with
  \<^verbatim>\<open>idempotent/idempotent.go\<close>, which is built on the first. The Lua scripts in the sources are
  translated command by command. Random tokens are arguments: the bytes (or the UUID) the generator
  returned. All three are shown to satisfy the lock contract.
\<close>

section \<open>lock/lock.go\<close>

definition ErrLockNotAcquired :: go_error where
  "ErrLockNotAcquired = ErrorNew ''lock: not acquired''"

definition luaRelease :: "'s script" where
  "luaRelease r now keys args s =
     (let (s, v) = GET r now (keys ! 0) s
      in if v = Some (args ! 0) then let (s, n) = DEL r now (keys ! 0) s in (s, Inr (AInt64 n))
         else (s, Inr (AInt64 0)))"

text \<open>The unlock closure captures the key and the token.\<close>

datatype unlock = Unlock string string

definition Locker_TryLock ::
  "'s redis \<Rightarrow> link \<Rightarrow> go_time \<Rightarrow> string \<Rightarrow> string \<Rightarrow> duration \<Rightarrow> 's \<Rightarrow> 's \<times> (go_error + unlock)" where
  "Locker_TryLock r l now key token ttl s =
     (case client_call l (SETNX r now key token ttl) s of
        (s, Inl err) \<Rightarrow> (s, Inl err)
      | (s, Inr ok) \<Rightarrow> (s, if \<not> ok then Inl ErrLockNotAcquired else Inr (Unlock key token)))"

fun Locker_unlock :: "'s redis \<Rightarrow> link \<Rightarrow> go_time \<Rightarrow> unlock \<Rightarrow> 's \<Rightarrow> 's" where
  "Locker_unlock r l now (Unlock key token) s = fst (client_call l (luaRelease r now [key] [token]) s)"

text \<open>\<open>fn\<close> is the caller's function, acting on the server and on the rest of the world; \<open>now'\<close> is the
  time at which it has returned.\<close>

definition ExecuteWithLock ::
  "'s redis \<Rightarrow> link \<Rightarrow> go_time \<Rightarrow> link \<Rightarrow> go_time \<Rightarrow> string \<Rightarrow> string \<Rightarrow> duration \<Rightarrow>
   ('s \<times> 'w \<Rightarrow> ('s \<times> 'w) \<times> go_error option) \<Rightarrow> 's \<times> 'w \<Rightarrow> ('s \<times> 'w) \<times> go_error option" where
  "ExecuteWithLock r l now l' now' key token ttl fn = (\<lambda>(s, w).
     (case Locker_TryLock r l now key token ttl s of
        (s, Inl err) \<Rightarrow> ((s, w), Some err)
      | (s, Inr unlock) \<Rightarrow>
          (let ((s, w), err) = fn (s, w) in ((Locker_unlock r l' now' unlock s, w), err))))"

section \<open>idempotent/idempotent.go\<close>

definition ErrDuplicateRequest :: go_error where
  "ErrDuplicateRequest = ErrorNew ''idempotent: duplicate request''"

definition idempotent_Check ::
  "'s redis \<Rightarrow> link \<Rightarrow> go_time \<Rightarrow> string \<Rightarrow> string \<Rightarrow> duration \<Rightarrow> 's \<Rightarrow> 's \<times> (go_error + unlock)" where
  "idempotent_Check r l now key token ttl s =
     (case Locker_TryLock r l now (''idem:'' @ key) token ttl s of
        (s, Inl err) \<Rightarrow> (s, Inl (if errors_Is err ErrLockNotAcquired then ErrDuplicateRequest else err))
      | (s, Inr unlock) \<Rightarrow> (s, Inr unlock))"

datatype gate_reply = Passed | Conflict string | InternalError string

text \<open>\<open>handler\<close> is the rest of the chain (\<^verbatim>\<open>c.Next()\<close>); \<open>header\<close> the value of the \<^verbatim>\<open>Idempotency-Key\<close>
  header, empty when absent.\<close>

definition idempotent_Middleware ::
  "'s redis \<Rightarrow> link \<Rightarrow> go_time \<Rightarrow> link \<Rightarrow> go_time \<Rightarrow> string \<Rightarrow> duration \<Rightarrow> string \<Rightarrow>
   ('s \<times> 'w \<Rightarrow> 's \<times> 'w) \<Rightarrow> 's \<times> 'w \<Rightarrow> ('s \<times> 'w) \<times> gate_reply" where
  "idempotent_Middleware r l now l' now' token ttl header handler = (\<lambda>(s, w).
     (if header = [] then (handler (s, w), Passed)
      else case idempotent_Check r l now header token ttl s of
             (s, Inl err) \<Rightarrow>
               ((s, w), if errors_Is err ErrDuplicateRequest then Conflict ''duplicate request''
                        else InternalError ''idempotency check failed'')
           | (s, Inr release) \<Rightarrow>
               (let (s, w) = handler (s, w) in ((Locker_unlock r l' now' release s, w), Passed))))"

section \<open>lock/distributed.go\<close>

definition ErrLocked :: go_error where
  "ErrLocked = ErrorNew ''lock: already held by another owner''"

definition ErrNotOwner :: go_error where
  "ErrNotOwner = ErrorNew ''lock: not owner''"

definition ErrAlreadyReleased :: go_error where
  "ErrAlreadyReleased = ErrorNew ''lock: handle already released''"

definition ErrInvalidTTL :: go_error where
  "ErrInvalidTTL = ErrorNew ''lock: ttl must be positive''"

definition ErrEmptyKey :: go_error where
  "ErrEmptyKey = ErrorNew ''lock: key must not be empty''"

definition ErrNilClient :: go_error where
  "ErrNilClient = ErrorNew ''lock: redis client is nil''"

record distributed_config =
  keyPrefix :: string
  tokenBytes :: int

definition defaultDistributedConfig :: distributed_config where
  "defaultDistributedConfig = \<lparr>keyPrefix = ''synapse:lock:'', tokenBytes = 16\<rparr>"

definition WithKeyPrefix :: "string \<Rightarrow> distributed_config \<Rightarrow> distributed_config" where
  "WithKeyPrefix p c = c\<lparr>keyPrefix := p\<rparr>"

definition WithTokenBytes :: "int \<Rightarrow> distributed_config \<Rightarrow> distributed_config" where
  "WithTokenBytes n c = c\<lparr>tokenBytes := (if n < 8 then 8 else n)\<rparr>"

record 's distributed_locker =
  dl_client :: "'s redis option"
  dl_cfg :: distributed_config

definition NewDistributed ::
  "'s redis option \<Rightarrow> (distributed_config \<Rightarrow> distributed_config) list \<Rightarrow> 's distributed_locker" where
  "NewDistributed client opts =
     \<lparr>dl_client = client, dl_cfg = foldl (\<lambda>c opt. opt c) defaultDistributedConfig opts\<rparr>"

definition unlockScript :: "'s script" where
  "unlockScript r now keys args s =
     (let (s, v) = GET r now (keys ! 0) s
      in if v = Some (args ! 0) then let (s, n) = DEL r now (keys ! 0) s in (s, Inr (AInt64 n))
         else (s, Inr (AInt64 0)))"

definition renewScript :: "'s script" where
  "renewScript r now keys args s =
     (let (s, v) = GET r now (keys ! 0) s
      in if v = Some (args ! 0)
         then case ParseInt (args ! 1) of
                (ms, None) \<Rightarrow> let (s, n) = PEXPIRE r now (keys ! 0) ms s in (s, Inr (AInt64 n))
              | _ \<Rightarrow> (s, Inl lua_error)
         else (s, Inr (AInt64 0)))"

text \<open>\<^verbatim>\<open>Cmd.Int64\<close> on the reply of a script; both scripts reply with an integer.\<close>

definition reply_Int64 :: "go_error + go_any \<Rightarrow> go_error + int" where
  "reply_Int64 res =
     (case res of
        Inl err \<Rightarrow> Inl err
      | Inr (AInt64 n) \<Rightarrow> Inr n
      | Inr _ \<Rightarrow> Inl (ErrorNew ''redis: unexpected type for Int64''))"

text \<open>\<open>rand\<close>: what \<^verbatim>\<open>rand.Read\<close> did for a buffer of the requested size.\<close>

definition newOwnerToken :: "(int \<Rightarrow> go_error + string) \<Rightarrow> int \<Rightarrow> go_error + string" where
  "newOwnerToken rand n = (case rand n of Inl err \<Rightarrow> Inl err | Inr buf \<Rightarrow> Inr (EncodeToString buf))"

record distributed_handle =
  h_fullKey :: string
  h_key :: string
  h_token :: string
  h_released :: bool

definition distributed_Acquire ::
  "'s distributed_locker \<Rightarrow> (int \<Rightarrow> go_error + string) \<Rightarrow> link \<Rightarrow> go_time \<Rightarrow> string \<Rightarrow> duration \<Rightarrow> 's \<Rightarrow>
   's \<times> (go_error + distributed_handle)" where
  "distributed_Acquire loc rand l now key ttl s =
     (case dl_client loc of
        None \<Rightarrow> (s, Inl ErrNilClient)
      | Some r \<Rightarrow>
          if key = [] then (s, Inl ErrEmptyKey)
          else if ttl \<le> 0 then (s, Inl ErrInvalidTTL)
          else case newOwnerToken rand (tokenBytes (dl_cfg loc)) of
                 Inl err \<Rightarrow> (s, Inl (Errorf ''lock: generate token'' err))
               | Inr token \<Rightarrow>
                   (let fullKey = keyPrefix (dl_cfg loc) @ key
                    in case client_call l (SETNX r now fullKey token ttl) s of
                         (s, Inl err) \<Rightarrow> (s, Inl (Errorf ''lock: setnx'' err))
                       | (s, Inr ok) \<Rightarrow>
                           (s, if \<not> ok then Inl ErrLocked
                               else Inr \<lparr>h_fullKey = fullKey, h_key = key, h_token = token, h_released = False\<rparr>)))"

definition distributed_Release ::
  "'s redis option \<Rightarrow> link \<Rightarrow> go_time \<Rightarrow> distributed_handle \<Rightarrow> 's \<Rightarrow> 's \<times> distributed_handle \<times> go_error option" where
  "distributed_Release client l now h s =
     (case client of
        None \<Rightarrow> (s, h, Some ErrNilClient)
      | Some r \<Rightarrow>
          if h_released h then (s, h, Some ErrAlreadyReleased)
          else let h = h\<lparr>h_released := True\<rparr>;
                   (s, res) = client_call l (\<lambda>s. map_prod id reply_Int64
                                (unlockScript r now [h_fullKey h] [h_token h] s)) s
               in case res of
                    Inl err \<Rightarrow> (s, h\<lparr>h_released := False\<rparr>, Some (Errorf ''lock: unlock script'' err))
                  | Inr n \<Rightarrow> (s, h, if n \<noteq> 1 then Some ErrNotOwner else None))"

definition distributed_Renew ::
  "'s redis option \<Rightarrow> link \<Rightarrow> go_time \<Rightarrow> distributed_handle \<Rightarrow> duration \<Rightarrow> 's \<Rightarrow> 's \<times> go_error option" where
  "distributed_Renew client l now h ttl s =
     (case client of
        None \<Rightarrow> (s, Some ErrNilClient)
      | Some r \<Rightarrow>
          if ttl \<le> 0 then (s, Some ErrInvalidTTL)
          else if h_released h then (s, Some ErrAlreadyReleased)
          else let ms = Milliseconds ttl;
                   ms = (if ms \<le> 0 then 1 else ms);
                   (s, res) = client_call l (\<lambda>s. map_prod id reply_Int64
                                (renewScript r now [h_fullKey h] [h_token h, FormatInt ms] s)) s
               in case res of
                    Inl err \<Rightarrow> (s, Some (Errorf ''lock: renew script'' err))
                  | Inr n \<Rightarrow> (s, if n \<noteq> 1 then Some ErrNotOwner else None))"

section \<open>runtimeguard/redis.go: the store surface and the lock manager\<close>

definition redisKeyPrefix :: "string \<Rightarrow> string" where
  "redisKeyPrefix p =
     (let p = TrimSpace p
      in if p = [] then ''runtimeguard:'' else if HasSuffix p '':'' then p else p @ '':'')"

definition redisValueInt :: "go_any \<Rightarrow> go_error + int" where
  "redisValueInt value =
     (case value of
        AInt64 v \<Rightarrow> Inr v
      | AInt v \<Rightarrow> Inr v
      | AString v \<Rightarrow> (case ParseInt v of (n, None) \<Rightarrow> Inr n | (_, Some _) \<Rightarrow> Inl (ErrorNew ''strconv.ParseInt''))
      | ABytes v \<Rightarrow> (case ParseInt v of (n, None) \<Rightarrow> Inr n | (_, Some _) \<Rightarrow> Inl (ErrorNew ''strconv.ParseInt''))
      | _ \<Rightarrow> Inl (ErrorNew ''runtimeguard: redis response is not an integer''))"

text \<open>\<^verbatim>\<open>RedisRuntimeStore\<close>: the commands the limiter and the lock manager need.\<close>

record 's runtime_store =
  EvalIntSlice :: "'s script \<Rightarrow> string list \<Rightarrow> string list \<Rightarrow> 's \<Rightarrow> 's \<times> (go_error + int list)"
  EvalInt :: "'s script \<Rightarrow> string list \<Rightarrow> string list \<Rightarrow> 's \<Rightarrow> 's \<times> (go_error + int)"
  store_SetNX :: "string \<Rightarrow> string \<Rightarrow> duration \<Rightarrow> 's \<Rightarrow> 's \<times> (go_error + bool)"

definition nil_client :: go_error where
  "nil_client = ErrorNew ''runtimeguard: redis client is nil''"

primrec redis_ints :: "go_any list \<Rightarrow> go_error + int list" where
  "redis_ints [] = Inr []"
| "redis_ints (item # items) =
     (case redisValueInt item of
        Inl err \<Rightarrow> Inl err
      | Inr n \<Rightarrow> (case redis_ints items of Inl err \<Rightarrow> Inl err | Inr ns \<Rightarrow> Inr (n # ns)))"

definition GoRedis_EvalIntSlice ::
  "'s redis option \<Rightarrow> link \<Rightarrow> go_time \<Rightarrow> 's script \<Rightarrow> string list \<Rightarrow> string list \<Rightarrow> 's \<Rightarrow> 's \<times> (go_error + int list)" where
  "GoRedis_EvalIntSlice client l now script keys args s =
     (case client of
        None \<Rightarrow> (s, Inl nil_client)
      | Some r \<Rightarrow>
          (case client_call l (script r now keys args) s of
             (s, Inl err) \<Rightarrow> (s, Inl err)
           | (s, Inr (AArray items)) \<Rightarrow> (s, redis_ints items)
           | (s, Inr _) \<Rightarrow> (s, Inl (ErrorNew ''runtimeguard: redis response is not an array''))))"

definition GoRedis_EvalInt ::
  "'s redis option \<Rightarrow> link \<Rightarrow> go_time \<Rightarrow> 's script \<Rightarrow> string list \<Rightarrow> string list \<Rightarrow> 's \<Rightarrow> 's \<times> (go_error + int)" where
  "GoRedis_EvalInt client l now script keys args s =
     (case client of
        None \<Rightarrow> (s, Inl nil_client)
      | Some r \<Rightarrow>
          (case client_call l (script r now keys args) s of
             (s, Inl err) \<Rightarrow> (s, Inl err)
           | (s, Inr v) \<Rightarrow> (s, redisValueInt v)))"

definition GoRedis_SetNX ::
  "'s redis option \<Rightarrow> link \<Rightarrow> go_time \<Rightarrow> string \<Rightarrow> string \<Rightarrow> duration \<Rightarrow> 's \<Rightarrow> 's \<times> (go_error + bool)" where
  "GoRedis_SetNX client l now key value ttl s =
     (case client of
        None \<Rightarrow> (s, Inl nil_client)
      | Some r \<Rightarrow> client_call l (SETNX r now key value ttl) s)"

definition GoRedisStore :: "'s redis option \<Rightarrow> link \<Rightarrow> go_time \<Rightarrow> 's runtime_store" where
  "GoRedisStore client l now =
     \<lparr>EvalIntSlice = GoRedis_EvalIntSlice client l now, EvalInt = GoRedis_EvalInt client l now,
      store_SetNX = GoRedis_SetNX client l now\<rparr>"

definition redisLockReleaseScript :: "'s script" where
  "redisLockReleaseScript r now keys args s =
     (let (s, v) = GET r now (keys ! 0) s
      in if v = Some (args ! 0) then let (s, n) = DEL r now (keys ! 0) s in (s, Inr (AInt64 n))
         else (s, Inr (AInt64 0)))"

definition newLockToken :: "go_error + string \<Rightarrow> go_error + string" where
  "newLockToken rand = (case rand of Inl err \<Rightarrow> Inl err | Inr buf \<Rightarrow> Inr (EncodeToString buf))"

record redis_lock =
  lock_Key :: string
  lock_Owner :: string
  lock_Token :: string

definition lockKey :: "string \<Rightarrow> string \<Rightarrow> string" where
  "lockKey p key = p @ ''lock:'' @ key"

definition lock_store_nil :: go_error where
  "lock_store_nil = ErrorNew ''runtimeguard: redis lock store is nil''"

text \<open>\<open>Inr None\<close> is the return \<^verbatim>\<open>(RedisLock{}, false, nil)\<close>.\<close>

definition RedisLockManager_Acquire ::
  "'s runtime_store option \<Rightarrow> string \<Rightarrow> go_error + string \<Rightarrow> string \<Rightarrow> string \<Rightarrow> duration \<Rightarrow> 's \<Rightarrow>
   's \<times> (go_error + redis_lock option)" where
  "RedisLockManager_Acquire store p rand key owner ttl s =
     (let key = TrimSpace key; owner = TrimSpace owner
      in if key = [] \<or> owner = [] \<or> ttl \<le> 0 then (s, Inr None)
         else case store of
                None \<Rightarrow> (s, Inl lock_store_nil)
              | Some st \<Rightarrow>
                  (case newLockToken rand of
                     Inl err \<Rightarrow> (s, Inl err)
                   | Inr token \<Rightarrow>
                       (case store_SetNX st (lockKey p key) token ttl s of
                          (s, Inl err) \<Rightarrow> (s, Inl err)
                        | (s, Inr acquired) \<Rightarrow>
                            (s, Inr (if \<not> acquired then None
                                     else Some \<lparr>lock_Key = key, lock_Owner = owner, lock_Token = token\<rparr>)))))"

definition RedisLockManager_Release ::
  "'s runtime_store option \<Rightarrow> string \<Rightarrow> string \<Rightarrow> string \<Rightarrow> 's \<Rightarrow> 's \<times> (go_error + bool)" where
  "RedisLockManager_Release store p key token s =
     (let key = TrimSpace key; token = TrimSpace token
      in if key = [] \<or> token = [] then (s, Inr False)
         else case store of
                None \<Rightarrow> (s, Inl lock_store_nil)
              | Some st \<Rightarrow>
                  (case EvalInt st redisLockReleaseScript [lockKey p key] [token] s of
                     (s, Inl err) \<Rightarrow> (s, Inl err)
                   | (s, Inr deleted) \<Rightarrow> (s, Inr (deleted = 1))))"

section \<open>Set-if-absent and compare-and-delete\<close>

text \<open>The two primitives behind all three implementations, and what they do to the keys a client
  sees.\<close>

definition redis_owner :: "('s \<Rightarrow> go_time \<Rightarrow> string \<Rightarrow> redis_entry option) \<Rightarrow> 's \<Rightarrow> go_time \<Rightarrow> string \<Rightarrow> string option" where
  "redis_owner view s t k = map_option rvalue (view s t k)"

lemma scripts_equal: "luaRelease = unlockScript" "redisLockReleaseScript = unlockScript"
  by (simp_all add: fun_eq_iff luaRelease_def unlockScript_def redisLockReleaseScript_def)

context redis_server
begin

lemma setnx_granted:
  assumes "client_call l (SETNX r now k v ttl) s = (s', Inr True)" and "0 < ttl"
  shows "view s now k = None \<and>
    view s' now = (view s now)(k \<mapsto> \<lparr>rvalue = v, deadline = Some (now + expiry_of ttl)\<rparr>)"
  using assms SETNX_free [of ttl s now k v] SETNX_taken [of ttl s now k v]
  by (cases l; cases "view s now k") (auto simp: client_call_def)

lemma setnx_taken:
  assumes "client_call l (SETNX r now k v ttl) s = (s', res)" and "0 < ttl" and "view s now k \<noteq> None"
  shows "view s' now = view s now \<and> res \<noteq> Inr True"
  using assms SETNX_taken [of ttl s now k v] by (cases l) (auto simp: client_call_def)

lemma setnx_other:
  assumes "client_call l (SETNX r now k v ttl) s = (s', res)" and "0 < ttl" and "k' \<noteq> k"
  shows "view s' now k' = view s now k'"
  using assms SETNX_free [of ttl s now k v] SETNX_taken [of ttl s now k v]
  by (cases l; cases "view s now k") (auto simp: client_call_def)

lemma unlockScript_effect:
  "snd (unlockScript r now [k] [tok] s) = Inr (AInt64 (if redis_owner view s now k = Some tok then 1 else 0))"
  "view (fst (unlockScript r now [k] [tok] s)) now =
     (if redis_owner view s now k = Some tok then (view s now)(k := None) else view s now)"
  by (auto simp: unlockScript_def split_beta redis_laws redis_owner_def)

lemma renewScript_effect:
  assumes "0 < ms" and "in_int64 ms"
  shows "snd (renewScript r now [k] [tok, FormatInt ms] s) =
           Inr (AInt64 (if redis_owner view s now k = Some tok then 1 else 0))"
    and "view (fst (renewScript r now [k] [tok, FormatInt ms] s)) now =
           (if redis_owner view s now k = Some tok
            then (view s now)(k \<mapsto> \<lparr>rvalue = tok, deadline = Some (now + ms * millisecond)\<rparr>) else view s now)"
  using assms
  by (auto simp: renewScript_def split_beta redis_laws redis_owner_def ParseInt_FormatInt intro: redis_entry.equality)

lemma owner_earlier: "redis_owner view s t k = Some tok \<Longrightarrow> now \<le> t \<Longrightarrow> redis_owner view s now k = Some tok"
  unfolding redis_owner_def map_option_eq_Some by (metis view_back)

lemma owner_same: "view s' now k = view s now k \<Longrightarrow> now \<le> t \<Longrightarrow> redis_owner view s' t k = redis_owner view s t k"
  unfolding redis_owner_def using view_same_later [of s' now k s t] by (rule arg_cong)

lemma owner_until:
  "view s now k = Some \<lparr>rvalue = tok, deadline = Some d\<rparr> \<Longrightarrow> now \<le> t \<Longrightarrow>
   redis_owner view s t k = (if t < d then Some tok else None)"
  unfolding redis_owner_def using view_later [of now t s k] by (simp add: live_def)

end

section \<open>The implementations satisfy the lock contract\<close>

text \<open>The operations of each implementation in the shape of the contract: a live client, the random
  bytes as the token, success as a truth value.\<close>

definition locker_acquire where
  "locker_acquire r l now k tok ttl s = map_prod id is_ok (Locker_TryLock r l now k tok ttl s)"

definition locker_release where
  "locker_release r l now k tok s = (Locker_unlock r l now (Unlock k tok) s, True)"

definition dist_acquire where
  "dist_acquire r c l now k tok ttl s =
     map_prod id is_ok (distributed_Acquire \<lparr>dl_client = Some r, dl_cfg = c\<rparr> (\<lambda>_. Inr tok) l now k ttl s)"

definition dist_handle :: "distributed_config \<Rightarrow> string \<Rightarrow> string \<Rightarrow> distributed_handle" where
  "dist_handle c k tok =
     \<lparr>h_fullKey = keyPrefix c @ k, h_key = k, h_token = EncodeToString tok, h_released = False\<rparr>"

definition dist_release where
  "dist_release r c l now k tok s =
     (let (s, h, err) = distributed_Release (Some r) l now (dist_handle c k tok) s in (s, err = None))"

definition dist_renew where
  "dist_renew r c l now k tok ttl s =
     map_prod id (\<lambda>err. err = None) (distributed_Renew (Some r) l now (dist_handle c k tok) ttl s)"

definition manager_acquire where
  "manager_acquire r p who l now k tok ttl s =
     (case RedisLockManager_Acquire (Some (GoRedisStore (Some r) l now)) p (Inr tok) k who ttl s of
        (s, Inr (Some _)) \<Rightarrow> (s, True) | (s, _) \<Rightarrow> (s, False))"

definition manager_release where
  "manager_release r p l now k tok s =
     map_prod id (\<lambda>res. res = Inr True)
       (RedisLockManager_Release (Some (GoRedisStore (Some r) l now)) p k (EncodeToString tok) s)"

definition setnx_ok where
  "setnx_ok r l now k tok ttl s = map_prod id (\<lambda>res. res = Inr True) (client_call l (SETNX r now k tok ttl) s)"

lemma TrimSpace_hex [simp]: "TrimSpace (EncodeToString tok) = EncodeToString tok"
proof (cases "EncodeToString tok = []")
  case False
  then have "hd (EncodeToString tok) \<in> set (EncodeToString tok)" and "last (EncodeToString tok) \<in> set (EncodeToString tok)"
    by simp_all
  with EncodeToString_graphic [of tok] False show ?thesis
    by (intro TrimSpace_graphic) (auto simp: list_all_iff)
qed simp

lemma locker_acquire_eq: "locker_acquire r l now k tok ttl s = setnx_ok r l now k tok ttl s"
  by (auto simp: locker_acquire_def setnx_ok_def Locker_TryLock_def split: prod.splits sum.splits)

lemma dist_acquire_eq:
  "valid_ttl ttl \<Longrightarrow> dist_acquire r c l now k tok ttl s =
     (if k = [] then (s, False) else setnx_ok r l now (keyPrefix c @ k) (EncodeToString tok) ttl s)"
  by (auto simp: dist_acquire_def setnx_ok_def distributed_Acquire_def newOwnerToken_def Let_def valid_ttl_def
      split: prod.splits sum.splits)

lemma manager_acquire_eq:
  "valid_ttl ttl \<Longrightarrow> manager_acquire r p who l now k tok ttl s =
     (if TrimSpace k = [] \<or> TrimSpace who = [] then (s, False)
      else setnx_ok r l now (lockKey p (TrimSpace k)) (EncodeToString tok) ttl s)"
  by (auto simp: manager_acquire_def setnx_ok_def RedisLockManager_Acquire_def newLockToken_def Let_def
      GoRedisStore_def GoRedis_SetNX_def valid_ttl_def split: prod.splits sum.splits)

lemma client_call_fst: "fst (client_call l cmd s) \<in> {s, fst (cmd s)}"
  by (cases l) (auto simp: client_call_def)

lemma locker_release_store:
  "fst (locker_release r l now k tok s) \<in> {s, fst (unlockScript r now [k] [tok] s)}"
  unfolding locker_release_def Locker_unlock.simps scripts_equal fst_conv by (rule client_call_fst)

lemma dist_release_store:
  "fst (dist_release r c l now k tok s) \<in> {s, fst (unlockScript r now [keyPrefix c @ k] [EncodeToString tok] s)}"
proof -
  let ?cmd = "\<lambda>s. map_prod id reply_Int64 (unlockScript r now [keyPrefix c @ k] [EncodeToString tok] s)"
  have "fst (dist_release r c l now k tok s) = fst (client_call l ?cmd s)"
    by (simp add: dist_release_def distributed_Release_def dist_handle_def Let_def split_beta split: sum.splits)
  then show ?thesis using client_call_fst [of l ?cmd s] by simp
qed

lemma manager_release_store:
  "fst (manager_release r p l now k tok s) \<in>
     {s, fst (unlockScript r now [lockKey p (TrimSpace k)] [EncodeToString tok] s)}"
  by (cases l) (auto simp: manager_release_def RedisLockManager_Release_def GoRedisStore_def GoRedis_EvalInt_def
      Let_def client_call_def scripts_equal split: prod.splits sum.splits)

lemma expiry_of_Milliseconds:
  assumes "valid_ttl ttl"
  shows "(if Milliseconds ttl \<le> 0 then 1 else Milliseconds ttl) * millisecond = expiry_of ttl"
    and "0 < (if Milliseconds ttl \<le> 0 then 1 else Milliseconds ttl)"
    and "in_int64 (if Milliseconds ttl \<le> 0 then 1 else Milliseconds ttl)"
  using assms by (auto simp: valid_ttl_def Milliseconds_def go_div_nonneg expiry_of_def in_int64_def max_def)

lemma dist_renew_eq:
  assumes "valid_ttl ttl"
  shows "dist_renew r c l now k tok ttl s =
     map_prod id (\<lambda>res. res = Inr 1) (client_call l (\<lambda>s. map_prod id reply_Int64 (renewScript r now
       [keyPrefix c @ k] [EncodeToString tok, FormatInt (if Milliseconds ttl \<le> 0 then 1 else Milliseconds ttl)] s)) s)"
  using assms
  by (auto simp: dist_renew_def distributed_Renew_def dist_handle_def Let_def valid_ttl_def split: prod.splits sum.splits)

context redis_server
begin

lemma setnx_ok_contract:
  assumes "valid_ttl ttl" and "setnx_ok r l now k tok ttl s = (s', ok)"
  shows "ok \<Longrightarrow> redis_owner view s now k = None"
    and "ok \<Longrightarrow> now \<le> t \<Longrightarrow> redis_owner view s' t k = (if t < now + expiry_of ttl then Some tok else None)"
    and "\<not> ok \<Longrightarrow> redis_owner view s now k \<noteq> None \<Longrightarrow> now \<le> t \<Longrightarrow> redis_owner view s' t k = redis_owner view s t k"
    and "k' \<noteq> k \<Longrightarrow> now \<le> t \<Longrightarrow> redis_owner view s' t k' = redis_owner view s t k'"
proof -
  obtain res where call: "client_call l (SETNX r now k tok ttl) s = (s', res)" and ok: "ok \<longleftrightarrow> res = Inr True"
    using assms(2) by (cases "client_call l (SETNX r now k tok ttl) s") (auto simp: setnx_ok_def)
  have pos: "0 < ttl" using assms(1) by (simp add: valid_ttl_def)
  {
    assume ok with ok call have "client_call l (SETNX r now k tok ttl) s = (s', Inr True)" by simp
    from setnx_granted [OF this pos] have free: "view s now k = None"
      and "view s' now k = Some \<lparr>rvalue = tok, deadline = Some (now + expiry_of ttl)\<rparr>" by auto
    from free show "redis_owner view s now k = None" by (simp add: redis_owner_def)
    from owner_until [OF \<open>view s' now k = _\<close>]
    show "now \<le> t \<Longrightarrow> redis_owner view s' t k = (if t < now + expiry_of ttl then Some tok else None)" .
  }
  show "redis_owner view s' t k = redis_owner view s t k"
    if "\<not> ok" "redis_owner view s now k \<noteq> None" "now \<le> t"
  proof (rule owner_same [OF _ that(3)])
    show "view s' now k = view s now k"
      using setnx_taken [OF call pos] that(2) by (simp add: redis_owner_def)
  qed
  show "redis_owner view s' t k' = redis_owner view s t k'" if "k' \<noteq> k" "now \<le> t"
    by (rule owner_same [OF setnx_other [OF call pos that(1)] that(2)])
qed

lemma unlock_contract:
  assumes "s' \<in> {s, fst (unlockScript r now [k] [tok] s)}" and "\<not> (k' = k \<and> redis_owner view s now k' = Some tok)"
    and "now \<le> t"
  shows "redis_owner view s' t k' = redis_owner view s t k'"
proof (rule owner_same [OF _ assms(3)])
  show "view s' now k' = view s now k'"
    using assms(1,2) unlockScript_effect(2) [of now k tok s] by (auto split: if_splits)
qed

lemma renew_contract:
  assumes ttl: "valid_ttl ttl" and ren: "dist_renew r c l now k tok ttl s = (s', ok)"
  defines "K \<equiv> keyPrefix c @ k" and "T \<equiv> EncodeToString tok"
  shows "ok \<Longrightarrow> redis_owner view s now K = Some T"
    and "ok \<Longrightarrow> now \<le> t \<Longrightarrow> t < now + expiry_of ttl \<Longrightarrow> redis_owner view s' t K = Some T"
    and "now \<le> t \<Longrightarrow> redis_owner view s t K = Some T \<Longrightarrow> t < now + expiry_of ttl \<Longrightarrow> redis_owner view s' t K = Some T"
    and "\<not> (k' = K \<and> redis_owner view s now k' = Some T) \<Longrightarrow> now \<le> t \<Longrightarrow> redis_owner view s' t k' = redis_owner view s t k'"
proof -
  define ms where "ms = (if Milliseconds ttl \<le> 0 then 1 else Milliseconds ttl)"
  let ?run = "renewScript r now [K] [T, FormatInt ms] s"
  let ?cmd = "\<lambda>s. map_prod id reply_Int64 (renewScript r now [K] [T, FormatInt ms] s)"
  note ms = expiry_of_Milliseconds [OF ttl, folded ms_def]
  note eff = renewScript_effect [OF ms(2,3), where k = K and tok = T, unfolded ms(1)]
  have call: "s' = fst (client_call l ?cmd s)" "ok \<longleftrightarrow> snd (client_call l ?cmd s) = Inr 1"
    using ren unfolding dist_renew_eq [OF ttl] K_def T_def ms_def [symmetric] map_prod_id_eq_iff by blast+
  have store: "s' = s \<or> s' = fst ?run" using client_call_fst [of l ?cmd s] call(1) by auto
  have res: "s' = fst ?run \<and> redis_owner view s now K = Some T" if ok
    using that call eff(1) [of now s] by (cases l) (auto simp: client_call_def reply_Int64_def split: if_splits)
  have after: "redis_owner view (fst ?run) t K = Some T"
    if "redis_owner view s now K = Some T" "now \<le> t" "t < now + expiry_of ttl" for t
  proof -
    have "view (fst ?run) now K = Some \<lparr>rvalue = T, deadline = Some (now + expiry_of ttl)\<rparr>"
      using that(1) eff(2) [of now s] by simp
    from owner_until [OF this that(2)] that(3) show ?thesis by simp
  qed
  show "ok \<Longrightarrow> redis_owner view s now K = Some T" using res by simp
  show "redis_owner view s' t K = Some T" if "ok" "now \<le> t" "t < now + expiry_of ttl"
    using res [OF that(1)] after that(2,3) by simp
  show "redis_owner view s' t K = Some T"
    if "now \<le> t" "redis_owner view s t K = Some T" "t < now + expiry_of ttl"
    using store after owner_earlier [OF that(2,1)] that by auto
  show "redis_owner view s' t k' = redis_owner view s t k'"
    if "\<not> (k' = K \<and> redis_owner view s now k' = Some T)" "now \<le> t"
  proof (rule owner_same [OF _ that(2)])
    show "view s' now k' = view s now k'" using store that(1) eff(2) [of now s] by (auto split: if_splits)
  qed
qed

end

sublocale redis_server < locker: token_lock "locker_acquire r" "locker_release r" no_renew expiry_of id id "redis_owner view"
proof (unfold_locales, goal_cases)
  case (1 s t k tok now)
  then show ?case by (rule owner_earlier)
next
  case (2 ttl l now k tok s s')
  note c = setnx_ok_contract [OF 2(1) 2(2) [unfolded locker_acquire_eq]]
  show ?case using c(1,2) by simp
next
  case (3 ttl l now k tok s s' t)
  from setnx_ok_contract(3) [OF 3(1) 3(2) [unfolded locker_acquire_eq] _ _ 3(4)] 3(3) show ?case by simp
next
  case (4 ttl l now k tok s s' ok k' t)
  from setnx_ok_contract(4) [OF 4(1) 4(2) [unfolded locker_acquire_eq] _ 4(4)] 4(3) show ?case by simp
next
  case (5 l now k tok s s' ok k' t)
  have "s' \<in> {s, fst (unlockScript r now [k] [tok] s)}"
    using locker_release_store [of r l now k tok s] 5(1) by simp
  from unlock_contract [OF this _ 5(3)] 5(2) show ?case by simp
qed (simp_all add: no_renew_def)

sublocale redis_server < dist: token_lock "dist_acquire r c" "dist_release r c" "dist_renew r c" expiry_of
    "\<lambda>k. keyPrefix c @ k" EncodeToString "redis_owner view" for c
proof (unfold_locales, goal_cases)
  case (1 s t k tok now)
  then show ?case by (rule owner_earlier)
next
  case (2 ttl l now k tok s s')
  then have "setnx_ok r l now (keyPrefix c @ k) (EncodeToString tok) ttl s = (s', True)"
    by (auto simp: dist_acquire_eq split: if_splits)
  from setnx_ok_contract(1,2) [OF 2(1) this] show ?case by simp
next
  case (3 ttl l now k tok s s' t)
  show ?case
  proof (cases "k = []")
    case False
    with 3(1,2) have "setnx_ok r l now (keyPrefix c @ k) (EncodeToString tok) ttl s = (s', False)"
      by (simp add: dist_acquire_eq)
    from setnx_ok_contract(3) [OF 3(1) this _ 3(3,4)] show ?thesis by simp
  qed (use 3(1,2) in \<open>simp add: dist_acquire_eq\<close>)
next
  case (4 ttl l now k tok s s' ok k' t)
  show ?case
  proof (cases "k = []")
    case False
    with 4(1,2) have "setnx_ok r l now (keyPrefix c @ k) (EncodeToString tok) ttl s = (s', ok)"
      by (simp add: dist_acquire_eq)
    from setnx_ok_contract(4) [OF 4(1) this 4(3,4)] show ?thesis .
  qed (use 4(1,2) in \<open>simp add: dist_acquire_eq\<close>)
next
  case (5 l now k tok s s' ok k' t)
  have "s' \<in> {s, fst (unlockScript r now [keyPrefix c @ k] [EncodeToString tok] s)}"
    using dist_release_store [of r c l now k tok s] 5(1) by simp
  from unlock_contract [OF this 5(2,3)] show ?case .
next
  case (6 ttl l now k tok s s')
  from renew_contract(1,2) [OF 6] show ?case by simp
next
  case (7 ttl l now k tok s s' t)
  from renew_contract(3) [OF 7(1,2) 7(3-5)] show ?case .
next
  case (8 ttl l now k tok s s' ok k' t)
  from renew_contract(4) [OF 8(1,2) 8(3,4)] show ?case .
qed

sublocale redis_server < manager: token_lock "manager_acquire r p who" "manager_release r p" no_renew expiry_of
    "\<lambda>k. lockKey p (TrimSpace k)" EncodeToString "redis_owner view" for p who
proof (unfold_locales, goal_cases)
  case (1 s t k tok now)
  then show ?case by (rule owner_earlier)
next
  case (2 ttl l now k tok s s')
  then have "setnx_ok r l now (lockKey p (TrimSpace k)) (EncodeToString tok) ttl s = (s', True)"
    by (auto simp: manager_acquire_eq split: if_splits)
  from setnx_ok_contract(1,2) [OF 2(1) this] show ?case by simp
next
  case (3 ttl l now k tok s s' t)
  show ?case
  proof (cases "TrimSpace k = [] \<or> TrimSpace who = []")
    case False
    with 3(1,2) have "setnx_ok r l now (lockKey p (TrimSpace k)) (EncodeToString tok) ttl s = (s', False)"
      by (simp add: manager_acquire_eq)
    from setnx_ok_contract(3) [OF 3(1) this _ 3(3,4)] show ?thesis by simp
  qed (use 3(1,2) in \<open>simp add: manager_acquire_eq\<close>)
next
  case (4 ttl l now k tok s s' ok k' t)
  show ?case
  proof (cases "TrimSpace k = [] \<or> TrimSpace who = []")
    case False
    with 4(1,2) have "setnx_ok r l now (lockKey p (TrimSpace k)) (EncodeToString tok) ttl s = (s', ok)"
      by (simp add: manager_acquire_eq)
    from setnx_ok_contract(4) [OF 4(1) this 4(3,4)] show ?thesis .
  qed (use 4(1,2) in \<open>simp add: manager_acquire_eq\<close>)
next
  case (5 l now k tok s s' ok k' t)
  have "s' \<in> {s, fst (unlockScript r now [lockKey p (TrimSpace k)] [EncodeToString tok] s)}"
    using manager_release_store [of r p l now k tok s] 5(1) by simp
  from unlock_contract [OF this 5(2,3)] show ?case .
qed (simp_all add: no_renew_def)

section \<open>Single operations\<close>

context redis_server
begin

lemmas dist_exclusion = dist.mutual_exclusion
lemmas locker_exclusion = locker.mutual_exclusion
lemmas manager_exclusion = manager.mutual_exclusion

lemma TryLock_taken:
  assumes "valid_ttl ttl" and "redis_owner view s now key \<noteq> None"
  shows "\<exists>s' err. Locker_TryLock r l now key tok ttl s = (s', Inl err) \<and> view s' now = view s now \<and>
    (l = Delivered \<longrightarrow> err = ErrLockNotAcquired)"
proof -
  have pos: "0 < ttl" using assms(1) by (simp add: valid_ttl_def)
  have taken: "view s now key \<noteq> None" using assms(2) by (simp add: redis_owner_def)
  obtain s' res where call: "client_call l (SETNX r now key tok ttl) s = (s', res)" by fastforce
  from setnx_taken [OF call pos taken] have v: "view s' now = view s now" and no: "res \<noteq> Inr True" by auto
  have "res = Inr False" if "l = Delivered"
    using that call SETNX_taken [OF pos taken, of tok] by (simp add: client_call_def)
  with call v no show ?thesis by (cases res) (auto simp: Locker_TryLock_def)
qed

lemma TryLock_free:
  assumes "valid_ttl ttl" and "redis_owner view s now key = None"
  shows "\<exists>s'. Locker_TryLock r Delivered now key tok ttl s = (s', Inr (Unlock key tok)) \<and>
    view s' now = (view s now)(key \<mapsto> \<lparr>rvalue = tok, deadline = Some (now + expiry_of ttl)\<rparr>)"
proof -
  have "0 < ttl" "view s now key = None" using assms by (simp_all add: valid_ttl_def redis_owner_def)
  from SETNX_free [OF this, of tok] show ?thesis
    by (cases "SETNX r now key tok ttl s") (simp add: Locker_TryLock_def client_call_def)
qed

lemma unlock_owner:
  "redis_owner view (Locker_unlock r Delivered now (Unlock key tok) s) now k =
     (if k = key \<and> redis_owner view s now key = Some tok then None else redis_owner view s now k)"
  using unlockScript_effect(2) [of now key tok s]
  by (auto simp: client_call_def scripts_equal redis_owner_def)

lemma distributed_Acquire_free:
  assumes "valid_ttl ttl" and "redis_owner view s now (keyPrefix c @ k) = None" and "k \<noteq> []"
  shows "\<exists>s'. distributed_Acquire \<lparr>dl_client = Some r, dl_cfg = c\<rparr> (\<lambda>_. Inr tok) Delivered now k ttl s =
      (s', Inr (dist_handle c k tok)) \<and>
    view s' now = (view s now)(keyPrefix c @ k \<mapsto>
      \<lparr>rvalue = EncodeToString tok, deadline = Some (now + expiry_of ttl)\<rparr>)"
proof -
  have pos: "0 < ttl" "view s now (keyPrefix c @ k) = None" using assms by (simp_all add: valid_ttl_def redis_owner_def)
  from SETNX_free [OF this, of "EncodeToString tok"] assms(3) pos(1) show ?thesis
    by (cases "SETNX r now (keyPrefix c @ k) (EncodeToString tok) ttl s")
       (simp add: distributed_Acquire_def client_call_def newOwnerToken_def dist_handle_def Let_def)
qed

lemma distributed_Release_owner:
  assumes "\<not> h_released h"
  shows "\<exists>s'. distributed_Release (Some r) Delivered now h s =
      (s', h\<lparr>h_released := True\<rparr>, if redis_owner view s now (h_fullKey h) = Some (h_token h) then None else Some ErrNotOwner) \<and>
    view s' now = (if redis_owner view s now (h_fullKey h) = Some (h_token h)
                   then (view s now)(h_fullKey h := None) else view s now)"
  using assms unlockScript_effect [of now "h_fullKey h" "h_token h" s]
  by (cases "unlockScript r now [h_fullKey h] [h_token h] s")
     (simp add: distributed_Release_def client_call_def reply_Int64_def Let_def)

end

section \<open>Properties\<close>

text \<open>C1: Whatever callers acquire, renew and release through the distributed locker, in any order,
  with requests and replies lost at will and time passing, two leases on the same key that are both
  still running carry the same owner token, and the server names that token as the owner. The server
  is only assumed to behave as Redis documents its commands.\<close>

theorem distributed_mutual_exclusion:
  assumes "redis_server r view"
    and "lock_reachable (dist_acquire r c) (dist_release r c) (dist_renew r c) expiry_of
           (\<lambda>k. keyPrefix c @ k) EncodeToString w"
    and "(k, tok, d) \<in> set (lw_leases w)" and "(k, tok', d') \<in> set (lw_leases w)"
    and "lw_clock w < d" and "lw_clock w < d'"
  shows "tok = tok' \<and> redis_owner view (lw_store w) (lw_clock w) k = Some tok"
  using redis_server.dist_exclusion [OF assms(1)] assms(2-6) by blast

theorem distributed_mutual_exclusion_witness:
  "redis_owner mini_view (fst (dist_acquire mini_redis defaultDistributedConfig Delivered 0 ''job'' ''A'' second Map.empty)) 0
     ''synapse:lock:job'' = Some (EncodeToString ''A'')"
proof -
  let ?c = defaultDistributedConfig
  let ?run = "dist_acquire mini_redis ?c Delivered 0 ''job'' ''A'' second Map.empty"
  let ?l = "(keyPrefix ?c @ ''job'', EncodeToString ''A'', expiry_of second)"
  have ttl: "valid_ttl second" by (simp add: valid_ttl_def in_int64_def)
  have ok: "?run = (fst ?run, True)"
    by (simp add: prod_eq_iff) code_simp
  have "lock_reachable (dist_acquire mini_redis ?c) (dist_release mini_redis ?c) (dist_renew mini_redis ?c) expiry_of
      (\<lambda>k. keyPrefix ?c @ k) EncodeToString \<lparr>lw_clock = 0, lw_store = fst ?run, lw_leases = [?l]\<rparr>"
    using lock_reachable_first [where acquire = "dist_acquire mini_redis ?c", OF ttl ok] by (simp only: add_0 id_apply)
  from distributed_mutual_exclusion [OF mini.redis_server_axioms this] expiry_of_pos [of second] show ?thesis
    by (simp add: defaultDistributedConfig_def)
qed

text \<open>The same for the plain \<^verbatim>\<open>Locker\<close> (\<^verbatim>\<open>TryLock\<close> and its unlock function).\<close>

theorem trylock_mutual_exclusion:
  assumes "redis_server r view"
    and "lock_reachable (locker_acquire r) (locker_release r) no_renew expiry_of id id w"
    and "(k, tok, d) \<in> set (lw_leases w)" and "(k, tok', d') \<in> set (lw_leases w)"
    and "lw_clock w < d" and "lw_clock w < d'"
  shows "tok = tok' \<and> redis_owner view (lw_store w) (lw_clock w) k = Some tok"
  using redis_server.locker_exclusion [OF assms(1)] assms(2-6) by blast

theorem trylock_mutual_exclusion_witness:
  "redis_owner mini_view (fst (locker_acquire mini_redis Delivered 0 ''job'' ''A'' second Map.empty)) 0 ''job'' = Some ''A''"
proof -
  let ?run = "locker_acquire mini_redis Delivered 0 ''job'' ''A'' second Map.empty"
  let ?l = "(''job'', ''A'', expiry_of second)"
  have ttl: "valid_ttl second" by (simp add: valid_ttl_def in_int64_def)
  have ok: "?run = (fst ?run, True)"
    by (simp add: prod_eq_iff) code_simp
  have "lock_reachable (locker_acquire mini_redis) (locker_release mini_redis) no_renew expiry_of id id
      \<lparr>lw_clock = 0, lw_store = fst ?run, lw_leases = [?l]\<rparr>"
    using lock_reachable_first [where acquire = "locker_acquire mini_redis" and release = "locker_release mini_redis"
        and renew = no_renew and granted = expiry_of and ckey = id and ctok = id, OF ttl ok] by simp
  from trylock_mutual_exclusion [OF mini.redis_server_axioms this] expiry_of_pos [of second] show ?thesis by simp
qed

text \<open>The same for the Redis lock manager of the runtime guard, over keys and owners with
  white space around them.\<close>

theorem manager_mutual_exclusion:
  assumes "redis_server r view"
    and "lock_reachable (manager_acquire r p who) (manager_release r p) no_renew expiry_of
           (\<lambda>k. lockKey p (TrimSpace k)) EncodeToString w"
    and "(k, tok, d) \<in> set (lw_leases w)" and "(k, tok', d') \<in> set (lw_leases w)"
    and "lw_clock w < d" and "lw_clock w < d'"
  shows "tok = tok' \<and> redis_owner view (lw_store w) (lw_clock w) k = Some tok"
  using redis_server.manager_exclusion [OF assms(1)] assms(2-6) by blast

theorem manager_mutual_exclusion_witness:
  "redis_owner mini_view (fst (manager_acquire mini_redis ''p:'' ''me'' Delivered 0 ''job'' ''A'' second Map.empty)) 0
     ''p:lock:job'' = Some (EncodeToString ''A'')"
proof -
  let ?run = "manager_acquire mini_redis ''p:'' ''me'' Delivered 0 ''job'' ''A'' second Map.empty"
  let ?l = "(lockKey ''p:'' (TrimSpace ''job''), EncodeToString ''A'', expiry_of second)"
  have ttl: "valid_ttl second" by (simp add: valid_ttl_def in_int64_def)
  have trim: "TrimSpace ''job'' = ''job''" "TrimSpace ''me'' = ''me''"
    by (simp_all add: go_string_simps is_graphic_def)
  then have key: "lockKey ''p:'' (TrimSpace ''job'') = ''p:lock:job''" by (simp add: lockKey_def)
  have "snd (setnx_ok mini_redis Delivered 0 ''p:lock:job'' (EncodeToString ''A'') second Map.empty)" by code_simp
  then have ok: "?run = (fst ?run, True)"
    unfolding manager_acquire_eq [OF ttl] key using trim by (simp add: prod_eq_iff)
  have "lock_reachable (manager_acquire mini_redis ''p:'' ''me'') (manager_release mini_redis ''p:'') no_renew expiry_of
      (\<lambda>k. lockKey ''p:'' (TrimSpace k)) EncodeToString \<lparr>lw_clock = 0, lw_store = fst ?run, lw_leases = [?l]\<rparr>"
    using lock_reachable_first [where acquire = "manager_acquire mini_redis ''p:'' ''me''", OF ttl ok] by (simp only: add_0 id_apply)
  from manager_mutual_exclusion [OF mini.redis_server_axioms this] expiry_of_pos [of second] show ?thesis
    by (simp add: key)
qed

text \<open>C5: A handle releases only what it owns. While its token owns the key, \<^verbatim>\<open>Release\<close> frees the key
  and nothing else; when the lease has run out, even if another owner has the key by now, it returns
  \<^verbatim>\<open>ErrNotOwner\<close> and changes nothing. Either way every later \<^verbatim>\<open>Release\<close> or \<^verbatim>\<open>Renew\<close> of the handle is
  refused without a request to the server. If the request or the reply is lost, the handle can be
  released again.\<close>

theorem distributed_release_owner_safe:
  assumes "redis_server r view" and "\<not> h_released h"
  shows "(\<exists>s' h' err. distributed_Release (Some r) Delivered now h s = (s', h', err) \<and>
            (err = None \<longleftrightarrow> redis_owner view s now (h_fullKey h) = Some (h_token h)) \<and>
            (err \<noteq> None \<longrightarrow> err = Some ErrNotOwner) \<and>
            (\<forall>k t. now \<le> t \<longrightarrow> redis_owner view s' t k =
               (if k = h_fullKey h \<and> err = None then None else redis_owner view s t k)) \<and>
            (\<forall>l2 t2 s2. distributed_Release (Some r) l2 t2 h' s2 = (s2, h', Some ErrAlreadyReleased)) \<and>
            (\<forall>l2 t2 ttl s2. 0 < ttl \<longrightarrow> distributed_Renew (Some r) l2 t2 h' ttl s2 = (s2, Some ErrAlreadyReleased))) \<and>
         fst (snd (distributed_Release (Some r) (RequestLost e) now h s)) = h \<and>
         fst (snd (distributed_Release (Some r) (ReplyLost e) now h s)) = h"
proof -
  note S = assms(1)
  let ?own = "redis_owner view s now (h_fullKey h) = Some (h_token h)"
  obtain s' where rel: "distributed_Release (Some r) Delivered now h s =
      (s', h\<lparr>h_released := True\<rparr>, if ?own then None else Some ErrNotOwner)"
    and v: "view s' now = (if ?own then (view s now)(h_fullKey h := None) else view s now)"
    using redis_server.distributed_Release_owner [OF S assms(2)] by blast
  have own: "redis_owner view s' t k = (if k = h_fullKey h \<and> ?own then None else redis_owner view s t k)"
    if "now \<le> t" for k t
  proof (cases "k = h_fullKey h \<and> ?own")
    case True
    then have "view s' now k = None" using v by simp
    then have "view s' t k = None" using redis_server.view_later [OF S that, of s' k] by simp
    with True show ?thesis by (simp add: redis_owner_def)
  next
    case False
    then have "view s' now k = view s now k" using v by (auto split: if_splits)
    from redis_server.owner_same [OF S this that] False show ?thesis by (simp only: if_False)
  qed
  have lost: "fst (snd (distributed_Release (Some r) (RequestLost e) now h s)) = h"
      "fst (snd (distributed_Release (Some r) (ReplyLost e) now h s)) = h"
    using assms(2) by (simp_all add: distributed_Release_def client_call_def Let_def)
  show ?thesis
    using rel own lost by (auto simp: distributed_Release_def [of _ _ _ "h\<lparr>h_released := True\<rparr>"] distributed_Renew_def)
qed

theorem distributed_release_owner_safe_witness:
  "\<exists>s' h'. distributed_Release (Some mini_redis) Delivered 5
      \<lparr>h_fullKey = ''k'', h_key = ''k'', h_token = ''A'', h_released = False\<rparr>
      [''k'' \<mapsto> \<lparr>rvalue = ''B'', deadline = Some 9\<rparr>] = (s', h', Some ErrNotOwner) \<and>
    redis_owner mini_view s' 5 ''k'' = Some ''B''"
proof -
  let ?h = "\<lparr>h_fullKey = ''k'', h_key = ''k'', h_token = ''A'', h_released = False\<rparr>"
  let ?s = "[''k'' \<mapsto> \<lparr>rvalue = ''B'', deadline = Some 9\<rparr>]"
  have own: "redis_owner mini_view ?s 5 ''k'' = Some ''B''"
    by (simp add: redis_owner_def mini_view_def live_def)
  from distributed_release_owner_safe [OF mini.redis_server_axioms, of ?h 5 ?s] own show ?thesis by fastforce
qed

text \<open>C6: A crashed holder does not block the lock: once the granted time is over, the next
  \<^verbatim>\<open>Acquire\<close> of that key succeeds, with a handle that owns it.\<close>

theorem distributed_lease_expires:
  assumes "redis_server r view" and "valid_ttl ttl" and "valid_ttl ttl'"
    and "distributed_Acquire \<lparr>dl_client = Some r, dl_cfg = c\<rparr> (\<lambda>_. Inr tok) l now k ttl s = (s1, Inr h)"
    and "now + expiry_of ttl \<le> t"
  shows "\<exists>s2 h'. distributed_Acquire \<lparr>dl_client = Some r, dl_cfg = c\<rparr> (\<lambda>_. Inr tok') Delivered t k ttl' s1 = (s2, Inr h') \<and>
    redis_owner view s2 t (h_fullKey h') = Some (h_token h')"
proof -
  note S = assms(1)
  have "dist_acquire r c l now k tok ttl s = (s1, True)" using assms(4) by (simp add: dist_acquire_def)
  then have k: "k \<noteq> []" and "setnx_ok r l now (keyPrefix c @ k) (EncodeToString tok) ttl s = (s1, True)"
    by (auto simp: dist_acquire_eq [OF assms(2)] split: if_splits)
  from redis_server.setnx_ok_contract(2) [OF S assms(2) this(2), of t] assms(5) expiry_of_pos [of ttl]
  have "redis_owner view s1 t (keyPrefix c @ k) = None" by simp
  from redis_server.distributed_Acquire_free [OF S assms(3) this k, of tok']
  show ?thesis by (auto simp: dist_handle_def redis_owner_def)
qed

theorem distributed_lease_expires_witness:
  "\<exists>s2 h'. distributed_Acquire \<lparr>dl_client = Some mini_redis, dl_cfg = defaultDistributedConfig\<rparr> (\<lambda>_. Inr ''B'') Delivered
      second ''k'' second (fst (distributed_Acquire \<lparr>dl_client = Some mini_redis, dl_cfg = defaultDistributedConfig\<rparr>
        (\<lambda>_. Inr ''A'') Delivered 0 ''k'' second Map.empty)) = (s2, Inr h')"
proof -
  let ?run = "distributed_Acquire \<lparr>dl_client = Some mini_redis, dl_cfg = defaultDistributedConfig\<rparr>
        (\<lambda>_. Inr ''A'') Delivered 0 ''k'' second Map.empty"
  have ttl: "valid_ttl second" by (simp add: valid_ttl_def in_int64_def)
  have "snd ?run = Inr (dist_handle defaultDistributedConfig ''k'' ''A'')" by code_simp
  then have "?run = (fst ?run, Inr (dist_handle defaultDistributedConfig ''k'' ''A''))" by (simp add: prod_eq_iff)
  from distributed_lease_expires [OF mini.redis_server_axioms ttl ttl this, of second "''B''"] show ?thesis
    by (auto simp: expiry_of_def)
qed

text \<open>C7: While a request with some \<^verbatim>\<open>Idempotency-Key\<close> is being processed, another one with the same
  key never reaches the handler: it is answered with a conflict, or with an internal error if Redis
  cannot be reached, and leaves the key as it is. If the key is free, the handler runs, with the key
  held; afterwards the key is free again, unless its time ran out and somebody else has it.\<close>

theorem idempotent_middleware_exclusive:
  assumes "redis_server r view" and "valid_ttl ttl" and "header \<noteq> []"
  shows "(redis_owner view s now (''idem:'' @ header) \<noteq> None \<longrightarrow>
            (\<exists>s' reply. idempotent_Middleware r l now l' now' tok ttl header handler (s, w) = ((s', w), reply) \<and>
               reply \<noteq> Passed \<and> view s' now = view s now \<and>
               (l = Delivered \<longrightarrow> reply = Conflict ''duplicate request''))) \<and>
         (redis_owner view s now (''idem:'' @ header) = None \<longrightarrow>
            (\<exists>s1 s2 w2 s3. redis_owner view s1 now (''idem:'' @ header) = Some tok \<and> handler (s1, w) = (s2, w2) \<and>
               idempotent_Middleware r Delivered now Delivered now' tok ttl header handler (s, w) = ((s3, w2), Passed) \<and>
               (\<forall>k. redis_owner view s3 now' k =
                  (if k = ''idem:'' @ header \<and> redis_owner view s2 now' k = Some tok then None
                   else redis_owner view s2 now' k))))"
proof (intro conjI impI)
  let ?k = "''idem:'' @ header"
  note S = assms(1)
  assume "redis_owner view s now ?k \<noteq> None"
  from redis_server.TryLock_taken [OF S assms(2) this] obtain s' err
    where "Locker_TryLock r l now ?k tok ttl s = (s', Inl err)" "view s' now = view s now"
      "l = Delivered \<longrightarrow> err = ErrLockNotAcquired" by blast
  then show "\<exists>s' reply. idempotent_Middleware r l now l' now' tok ttl header handler (s, w) = ((s', w), reply) \<and>
      reply \<noteq> Passed \<and> view s' now = view s now \<and> (l = Delivered \<longrightarrow> reply = Conflict ''duplicate request'')"
    using assms(3) by (simp add: idempotent_Middleware_def idempotent_Check_def)
next
  let ?k = "''idem:'' @ header"
  note S = assms(1)
  assume "redis_owner view s now ?k = None"
  from redis_server.TryLock_free [OF S assms(2) this] obtain s1
    where got: "Locker_TryLock r Delivered now ?k tok ttl s = (s1, Inr (Unlock ?k tok))"
      and "view s1 now = (view s now)(?k \<mapsto> \<lparr>rvalue = tok, deadline = Some (now + expiry_of ttl)\<rparr>)" by blast
  then have own: "redis_owner view s1 now ?k = Some tok" by (simp add: redis_owner_def)
  obtain s2 w2 where h: "handler (s1, w) = (s2, w2)" by fastforce
  let ?s3 = "Locker_unlock r Delivered now' (Unlock ?k tok) s2"
  have "idempotent_Middleware r Delivered now Delivered now' tok ttl header handler (s, w) = ((?s3, w2), Passed)"
    using assms(3) got h by (simp add: idempotent_Middleware_def idempotent_Check_def del: Locker_unlock.simps)
  moreover have "redis_owner view ?s3 now' k = (if k = ?k \<and> redis_owner view s2 now' k = Some tok then None
      else redis_owner view s2 now' k)" for k
    using redis_server.unlock_owner [OF S, of now' ?k tok s2 k] by (cases "k = ?k") auto
  ultimately show "\<exists>s1 s2 w2 s3. redis_owner view s1 now ?k = Some tok \<and> handler (s1, w) = (s2, w2) \<and>
      idempotent_Middleware r Delivered now Delivered now' tok ttl header handler (s, w) = ((s3, w2), Passed) \<and>
      (\<forall>k. redis_owner view s3 now' k = (if k = ?k \<and> redis_owner view s2 now' k = Some tok then None
        else redis_owner view s2 now' k))"
    using own h by blast
qed

theorem idempotent_middleware_exclusive_witness:
  "\<exists>s'. idempotent_Middleware mini_redis Delivered 5 Delivered 6 ''B'' second ''k'' (\<lambda>(s, n). (s, Suc n))
      ([''idem:k'' \<mapsto> \<lparr>rvalue = ''A'', deadline = Some 9\<rparr>], 0 :: nat) = ((s', 0), Conflict ''duplicate request'')"
proof -
  let ?s = "[''idem:k'' \<mapsto> \<lparr>rvalue = ''A'', deadline = Some 9\<rparr>]"
  have "redis_owner mini_view ?s 5 (''idem:'' @ ''k'') \<noteq> None"
    by (simp add: redis_owner_def mini_view_def live_def)
  moreover have "valid_ttl second" by (simp add: valid_ttl_def in_int64_def)
  ultimately show ?thesis
    using idempotent_middleware_exclusive [OF mini.redis_server_axioms, of second "''k''" ?s 5 Delivered Delivered 6
        "''B''" "\<lambda>(s, n). (s, Suc n)" 0] by fastforce
qed

end
