(* ===== verification/Limiter_Contract.thy ===== *)
theory Limiter_Contract
  imports Redis_Interface
begin

text \<open>
  The contract behind \<^verbatim>\<open>runtimeguard.Limiter\<close>: a fixed-window limiter. At every instant a key has at
  most one running window, with a count and an end; an allowed event adds one to the count, and the
  count never exceeds the limit. From these laws the traffic bound is proved once for all
  implementations: no matter how requests arrive, no interval of the length of the window lets more
  than twice the limit through, and at most the limit when no window runs at its start.
\<close>

section \<open>Request sequences\<close>

text \<open>Requests are given with their arrival times; \<open>allow\<close> is the limiter, \<open>k\<close> the key counted.\<close>

fun allowed_count :: "(go_time \<Rightarrow> 'q \<Rightarrow> 's \<Rightarrow> 's \<times> bool) \<Rightarrow> ('q \<Rightarrow> string) \<Rightarrow> string \<Rightarrow> (go_time \<times> 'q) list \<Rightarrow> 's \<Rightarrow> nat" where
  "allowed_count allow key_of k [] s = 0"
| "allowed_count allow key_of k ((t, q) # rs) s =
     (case allow t q s of (s', ok) \<Rightarrow>
        (if ok \<and> key_of q = k then 1 else 0) + allowed_count allow key_of k rs s')"

section \<open>The contract\<close>

locale fixed_window =
  fixes allow :: "go_time \<Rightarrow> 'q \<Rightarrow> 's \<Rightarrow> 's \<times> bool"
    and key_of :: "'q \<Rightarrow> string"
    and wnd :: "'s \<Rightarrow> go_time \<Rightarrow> string \<Rightarrow> (int \<times> go_time) option"
    and inv :: "go_time \<Rightarrow> 's \<Rightarrow> bool"
    and limit :: int
    and W :: duration
  assumes limit_pos: "0 < limit"
    and inv_later: "inv now s \<Longrightarrow> now \<le> t \<Longrightarrow> inv t s"
    and inv_allow: "inv now s \<Longrightarrow> 0 < now \<Longrightarrow> allow now q s = (s', ok) \<Longrightarrow> inv now s'"
    and wnd_later: "inv now s \<Longrightarrow> now \<le> t \<Longrightarrow> wnd s t k =
      (case wnd s now k of None \<Rightarrow> None | Some (c, e) \<Rightarrow> if t < e then Some (c, e) else None)"
    and allow_other: "inv now s \<Longrightarrow> 0 < now \<Longrightarrow> allow now q s = (s', ok) \<Longrightarrow> k \<noteq> key_of q \<Longrightarrow>
      wnd s' now k = wnd s now k"
    and allow_fresh: "inv now s \<Longrightarrow> 0 < now \<Longrightarrow> allow now q s = (s', ok) \<Longrightarrow> wnd s now (key_of q) = None \<Longrightarrow>
      wnd s' now (key_of q) = Some (1, now + W) \<or> (\<not> ok \<and> wnd s' now (key_of q) = None)"
    and allow_running: "inv now s \<Longrightarrow> 0 < now \<Longrightarrow> allow now q s = (s', ok) \<Longrightarrow> wnd s now (key_of q) = Some (c, e) \<Longrightarrow>
      \<exists>c'. wnd s' now (key_of q) = Some (c', e) \<and> c \<le> c' \<and> (ok \<longrightarrow> c' = c + 1 \<and> c' \<le> limit)"
begin

text \<open>How many more events a window state lets through before \<open>b\<close>, at most.\<close>

definition quota :: "go_time \<Rightarrow> (int \<times> go_time) option \<Rightarrow> int" where
  "quota b w = (case w of None \<Rightarrow> limit
     | Some (c, e) \<Rightarrow> max 0 (limit - c) + (if b \<le> e then 0 else limit))"

lemma quota_later:
  assumes "inv now s" and "now \<le> t" and "t < b"
  shows "quota b (wnd s t k) \<le> quota b (wnd s now k)"
  using wnd_later [OF assms(1,2), of k] assms(3) limit_pos
  by (auto simp: quota_def split: option.splits if_splits)

lemma quota_allow:
  assumes "inv t s" and "0 < t" and "allow t q s = (s', ok)" and "b \<le> t + W" and "t < b"
  shows "(if ok \<and> key_of q = k then 1 else 0) + quota b (wnd s' t k) \<le> quota b (wnd s t k)"
proof (cases "key_of q = k")
  case False
  with allow_other [OF assms(1-3), of k] show ?thesis by simp
next
  case key: True
  show ?thesis
  proof (cases "wnd s t k")
    case None
    with key allow_fresh [OF assms(1-3)] have "wnd s' t k = Some (1, t + W) \<or> (\<not> ok \<and> wnd s' t k = None)" by simp
    with None assms(4) limit_pos show ?thesis by (auto simp: quota_def)
  next
    case (Some p)
    then obtain c e where "wnd s t k = Some (c, e)" by (cases p) auto
    with key allow_running [OF assms(1-3)] obtain c'
      where "wnd s' t k = Some (c', e)" "c \<le> c'" "ok \<longrightarrow> c' = c + 1 \<and> c' \<le> limit" by blast
    with \<open>wnd s t k = Some (c, e)\<close> show ?thesis by (auto simp: quota_def)
  qed
qed

lemma allowed_quota:
  assumes "inv a s" and "0 < a" and "sorted (map fst rs)" and "\<forall>(t, q) \<in> set rs. a \<le> t \<and> t < b" and "b \<le> a + W"
  shows "int (allowed_count allow key_of k rs s) \<le> quota b (wnd s a k)"
  using assms
proof (induction rs arbitrary: a s)
  case Nil
  then show ?case using limit_pos by (auto simp: quota_def split: option.splits)
next
  case (Cons x rs)
  obtain t q where x: "x = (t, q)" by (cases x)
  obtain s' ok where call: "allow t q s = (s', ok)" by fastforce
  have t: "a \<le> t" "t < b" "0 < t" and b: "b \<le> t + W" using Cons.prems x by auto
  note inv = inv_later [OF Cons.prems(1) t(1)]
  have "int (allowed_count allow key_of k rs s') \<le> quota b (wnd s' t k)"
    using Cons.IH [OF inv_allow [OF inv t(3) call] t(3)] Cons.prems(3,4) b x by fastforce
  then have "int (allowed_count allow key_of k (x # rs) s) \<le>
      (if ok \<and> key_of q = k then 1 else 0) + quota b (wnd s' t k)"
    by (simp add: x call)
  also have "\<dots> \<le> quota b (wnd s t k)" by (rule quota_allow [OF inv t(3) call b t(2)])
  also have "\<dots> \<le> quota b (wnd s a k)" by (rule quota_later [OF Cons.prems(1) t(1,2)])
  finally show ?case .
qed

lemma traffic_bound:
  assumes "inv a s" and "0 < a" and "sorted (map fst rs)" and "\<forall>(t, q) \<in> set rs. a \<le> t \<and> t < a + W"
    and "\<forall>c e. wnd s a k = Some (c, e) \<longrightarrow> 0 \<le> c"
  shows "int (allowed_count allow key_of k rs s) \<le> (if wnd s a k = None then limit else 2 * limit)"
proof -
  have "int (allowed_count allow key_of k rs s) \<le> quota (a + W) (wnd s a k)"
    by (rule allowed_quota [OF assms(1-4) order_refl])
  also have "\<dots> \<le> (if wnd s a k = None then limit else 2 * limit)"
    using assms(5) limit_pos by (auto simp: quota_def split: option.splits)
  finally show ?thesis .
qed

end

text \<open>A limiter that also lets every event through that the window has room for.\<close>

definition requests_for :: "('q \<Rightarrow> string) \<Rightarrow> string \<Rightarrow> (go_time \<times> 'q) list \<Rightarrow> nat" where
  "requests_for key_of k rs = length (filter (\<lambda>(t, q). key_of q = k) rs)"

locale exact_window = fixed_window +
  assumes admits: "inv now s \<Longrightarrow> 0 < now \<Longrightarrow> allow now q s = (s', ok) \<Longrightarrow> key_of q \<noteq> [] \<Longrightarrow>
    ok \<longleftrightarrow> (case wnd s now (key_of q) of None \<Rightarrow> True | Some (c, e) \<Rightarrow> c < limit)"
begin

definition room :: "(int \<times> go_time) option \<Rightarrow> nat" where
  "room w = nat (case w of None \<Rightarrow> limit | Some (c, e) \<Rightarrow> limit - c)"

definition covers :: "go_time \<Rightarrow> (int \<times> go_time) option \<Rightarrow> bool" where
  "covers b w \<longleftrightarrow> (case w of None \<Rightarrow> True | Some (c, e) \<Rightarrow> b \<le> e)"

lemma covers_step:
  assumes "inv t s" and "0 < t" and "allow t q s = (s', ok)" and "b \<le> t + W" and "k \<noteq> []" and "covers b (wnd s t k)"
  shows "covers b (wnd s' t k) \<and>
    room (wnd s t k) = (if ok \<and> key_of q = k then 1 else 0) + room (wnd s' t k) \<and>
    (key_of q = k \<and> \<not> ok \<longrightarrow> room (wnd s t k) = 0)"
proof (cases "key_of q = k")
  case False
  with allow_other [OF assms(1-3), of k] assms(6) show ?thesis by simp
next
  case key: True
  show ?thesis
  proof (cases "wnd s t k")
    case None
    with key admits [OF assms(1-3)] assms(5) have ok by simp
    with None key allow_fresh [OF assms(1-3)] have "wnd s' t k = Some (1, t + W)" by simp
    with None key \<open>ok\<close> assms(4) limit_pos show ?thesis by (simp add: covers_def room_def)
  next
    case (Some p)
    then obtain c e where w: "wnd s t k = Some (c, e)" by (cases p) auto
    with key admits [OF assms(1-3)] assms(5) have ok: "ok \<longleftrightarrow> c < limit" by simp
    from w key allow_running [OF assms(1-3)] obtain c' where w': "wnd s' t k = Some (c', e)"
      "c \<le> c'" "ok \<longrightarrow> c' = c + 1 \<and> c' \<le> limit" by blast
    with w key ok assms(6) show ?thesis by (auto simp: covers_def room_def)
  qed
qed

lemma covers_later:
  assumes "inv a s" and "a \<le> t" and "t < b" and "covers b (wnd s a k)"
  shows "covers b (wnd s t k)" and "room (wnd s t k) = room (wnd s a k)"
  using wnd_later [OF assms(1,2), of k] assms(3,4) by (auto simp: covers_def room_def split: option.splits)

lemma exact_count:
  assumes "inv a s" and "0 < a" and "sorted (map fst rs)" and "\<forall>(t, q) \<in> set rs. a \<le> t \<and> t < b" and "b \<le> a + W"
    and "k \<noteq> []" and "covers b (wnd s a k)"
  shows "allowed_count allow key_of k rs s = min (room (wnd s a k)) (requests_for key_of k rs)"
  using assms
proof (induction rs arbitrary: a s)
  case Nil
  then show ?case by (simp add: requests_for_def)
next
  case (Cons x rs)
  obtain t q where x: "x = (t, q)" by (cases x)
  obtain s' ok where call: "allow t q s = (s', ok)" by fastforce
  have t: "a \<le> t" "t < b" "0 < t" and b: "b \<le> t + W" using Cons.prems x by auto
  note inv = inv_later [OF Cons.prems(1) t(1)] and cov = covers_later [OF Cons.prems(1) t(1,2) Cons.prems(7)]
  note step = covers_step [OF inv t(3) call b Cons.prems(6) cov(1)]
  have rest: "\<forall>(t', q') \<in> set rs. t \<le> t' \<and> t' < b" and "sorted (map fst rs)" using Cons.prems(3,4) x by auto
  from Cons.IH [OF inv_allow [OF inv t(3) call] t(3) this(2,1) b Cons.prems(6)] step
  have "allowed_count allow key_of k rs s' = min (room (wnd s' t k)) (requests_for key_of k rs)" by simp
  with step cov(2) show ?case by (auto simp: x call requests_for_def)
qed

end

end
