(* ===== verification/Runtime_Guard.thy ===== *)
theory Runtime_Guard
  imports Redis_Locks Limiter_Contract
begin

text \<open>
  \<^verbatim>\<open>runtimeguard/limiter.go\<close>, \<^verbatim>\<open>runtimeguard/lock.go\<close> and the limiter of \<^verbatim>\<open>runtimeguard/redis.go\<close>: the
  in-process and the Redis fixed-window limiter, the in-process lock manager, and the Gin middleware
  over a limiter. Both limiters are instances of the fixed-window contract, the lock manager is an
  instance of the lock contract.
\<close>

section \<open>Limiters\<close>

record decision =
  Allowed :: bool
  Remaining :: int
  RetryAfter :: duration

record bucket =
  windowStart :: go_time
  bcount :: int

type_synonym memory_limiter = "string \<Rightarrow> bucket"

text \<open>A Go map of buckets: a missing key reads as the zero bucket. Every write stores a bucket with a
  window start, so the total function loses nothing.\<close>

definition NewMemoryLimiter :: memory_limiter where
  "NewMemoryLimiter = (\<lambda>_. \<lparr>windowStart = 0, bcount = 0\<rparr>)"

definition MemoryLimiter_Allow ::
  "go_time \<Rightarrow> string \<Rightarrow> int \<Rightarrow> duration \<Rightarrow> memory_limiter option \<Rightarrow> memory_limiter option \<times> decision" where
  "MemoryLimiter_Allow now key limit window l =
     (let key = TrimSpace key
      in case l of
           None \<Rightarrow> (l, \<lparr>Allowed = False, Remaining = 0, RetryAfter = window\<rparr>)
         | Some buckets \<Rightarrow>
             if key = [] \<or> limit \<le> 0 \<or> window \<le> 0
             then (l, \<lparr>Allowed = False, Remaining = 0, RetryAfter = window\<rparr>)
             else let b = buckets key;
                      b = (if IsZero (windowStart b) \<or> window \<le> Sub now (windowStart b)
                           then \<lparr>windowStart = now, bcount = 0\<rparr> else b)
                  in if limit \<le> bcount b
                     then let retry = Sub (Add (windowStart b) window) now;
                              retry = (if retry < 0 then 0 else retry)
                          in (Some (buckets(key := b)), \<lparr>Allowed = False, Remaining = 0, RetryAfter = retry\<rparr>)
                     else let b = b\<lparr>bcount := bcount b + 1\<rparr>
                          in (Some (buckets(key := b)),
                              \<lparr>Allowed = True, Remaining = limit - bcount b, RetryAfter = 0\<rparr>))"

definition durationMillis :: "duration \<Rightarrow> int" where
  "durationMillis d = (let ms = go_div d millisecond in if ms \<le> 0 then 1 else ms)"

definition limiterKey :: "string \<Rightarrow> string \<Rightarrow> string" where
  "limiterKey p key = p @ ''limiter:'' @ key"

text \<open>The script compares and returns numbers; a value that is not a number is a script error.\<close>

definition redisLimiterScript :: "'s script" where
  "redisLimiterScript r now keys args s =
     (let (s, v) = GET r now (keys ! 0) s
      in case (lua_tonumber (case v of None \<Rightarrow> ''0'' | Some x \<Rightarrow> x), lua_tonumber (args ! 0), lua_tonumber (args ! 1)) of
           (Some current, Some window, Some limit) \<Rightarrow>
             (let (s, ttl) = PTTL r now (keys ! 0) s
              in if limit \<le> current
                 then if ttl < 0
                      then let (s, _) = PEXPIRE r now (keys ! 0) window s
                           in (s, Inr (AArray [AInt64 0, AInt64 current, AInt64 window]))
                      else (s, Inr (AArray [AInt64 0, AInt64 current, AInt64 ttl]))
                 else case INCRBY r now (keys ! 0) 1 s of
                        (s, Inl err) \<Rightarrow> (s, Inl err)
                      | (s, Inr current) \<Rightarrow>
                          if current = 1 \<or> ttl < 0
                          then let (s, _) = PEXPIRE r now (keys ! 0) window s
                               in (s, Inr (AArray [AInt64 1, AInt64 current, AInt64 window]))
                          else (s, Inr (AArray [AInt64 1, AInt64 current, AInt64 ttl])))
         | _ \<Rightarrow> (s, Inl lua_error))"

definition redisLimiterDecision :: "int list \<Rightarrow> int \<Rightarrow> duration \<Rightarrow> decision" where
  "redisLimiterDecision result limit window =
     (let count = result ! 1;
          remaining = limit - count;
          remaining = (if remaining < 0 then 0 else remaining);
          retryAfter = wrap64 (result ! 2 * millisecond);
          retryAfter = (if retryAfter < 0 then 0 else retryAfter)
      in if result ! 0 = 1 then \<lparr>Allowed = True, Remaining = remaining, RetryAfter = 0\<rparr>
         else \<lparr>Allowed = False, Remaining = 0, RetryAfter = (if retryAfter = 0 then window else retryAfter)\<rparr>)"

text \<open>The receiver is the pair of store and key prefix; \<open>None\<close> is a nil limiter or a nil store.\<close>

definition RedisLimiter_Allow ::
  "('s runtime_store \<times> string) option \<Rightarrow> string \<Rightarrow> int \<Rightarrow> duration \<Rightarrow> 's \<Rightarrow> 's \<times> decision \<times> go_error option" where
  "RedisLimiter_Allow l key limit window s =
     (let key = TrimSpace key; refused = \<lparr>Allowed = False, Remaining = 0, RetryAfter = window\<rparr>
      in if key = [] \<or> limit \<le> 0 \<or> window \<le> 0 then (s, refused, None)
         else case l of
                None \<Rightarrow> (s, refused, Some (ErrorNew ''runtimeguard: redis limiter store is nil''))
              | Some (store, p) \<Rightarrow>
                  (case EvalIntSlice store redisLimiterScript [limiterKey p key]
                          [FormatInt (durationMillis window), FormatInt limit] s of
                     (s, Inl err) \<Rightarrow> (s, refused, Some err)
                   | (s, Inr result) \<Rightarrow>
                       if length result \<noteq> 3
                       then (s, refused, Some (ErrorNew ''runtimeguard: invalid redis limiter response''))
                       else (s, redisLimiterDecision result limit window, None)))"

definition NewRedisLimiter :: "'s runtime_store \<Rightarrow> string \<Rightarrow> 's runtime_store \<times> string" where
  "NewRedisLimiter store p = (store, redisKeyPrefix p)"

section \<open>Gin middleware\<close>

text \<open>The response so far: an abort with a status, or the next handler with a header set.\<close>

datatype gin_reply =
    TooManyRequests "string option" \<comment> \<open>429, with the \<^verbatim>\<open>Retry-After\<close> header if set\<close>
  | Next string \<comment> \<open>\<^verbatim>\<open>c.Next()\<close> after setting \<^verbatim>\<open>X-RateLimit-Remaining\<close>\<close>

text \<open>\<open>l\<close> is the limiter (\<open>None\<close> for nil) as a function of the key, \<open>cfg_key\<close> the configured key
  function applied to the request (\<open>None\<close> for nil).\<close>

definition GinMiddleware ::
  "(string \<Rightarrow> int \<Rightarrow> duration \<Rightarrow> 's \<Rightarrow> 's \<times> decision \<times> go_error option) option \<Rightarrow>
   int \<Rightarrow> duration \<Rightarrow> string option \<Rightarrow> 's \<Rightarrow> 's \<times> gin_reply" where
  "GinMiddleware l limit window cfg_key s =
     (let key = (case cfg_key of None \<Rightarrow> [] | Some k \<Rightarrow> k)
      in case l of
           None \<Rightarrow> (s, TooManyRequests None)
         | Some allow \<Rightarrow>
             (let (s, d, err) = allow key limit window s
              in if err \<noteq> None \<or> \<not> Allowed d
                 then (s, TooManyRequests
                        (if 0 < RetryAfter d
                         then Some (FormatInt (float_to_int (fl (Seconds (RetryAfter d) + fl (999 / 1000)))))
                         else None))
                 else (s, Next (FormatInt (Remaining d)))))"

section \<open>In-process locks\<close>

record lock_entry =
  owner_of :: string
  lock_expiresAt :: go_time

type_synonym lock_manager = "string \<rightharpoonup> lock_entry"

definition NewLockManager :: lock_manager where
  "NewLockManager = Map.empty"

text \<open>The returned unlock function captures the trimmed key and owner; \<open>None\<close> is the no-op that comes
  with a refusal.\<close>

definition LockManager_TryLock ::
  "go_time \<Rightarrow> string \<Rightarrow> string \<Rightarrow> duration \<Rightarrow> lock_manager option \<Rightarrow> lock_manager option \<times> (string \<times> string) option" where
  "LockManager_TryLock now key owner ttl m =
     (let key = TrimSpace key; owner = TrimSpace owner
      in case m of
           None \<Rightarrow> (m, None)
         | Some locks \<Rightarrow>
             if key = [] \<or> owner = [] \<or> ttl \<le> 0 then (m, None)
             else if (case locks key of Some current \<Rightarrow> After (lock_expiresAt current) now \<and> owner_of current \<noteq> owner
                                      | None \<Rightarrow> False)
             then (m, None)
             else (Some (locks(key \<mapsto> \<lparr>owner_of = owner, lock_expiresAt = Add now ttl\<rparr>)), Some (key, owner)))"

definition LockManager_unlock :: "string \<times> string \<Rightarrow> lock_manager \<Rightarrow> lock_manager" where
  "LockManager_unlock h locks =
     (case h of (key, owner) \<Rightarrow>
        (case locks key of
           Some current \<Rightarrow> if owner_of current = owner then locks(key := None) else locks
         | None \<Rightarrow> locks))"

section \<open>The lock manager satisfies the lock contract\<close>

definition lm_acquire :: "link \<Rightarrow> go_time \<Rightarrow> string \<Rightarrow> string \<Rightarrow> duration \<Rightarrow> lock_manager \<Rightarrow> lock_manager \<times> bool" where
  "lm_acquire l now k tok ttl s =
     (case LockManager_TryLock now k tok ttl (Some s) of (m, h) \<Rightarrow> (the m, h \<noteq> None))"

definition lm_release :: "link \<Rightarrow> go_time \<Rightarrow> string \<Rightarrow> string \<Rightarrow> lock_manager \<Rightarrow> lock_manager \<times> bool" where
  "lm_release l now k tok s = (LockManager_unlock (TrimSpace k, TrimSpace tok) s, True)"

definition lm_owner :: "lock_manager \<Rightarrow> go_time \<Rightarrow> string \<Rightarrow> string option" where
  "lm_owner s t k =
     (case s k of None \<Rightarrow> None | Some e \<Rightarrow> if t < lock_expiresAt e then Some (owner_of e) else None)"

lemma lm_acquire_cases:
  assumes "valid_ttl ttl" and "lm_acquire l now k tok ttl s = (s', ok)"
  shows "\<not> ok \<and> s' = s \<or> ok \<and> lm_owner s now (TrimSpace k) \<in> {None, Some (TrimSpace tok)} \<and>
    s' = s(TrimSpace k \<mapsto> \<lparr>owner_of = TrimSpace tok, lock_expiresAt = now + ttl\<rparr>)"
  using assms
  by (auto simp: lm_acquire_def LockManager_TryLock_def lm_owner_def valid_ttl_def Let_def time_defs
      split: if_splits option.splits)

lemma lm_release_owner:
  assumes "\<not> (k' = TrimSpace k \<and> lm_owner s now k' = Some (TrimSpace tok))" and "now \<le> t"
  shows "lm_owner (fst (lm_release l now k tok s)) t k' = lm_owner s t k'"
  using assms by (auto simp: lm_release_def LockManager_unlock_def lm_owner_def split: option.splits if_splits)

interpretation local_lock: token_lock lm_acquire lm_release no_renew "\<lambda>ttl. ttl" TrimSpace TrimSpace lm_owner
proof (unfold_locales, goal_cases)
  case (1 s t k tok now)
  then show ?case by (auto simp: lm_owner_def split: option.splits if_splits)
next
  case (2 ttl l now k tok s s')
  from lm_acquire_cases [OF this] show ?case by (auto simp: lm_owner_def)
next
  case (3 ttl l now k tok s s' t)
  from lm_acquire_cases [OF 3(1,2)] show ?case by simp
next
  case (4 ttl l now k tok s s' ok k' t)
  from lm_acquire_cases [OF 4(1,2)] 4(3) show ?case by (auto simp: lm_owner_def)
next
  case (5 l now k tok s s' ok k' t)
  from lm_release_owner [OF 5(2,3), of l] 5(1) show ?case by simp
qed (simp_all add: no_renew_def)

section \<open>The in-process limiter satisfies the window contract\<close>

definition mem_allow :: "int \<Rightarrow> duration \<Rightarrow> go_time \<Rightarrow> string \<Rightarrow> memory_limiter \<Rightarrow> memory_limiter \<times> bool" where
  "mem_allow limit window now key s =
     (case MemoryLimiter_Allow now key limit window (Some s) of (l, d) \<Rightarrow> (the l, Allowed d))"

definition mem_window :: "duration \<Rightarrow> memory_limiter \<Rightarrow> go_time \<Rightarrow> string \<Rightarrow> (int \<times> go_time) option" where
  "mem_window window s now k =
     (if k = [] \<or> windowStart (s k) = 0 \<or> windowStart (s k) + window \<le> now then None
      else Some (bcount (s k), windowStart (s k) + window))"

definition mem_inv :: "go_time \<Rightarrow> memory_limiter \<Rightarrow> bool" where
  "mem_inv now s \<longleftrightarrow> (\<forall>k. 0 \<le> bcount (s k))"

lemma mem_allow_eq:
  assumes "0 < limit" and "valid_ttl window"
  shows "mem_allow limit window now key s =
    (let k = TrimSpace key;
         b = (case mem_window window s now k of None \<Rightarrow> \<lparr>windowStart = now, bcount = 0\<rparr> | Some _ \<Rightarrow> s k)
     in if k = [] then (s, False)
        else if limit \<le> bcount b then (s(k := b), False)
        else (s(k := b\<lparr>bcount := bcount b + 1\<rparr>), True))"
proof -
  have "window \<le> Sub now u \<longleftrightarrow> u + window \<le> now" for u
    using Sub_ge_iff [of window now u] assms(2) by (auto simp: valid_ttl_def in_int64_def)
  with assms show ?thesis
    by (simp add: mem_allow_def MemoryLimiter_Allow_def mem_window_def valid_ttl_def Let_def IsZero_def)
qed

lemma mem_fixed_window:
  assumes "0 < limit" and "valid_ttl window"
  shows "fixed_window (mem_allow limit window) TrimSpace (mem_window window) mem_inv limit window"
proof (unfold_locales, goal_cases)
  case 1
  show ?case by (rule assms)
next
  case (2 now s t)
  then show ?case by (simp add: mem_inv_def)
next
  case (3 now s q s' ok)
  then show ?case
    by (auto simp: mem_allow_eq [OF assms] mem_inv_def Let_def split: if_splits option.splits)
next
  case (4 now s t k)
  then show ?case by (auto simp: mem_window_def)
next
  case (5 now s q s' ok k)
  then show ?case
    by (auto simp: mem_allow_eq [OF assms] mem_window_def Let_def split: if_splits option.splits)
next
  case (6 now s q s' ok)
  then show ?case using assms
    by (auto simp: mem_allow_eq [OF assms] mem_window_def Let_def valid_ttl_def split: if_splits option.splits)
next
  case (7 now s q s' ok c e)
  then show ?case
    by (auto simp: mem_allow_eq [OF assms] mem_window_def Let_def split: if_splits option.splits)
qed

lemma mem_exact_window:
  assumes "0 < limit" and "valid_ttl window"
  shows "exact_window (mem_allow limit window) TrimSpace (mem_window window) mem_inv limit window"
  using mem_fixed_window [OF assms] assms
  by (auto simp: exact_window_def exact_window_axioms_def mem_allow_eq [OF assms] mem_window_def Let_def
      split: if_splits option.splits)

text \<open>The settings under which a limiter is in use: a positive limit that a script can represent, and a
  positive window.\<close>

locale limiter_settings =
  fixes limit :: int and window :: duration
  assumes limit_range: "0 < limit" "limit \<le> 9007199254740992"
    and window_valid: "valid_ttl window"

sublocale limiter_settings < mem: exact_window "mem_allow limit window" TrimSpace "mem_window window" mem_inv limit window
  by (rule mem_exact_window [OF limit_range(1) window_valid])

interpretation per_minute: limiter_settings 60 minute
  by unfold_locales (simp_all add: valid_ttl_def in_int64_def)

section \<open>The Redis limiter satisfies the window contract\<close>

definition red_allow :: "'s redis \<Rightarrow> string \<Rightarrow> int \<Rightarrow> duration \<Rightarrow> go_time \<Rightarrow> link \<times> string \<Rightarrow> 's \<Rightarrow> 's \<times> bool" where
  "red_allow r p limit window now q s =
     (case RedisLimiter_Allow (Some (GoRedisStore (Some r) (fst q) now, p)) (snd q) limit window s of
        (s, d, err) \<Rightarrow> (s, err = None \<and> Allowed d))"

definition red_window ::
  "('s \<Rightarrow> go_time \<Rightarrow> string \<Rightarrow> redis_entry option) \<Rightarrow> string \<Rightarrow> 's \<Rightarrow> go_time \<Rightarrow> string \<Rightarrow> (int \<times> go_time) option" where
  "red_window view p s now k =
     (if k = [] then None
      else case view s now (limiterKey p k) of
             None \<Rightarrow> None
           | Some e \<Rightarrow> Some (fst (ParseInt (rvalue e)), the (deadline e)))"

text \<open>Every counter under the prefix is a positive number and has a deadline.\<close>

definition counter_ok :: "redis_entry \<Rightarrow> bool" where
  "counter_ok e \<longleftrightarrow> (\<exists>n d. e = \<lparr>rvalue = FormatInt n, deadline = Some d\<rparr> \<and> 1 \<le> n \<and> n \<le> 9007199254740992)"

definition red_inv :: "('s \<Rightarrow> go_time \<Rightarrow> string \<Rightarrow> redis_entry option) \<Rightarrow> string \<Rightarrow> go_time \<Rightarrow> 's \<Rightarrow> bool" where
  "red_inv view p now s \<longleftrightarrow> (\<forall>k e. view s now (limiterKey p k) = Some e \<longrightarrow> counter_ok e)"

lemma red_invE:
  assumes "red_inv view p now s" and "view s now (limiterKey p k) = Some e"
  obtains n d where "e = \<lparr>rvalue = FormatInt n, deadline = Some d\<rparr>" "1 \<le> n" "n \<le> 9007199254740992"
proof -
  have "counter_ok e" using assms by (auto simp: red_inv_def)
  then show ?thesis unfolding counter_ok_def using that by blast
qed

lemma limiterKey_inj [simp]: "limiterKey p k = limiterKey p k' \<longleftrightarrow> k = k'"
  by (simp add: limiterKey_def)

lemma lua_tonumber_zero [simp]: "lua_tonumber ''0'' = Some 0"
proof -
  have "FormatInt 0 = ''0''"
    by (simp add: FormatInt_def FormatUint.simps [of 0] digit_char_def char_of_def bit_0)
  with lua_tonumber_FormatInt [of 0] show ?thesis by simp
qed

lemma durationMillis_range:
  assumes "valid_ttl window"
  shows "0 < durationMillis window" and "\<bar>durationMillis window\<bar> \<le> 9007199254740992"
    and "durationMillis window * millisecond = expiry_of window"
proof -
  have "go_div window millisecond = window div millisecond"
    using assms by (simp add: valid_ttl_def go_div_nonneg)
  with assms show "0 < durationMillis window" and "\<bar>durationMillis window\<bar> \<le> 9007199254740992"
    and "durationMillis window * millisecond = expiry_of window"
    by (auto simp: durationMillis_def Let_def valid_ttl_def in_int64_def expiry_of_def max_def)
qed

text \<open>The script, for a window of \<open>ms\<close> milliseconds: what it answers and what it does to the keys.\<close>

definition limiter_reply :: "redis_entry option \<Rightarrow> go_time \<Rightarrow> int \<Rightarrow> int \<Rightarrow> int list" where
  "limiter_reply v now ms limit =
     (case v of
        None \<Rightarrow> [1, 1, ms]
      | Some e \<Rightarrow>
          (let n = fst (ParseInt (rvalue e)); left = (the (deadline e) - now) div millisecond
           in if limit \<le> n then [0, n, left] else [1, n + 1, left]))"

definition limiter_entry :: "redis_entry option \<Rightarrow> go_time \<Rightarrow> int \<Rightarrow> int \<Rightarrow> redis_entry" where
  "limiter_entry v now ms limit =
     (case v of
        None \<Rightarrow> \<lparr>rvalue = FormatInt 1, deadline = Some (now + ms * millisecond)\<rparr>
      | Some e \<Rightarrow>
          (let n = fst (ParseInt (rvalue e)) in if limit \<le> n then e else e\<lparr>rvalue := FormatInt (n + 1)\<rparr>))"

context redis_server
begin

lemma redisLimiterScript_absent:
  assumes "0 < ms" "\<bar>ms\<bar> \<le> 9007199254740992" "0 < limit" "\<bar>limit\<bar> \<le> 9007199254740992"
    and "view s now K = None"
  shows "snd (redisLimiterScript r now [K] [FormatInt ms, FormatInt limit] s) =
           Inr (AArray (map AInt64 (limiter_reply None now ms limit)))"
    and "view (fst (redisLimiterScript r now [K] [FormatInt ms, FormatInt limit] s)) now =
           (view s now)(K \<mapsto> limiter_entry None now ms limit)"
proof -
  define s1 where "s1 = fst (PTTL r now K (fst (GET r now K s)))"
  have v1: "view s1 now = view s now" by (simp add: s1_def redis_laws)
  have inc: "snd (INCRBY r now K 1 s1) = Inr 1"
    "view (fst (INCRBY r now K 1 s1)) now = (view s now)(K \<mapsto> \<lparr>rvalue = FormatInt 1, deadline = None\<rparr>)"
    using INCRBY_absent [of s1 now K 1] assms(5) v1 by (simp_all add: in_int64_def)
  have run: "redisLimiterScript r now [K] [FormatInt ms, FormatInt limit] s =
      (fst (PEXPIRE r now K ms (fst (INCRBY r now K 1 s1))), Inr (AArray [AInt64 1, AInt64 1, AInt64 ms]))"
    using assms inc(1) v1
    by (simp add: redisLimiterScript_def split_beta redis_laws lua_tonumber_FormatInt Let_def s1_def [symmetric]
        split: sum.splits)
  show "snd (redisLimiterScript r now [K] [FormatInt ms, FormatInt limit] s) =
           Inr (AArray (map AInt64 (limiter_reply None now ms limit)))"
    unfolding run by (simp add: limiter_reply_def)
  show "view (fst (redisLimiterScript r now [K] [FormatInt ms, FormatInt limit] s)) now =
           (view s now)(K \<mapsto> limiter_entry None now ms limit)"
    unfolding run using PEXPIRE_view [OF assms(1)] inc(2) by (simp add: limiter_entry_def)
qed

lemma redisLimiterScript_present:
  assumes "0 < ms" "\<bar>ms\<bar> \<le> 9007199254740992" "0 < limit" "\<bar>limit\<bar> \<le> 9007199254740992"
    and e: "view s now K = Some e" "counter_ok e"
  shows "snd (redisLimiterScript r now [K] [FormatInt ms, FormatInt limit] s) =
           Inr (AArray (map AInt64 (limiter_reply (Some e) now ms limit)))"
    and "view (fst (redisLimiterScript r now [K] [FormatInt ms, FormatInt limit] s)) now =
           (view s now)(K \<mapsto> limiter_entry (Some e) now ms limit)"
proof -
  obtain n d where ed: "e = \<lparr>rvalue = FormatInt n, deadline = Some d\<rparr>" and n: "1 \<le> n" "n \<le> 9007199254740992"
    using e(2) by (auto simp: counter_ok_def)
  define s1 where "s1 = fst (PTTL r now K (fst (GET r now K s)))"
  have v1: "view s1 now = view s now" by (simp add: s1_def redis_laws)
  have now: "now < d" using view_live [OF e(1)] ed by (simp add: live_def)
  then have ttl: "\<not> (d - now) div millisecond < 0" by (simp add: pos_imp_zdiv_neg_iff)
  have range: "in_int64 n" "in_int64 (n + 1)" using n by (simp_all add: in_int64_def)
  have inc: "snd (INCRBY r now K 1 s1) = Inr (n + 1)"
    "view (fst (INCRBY r now K 1 s1)) now = (view s now)(K \<mapsto> e\<lparr>rvalue := FormatInt (n + 1)\<rparr>)"
    using INCRBY_present [of s1 now K e n 1] e(1) ed v1 range by simp_all
  have num: "lua_tonumber (FormatInt n) = Some n" using n by (simp add: lua_tonumber_FormatInt)
  have run: "redisLimiterScript r now [K] [FormatInt ms, FormatInt limit] s =
      (if limit \<le> n then (s1, Inr (AArray [AInt64 0, AInt64 n, AInt64 ((d - now) div millisecond)]))
       else (fst (INCRBY r now K 1 s1), Inr (AArray [AInt64 1, AInt64 (n + 1), AInt64 ((d - now) div millisecond)])))"
    using assms(1-4) e(1) ed inc(1) v1 n ttl
    by (simp add: redisLimiterScript_def split_beta redis_laws lua_tonumber_FormatInt num Let_def s1_def [symmetric]
        split: sum.splits)
  show "snd (redisLimiterScript r now [K] [FormatInt ms, FormatInt limit] s) =
           Inr (AArray (map AInt64 (limiter_reply (Some e) now ms limit)))"
    unfolding run using ed range by (simp add: limiter_reply_def ParseInt_FormatInt Let_def)
  show "view (fst (redisLimiterScript r now [K] [FormatInt ms, FormatInt limit] s)) now =
           (view s now)(K \<mapsto> limiter_entry (Some e) now ms limit)"
    unfolding run using ed range inc(2) v1 e(1)
    by (auto simp: limiter_entry_def ParseInt_FormatInt Let_def)
qed

end

lemma redis_ints_AInt64 [simp]: "redis_ints (map AInt64 xs) = Inr xs"
  by (induction xs) (simp_all add: redisValueInt_def)

lemma length_limiter_reply [simp]: "length (limiter_reply v now ms limit) = 3"
  by (simp add: limiter_reply_def Let_def split: option.splits)

lemma client_call_cases:
  "client_call l cmd s = (s', res) \<Longrightarrow> (s' = s \<or> s' = fst (cmd s)) \<and> (\<forall>v. res = Inr v \<longrightarrow> s' = fst (cmd s) \<and> snd (cmd s) = Inr v)"
  by (cases l) (auto simp: client_call_def)

locale redis_limiter = redis_server r view + limiter_settings limit window
  for r :: "'s redis" and view and limit and window +
  fixes p :: string
begin

definition step_entry :: "'s \<Rightarrow> go_time \<Rightarrow> string \<Rightarrow> redis_entry" where
  "step_entry s now k = limiter_entry (view s now (limiterKey p k)) now (durationMillis window) limit"

lemma script_step:
  assumes "red_inv view p now s"
  shows "snd (redisLimiterScript r now [limiterKey p k] [FormatInt (durationMillis window), FormatInt limit] s) =
           Inr (AArray (map AInt64 (limiter_reply (view s now (limiterKey p k)) now (durationMillis window) limit)))"
    and "view (fst (redisLimiterScript r now [limiterKey p k] [FormatInt (durationMillis window), FormatInt limit] s)) now =
           (view s now)(limiterKey p k \<mapsto> step_entry s now k)"
proof -
  note ms = durationMillis_range [OF window_valid]
  have limit: "\<bar>limit\<bar> \<le> 9007199254740992" using limit_range by simp
  have "view s now (limiterKey p k) = None \<or> (\<exists>e. view s now (limiterKey p k) = Some e \<and> counter_ok e)"
    using assms by (cases "view s now (limiterKey p k)") (auto simp: red_inv_def)
  then show "snd (redisLimiterScript r now [limiterKey p k] [FormatInt (durationMillis window), FormatInt limit] s) =
           Inr (AArray (map AInt64 (limiter_reply (view s now (limiterKey p k)) now (durationMillis window) limit)))"
    and "view (fst (redisLimiterScript r now [limiterKey p k] [FormatInt (durationMillis window), FormatInt limit] s)) now =
           (view s now)(limiterKey p k \<mapsto> step_entry s now k)"
    using redisLimiterScript_absent [OF ms(1,2) limit_range(1) limit, of s now "limiterKey p k"]
      redisLimiterScript_present [OF ms(1,2) limit_range(1) limit, of s now "limiterKey p k"]
    by (auto simp: step_entry_def)
qed

lemma red_allow_cases:
  assumes inv: "red_inv view p now s" and call: "red_allow r p limit window now q s = (s', ok)"
  defines "k \<equiv> TrimSpace (snd q)"
  shows "s' = s \<and> \<not> ok \<or> k \<noteq> [] \<and> view s' now = (view s now)(limiterKey p k \<mapsto> step_entry s now k) \<and>
    (ok \<longrightarrow> limiter_reply (view s now (limiterKey p k)) now (durationMillis window) limit ! 0 = 1)"
proof (cases "k = []")
  case True
  then show ?thesis using call by (simp add: red_allow_def RedisLimiter_Allow_def k_def Let_def)
next
  case False
  let ?cmd = "redisLimiterScript r now [limiterKey p k] [FormatInt (durationMillis window), FormatInt limit]"
  obtain s1 res where cc: "client_call (fst q) ?cmd s = (s1, res)" by fastforce
  note cases = client_call_cases [OF cc] and step = script_step [OF inv, of k]
  have set: "0 < limit" "0 < window" using limit_range window_valid by (simp_all add: valid_ttl_def)
  show ?thesis
  proof (cases res)
    case (Inl err)
    then have "s' = s1" "\<not> ok"
      using call cc False set
      by (auto simp: red_allow_def RedisLimiter_Allow_def GoRedisStore_def GoRedis_EvalIntSlice_def k_def Let_def)
    with cases step(2) False show ?thesis by auto
  next
    case (Inr v)
    with cases step(1) have v: "v = AArray (map AInt64 (limiter_reply (view s now (limiterKey p k)) now (durationMillis window) limit))"
      and s1: "s1 = fst (?cmd s)" by auto
    have "s' = s1" and "ok \<longleftrightarrow> Allowed (redisLimiterDecision
        (limiter_reply (view s now (limiterKey p k)) now (durationMillis window) limit) limit window)"
      using call cc False set Inr v
      by (auto simp: red_allow_def RedisLimiter_Allow_def GoRedisStore_def GoRedis_EvalIntSlice_def k_def Let_def)
    with s1 step(2) False show ?thesis by (auto simp: redisLimiterDecision_def Let_def split: if_splits)
  qed
qed

lemma step_entry_ok:
  assumes "red_inv view p now s"
  shows "counter_ok (step_entry s now k)"
proof (cases "view s now (limiterKey p k)")
  case None
  moreover have "\<exists>n. FormatInt 1 = FormatInt n \<and> 1 \<le> n \<and> n \<le> 9007199254740992"
    by (rule exI [where x = 1]) simp
  ultimately show ?thesis by (simp add: step_entry_def limiter_entry_def counter_ok_def)
next
  case (Some e)
  then obtain n d where "e = \<lparr>rvalue = FormatInt n, deadline = Some d\<rparr>" and n: "1 \<le> n" "n \<le> 9007199254740992"
    by (rule red_invE [OF assms])
  moreover have "in_int64 n" using n by (simp add: in_int64_def)
  ultimately show ?thesis
    using limit_range Some by (auto simp: step_entry_def limiter_entry_def counter_ok_def ParseInt_FormatInt Let_def)
qed

lemma red_window_Some:
  assumes "red_inv view p now s" and "k \<noteq> []"
  shows "red_window view p s now k = Some (n, d) \<longleftrightarrow>
    view s now (limiterKey p k) = Some \<lparr>rvalue = FormatInt n, deadline = Some d\<rparr> \<and> in_int64 n"
proof (cases "view s now (limiterKey p k)")
  case (Some e)
  then obtain n' d' where "e = \<lparr>rvalue = FormatInt n', deadline = Some d'\<rparr>" "1 \<le> n'" "n' \<le> 9007199254740992"
    by (rule red_invE [OF assms(1)])
  moreover from this have "in_int64 n'" by (simp add: in_int64_def)
  moreover have "FormatInt n' = FormatInt n \<Longrightarrow> in_int64 n \<Longrightarrow> n' = n"
    using ParseInt_FormatInt \<open>in_int64 n'\<close> by (metis prod.inject)
  ultimately show ?thesis using Some assms(2) by (auto simp: red_window_def ParseInt_FormatInt)
qed (use assms(2) in \<open>simp add: red_window_def\<close>)

lemma red_inv_later: "red_inv view p now s \<Longrightarrow> now \<le> t \<Longrightarrow> red_inv view p t s"
  unfolding red_inv_def by (metis view_back)

lemma red_inv_allow:
  assumes "red_inv view p now s" and "red_allow r p limit window now q s = (s', ok)"
  shows "red_inv view p now s'"
  using red_allow_cases [OF assms] step_entry_ok [OF assms(1)] assms(1) by (auto simp: red_inv_def split: if_splits)

lemma red_window_later:
  assumes "red_inv view p now s" and "now \<le> t"
  shows "red_window view p s t k =
    (case red_window view p s now k of None \<Rightarrow> None | Some (c, e) \<Rightarrow> if t < e then Some (c, e) else None)"
proof (cases "view s now (limiterKey p k)")
  case None
  then have "view s t (limiterKey p k) = None" using view_later [OF assms(2), of s "limiterKey p k"] by simp
  with None show ?thesis by (simp add: red_window_def)
next
  case (Some e)
  then obtain n d where "e = \<lparr>rvalue = FormatInt n, deadline = Some d\<rparr>"
    by (rule red_invE [OF assms(1)])
  with Some view_later [OF assms(2), of s "limiterKey p k"] show ?thesis
    by (simp add: red_window_def live_def)
qed

lemma red_window_running:
  assumes inv: "red_inv view p now s" and call: "red_allow r p limit window now q s = (s', ok)"
    and w: "red_window view p s now (TrimSpace (snd q)) = Some (c, e)"
  shows "\<exists>c'. red_window view p s' now (TrimSpace (snd q)) = Some (c', e) \<and> c \<le> c' \<and> (ok \<longrightarrow> c' = c + 1 \<and> c' \<le> limit)"
proof -
  let ?k = "TrimSpace (snd q)"
  have k: "?k \<noteq> []" using w by (auto simp: red_window_def)
  have v: "view s now (limiterKey p ?k) = Some \<lparr>rvalue = FormatInt c, deadline = Some e\<rparr>" and c: "in_int64 c"
    using red_window_Some [OF inv k] w by auto
  consider "s' = s" "\<not> ok" | "view s' now (limiterKey p ?k) = Some (step_entry s now ?k)"
      "ok \<longrightarrow> limiter_reply (view s now (limiterKey p ?k)) now (durationMillis window) limit ! 0 = 1"
    using red_allow_cases [OF inv call] by auto
  then show ?thesis
  proof cases
    case 1
    with w show ?thesis by auto
  next
    case 2
    have "in_int64 (c + 1)" if "c < limit" using that limit_range c by (auto simp: in_int64_def)
    with 2 v c k show ?thesis
      by (auto simp: red_window_def step_entry_def limiter_entry_def limiter_reply_def ParseInt_FormatInt Let_def
          split: if_splits)
  qed
qed

lemma red_window_fresh:
  assumes inv: "red_inv view p now s" and call: "red_allow r p limit window now q s = (s', ok)"
    and w: "red_window view p s now (TrimSpace (snd q)) = None"
  shows "red_window view p s' now (TrimSpace (snd q)) = Some (1, now + expiry_of window) \<or>
    (\<not> ok \<and> red_window view p s' now (TrimSpace (snd q)) = None)"
proof -
  let ?k = "TrimSpace (snd q)"
  consider "s' = s" "\<not> ok" | "?k \<noteq> []" "view s' now (limiterKey p ?k) = Some (step_entry s now ?k)"
    using red_allow_cases [OF inv call] by auto
  then show ?thesis
  proof cases
    case 2
    with w have "view s now (limiterKey p ?k) = None" by (simp add: red_window_def split: option.splits)
    with 2 have "view s' now (limiterKey p ?k) = Some \<lparr>rvalue = FormatInt 1, deadline = Some (now + expiry_of window)\<rparr>"
      by (simp add: step_entry_def limiter_entry_def durationMillis_range(3) [OF window_valid])
    with 2(1) show ?thesis by (simp add: red_window_def ParseInt_FormatInt in_int64_def)
  qed (use w in simp)
qed

end

sublocale redis_limiter < red: fixed_window "red_allow r p limit window" "\<lambda>q. TrimSpace (snd q)" "red_window view p"
    "red_inv view p" limit "expiry_of window"
proof (unfold_locales, goal_cases)
  case 1
  show ?case by (rule limit_range)
next
  case (5 now s q s' ok k)
  with red_allow_cases [OF 5(1,3)] show ?case by (auto simp: red_window_def)
next
  case (6 now s q s' ok)
  from red_window_fresh [OF 6(1,3,4)] show ?case .
next
  case (7 now s q s' ok c e)
  from red_window_running [OF 7(1,3,4)] show ?case .
qed (auto intro: red_inv_later red_inv_allow red_window_later)

context redis_limiter
begin

lemmas red_traffic_bound = red.traffic_bound

end

interpretation mini_limiter: redis_limiter mini_redis mini_view 60 minute "''runtimeguard:''"
  by unfold_locales

section \<open>Properties\<close>

text \<open>C4: In the process-local lock manager two callers with different owners never hold the same key
  at the same time, whatever is locked and unlocked, as long as each stays within its time to live.
  Keys and owners are compared without the white space around them.\<close>

theorem local_lock_mutual_exclusion:
  assumes "lock_reachable lm_acquire lm_release no_renew (\<lambda>ttl. ttl) TrimSpace TrimSpace w"
    and "(k, tok, d) \<in> set (lw_leases w)" and "(k, tok', d') \<in> set (lw_leases w)"
    and "lw_clock w < d" and "lw_clock w < d'"
  shows "tok = tok' \<and> lm_owner (lw_store w) (lw_clock w) k = Some tok"
  using local_lock.mutual_exclusion [OF assms] .

theorem local_lock_mutual_exclusion_witness:
  "lm_owner (fst (lm_acquire Delivered 1 ''k'' ''A'' second NewLockManager)) 1 ''k'' = Some ''A''"
proof -
  have ttl: "valid_ttl second" by (simp add: valid_ttl_def in_int64_def)
  have trim: "TrimSpace ''k'' = ''k''" "TrimSpace ''A'' = ''A''" by (simp_all add: go_string_simps is_graphic_def)
  have "lm_acquire Delivered 1 ''k'' ''A'' second NewLockManager =
      (fst (lm_acquire Delivered 1 ''k'' ''A'' second NewLockManager), True)"
    by (simp add: lm_acquire_def LockManager_TryLock_def NewLockManager_def trim Let_def)
  note reach = lock_reachable_first [where acquire = lm_acquire and release = lm_release and renew = no_renew
      and granted = "\<lambda>ttl. ttl" and ckey = TrimSpace and ctok = TrimSpace, OF ttl this]
  show ?thesis
    using local_lock_mutual_exclusion [OF reach, of "''k''" "''A''" "1 + second" "''A''" "1 + second"] trim by simp
qed

text \<open>C3: The in-process limiter, for requests in order of time: in any interval as long as the window
  at most twice the limit get through for a key, and if no window of the key is running at the start
  of the interval, exactly the first \<open>limit\<close> requests do.\<close>

theorem memory_limiter_traffic:
  assumes "0 < limit" and "valid_ttl window" and "mem_inv a s" and "0 < a" and "sorted (map fst rs)"
    and "\<forall>(t, q) \<in> set rs. a \<le> t \<and> t < a + window" and "k \<noteq> []"
  shows "int (allowed_count (mem_allow limit window) TrimSpace k rs s) \<le> 2 * limit \<and>
    (mem_window window s a k = None \<longrightarrow>
       allowed_count (mem_allow limit window) TrimSpace k rs s = min (nat limit) (requests_for TrimSpace k rs))"
proof -
  note ex = mem_exact_window [OF assms(1,2)]
  note F = mem_fixed_window [OF assms(1,2)]
  have "\<forall>c e. mem_window window s a k = Some (c, e) \<longrightarrow> 0 \<le> c"
    using assms(3) by (auto simp: mem_window_def mem_inv_def)
  then have "int (allowed_count (mem_allow limit window) TrimSpace k rs s) \<le> 2 * limit"
    using fixed_window.traffic_bound [OF F, of a s rs k] assms by (simp split: if_splits)
  moreover have "allowed_count (mem_allow limit window) TrimSpace k rs s = min (nat limit) (requests_for TrimSpace k rs)"
    if "mem_window window s a k = None"
    using exact_window.exact_count [OF ex, of a s rs "a + window" k] assms that
    by (simp add: exact_window.covers_def [OF ex] exact_window.room_def [OF ex])
  ultimately show ?thesis by blast
qed

theorem memory_limiter_traffic_witness:
  "allowed_count (mem_allow 2 second) TrimSpace ''k'' [(1, ''k''), (2, ''k''), (3, ''k'')] NewMemoryLimiter = 2"
proof -
  have "TrimSpace ''k'' = ''k''" by (simp add: go_string_simps is_graphic_def)
  with memory_limiter_traffic [of 2 second 1 NewMemoryLimiter "[(1, ''k''), (2, ''k''), (3, ''k'')]" "''k''"] show ?thesis
    by (simp add: valid_ttl_def in_int64_def mem_inv_def NewMemoryLimiter_def mem_window_def requests_for_def)
qed

text \<open>C2: The Redis limiter, for requests in order of time over a link that may fail: in any interval
  as long as the window (in whole milliseconds, at least one) at most twice the limit get through for
  a key, and at most the limit if no window of the key is running at its start. The server is only
  assumed to behave as Redis documents its commands, and the limit to be exact as a Lua number.\<close>

theorem redis_limiter_traffic:
  assumes "redis_server r view" and "0 < limit" and "limit \<le> 9007199254740992" and "valid_ttl window"
    and "red_inv view p a s" and "0 < a" and "sorted (map fst rs)"
    and "\<forall>(t, q) \<in> set rs. a \<le> t \<and> t < a + expiry_of window"
  shows "int (allowed_count (red_allow r p limit window) (\<lambda>q. TrimSpace (snd q)) k rs s) \<le>
    (if red_window view p s a k = None then limit else 2 * limit)"
proof -
  have L: "redis_limiter r view limit window"
    using assms(1-4) by (simp add: redis_limiter_def limiter_settings_def)
  have "0 \<le> c" if "red_window view p s a k = Some (c, e)" for c e
  proof -
    have k: "k \<noteq> []" using that by (auto simp: red_window_def)
    with that redis_limiter.red_window_Some [OF L assms(5)]
    have v: "view s a (limiterKey p k) = Some \<lparr>rvalue = FormatInt c, deadline = Some e\<rparr>" and c: "in_int64 c" by auto
    from v obtain n d where "\<lparr>rvalue = FormatInt c, deadline = Some e\<rparr> = \<lparr>rvalue = FormatInt n, deadline = Some d\<rparr>"
      and n: "1 \<le> n" "n \<le> 9007199254740992" by (rule red_invE [OF assms(5)])
    then have "ParseInt (FormatInt c) = ParseInt (FormatInt n)" by simp
    with c n show ?thesis by (simp add: ParseInt_FormatInt in_int64_def)
  qed
  with redis_limiter.red_traffic_bound [OF L, of p a s rs k] assms(5-8) show ?thesis by simp
qed

theorem redis_limiter_traffic_witness:
  "int (allowed_count (red_allow mini_redis ''p:'' 1 second) (\<lambda>q. TrimSpace (snd q)) ''k''
     [(1, (Delivered, ''k'')), (2, (Delivered, ''k''))] Map.empty) \<le> 1"
  using redis_limiter_traffic [OF mini.redis_server_axioms, of 1 second "''p:''" 1 Map.empty
      "[(1, (Delivered, ''k'')), (2, (Delivered, ''k''))]" "''k''"]
  by (simp add: valid_ttl_def in_int64_def red_inv_def mini_view_def red_window_def expiry_of_def)

text \<open>C8: The rate-limit middleware fails closed: a request reaches the next handler only if the
  limiter has allowed it without an error. In particular, over the Redis limiter no request passes when
  the server cannot be reached or its answer is lost, when there is no client, or when the route has no
  key, no limit or no window.\<close>

theorem limiter_middleware_fails_closed:
  assumes "snd (GinMiddleware l limit window cfg_key s) = Next header"
  shows "(\<exists>allow s' d. l = Some allow \<and> allow (case cfg_key of None \<Rightarrow> [] | Some k \<Rightarrow> k) limit window s = (s', d, None) \<and>
            Allowed d \<and> header = FormatInt (Remaining d)) \<and>
         (\<forall>client link now p. l = Some (RedisLimiter_Allow (Some (GoRedisStore client link now, p))) \<longrightarrow>
            client \<noteq> None \<and> link = Delivered \<and> 0 < limit \<and> 0 < window \<and>
            (\<exists>k. cfg_key = Some k \<and> TrimSpace k \<noteq> []))"
proof -
  let ?k = "case cfg_key of None \<Rightarrow> [] | Some k \<Rightarrow> k"
  obtain allow s' d where *: "l = Some allow" "allow ?k limit window s = (s', d, None)" "Allowed d"
      "header = FormatInt (Remaining d)"
    using assms by (auto simp: GinMiddleware_def Let_def split: option.splits prod.splits if_splits)
  have "client \<noteq> None \<and> link = Delivered \<and> 0 < limit \<and> 0 < window \<and> TrimSpace ?k \<noteq> []"
    if "l = Some (RedisLimiter_Allow (Some (GoRedisStore client link now, p)))" for client link now p
    using * that
    by (cases link; cases client)
       (auto simp: RedisLimiter_Allow_def Let_def GoRedisStore_def GoRedis_EvalIntSlice_def client_call_def split: if_splits)
  moreover have "\<exists>k. cfg_key = Some k \<and> TrimSpace k \<noteq> []" if "TrimSpace ?k \<noteq> []"
    using that by (cases cfg_key) auto
  ultimately show ?thesis using * by blast
qed

theorem limiter_middleware_fails_closed_witness:
  "Allowed (snd (MemoryLimiter_Allow 1 ''k'' 1 second (Some NewMemoryLimiter)))"
proof -
  let ?l = "\<lambda>k limit window (s :: memory_limiter option).
      (case MemoryLimiter_Allow 1 k limit window s of (s, d) \<Rightarrow> (s, d, None :: go_error option))"
  have "TrimSpace ''k'' = ''k''" by (simp add: go_string_simps is_graphic_def)
  then have "snd (GinMiddleware (Some ?l) 1 second (Some ''k'') (Some NewMemoryLimiter)) = Next (FormatInt 0)"
    by (simp add: GinMiddleware_def MemoryLimiter_Allow_def NewMemoryLimiter_def Let_def IsZero_def)
  from limiter_middleware_fails_closed [OF this] show ?thesis by (auto split: prod.splits)
qed

end
