(* ===== verification/Go_Crypto.thy ===== *)
theory Go_Crypto
  imports Go_Strconv "HOL-Library.Word"
begin

unbundle bit_operations_syntax

text \<open>
  \<^verbatim>\<open>crypto/sha256\<close> and \<^verbatim>\<open>crypto/hmac\<close> as the components use them: SHA-256 of a byte string and the
  keyed hash built on it, after FIPS 180-4 and FIPS 198-1, on 32-bit words. Comparing two digests is
  equality of byte strings (\<^verbatim>\<open>hmac.Equal\<close> differs from it only in its running time).
\<close>

section \<open>SHA-256\<close>

text \<open>The constants are given the way the standard derives them: the first 32 bits of the fractional parts of the
  cube roots of the first 64 primes, and of the square roots of the first 8. A root is found bit by
  bit; 36 bits are enough for the roots of these primes scaled by \<open>2^32\<close>.\<close>

definition add_bit :: "nat \<Rightarrow> int \<Rightarrow> int \<Rightarrow> nat \<Rightarrow> int" where
  "add_bit k n r b = (if (r + 2 ^ b) ^ k \<le> n then r + 2 ^ b else r)"

definition iroot :: "nat \<Rightarrow> int \<Rightarrow> int" where
  "iroot k n = foldl (add_bit k n) 0 (rev [0..<36])"

definition small_primes :: "int list" where
  "small_primes = filter (\<lambda>p. list_all (\<lambda>d. p mod d \<noteq> 0) [2..p - 1]) [2..311]"

definition root_fraction :: "nat \<Rightarrow> int \<Rightarrow> 32 word" where
  "root_fraction k p = word_of_int (iroot k (p * 2 ^ (32 * k)))"

definition sha256_K :: "32 word list" where
  "sha256_K = map (root_fraction 3) small_primes"

type_synonym sha256_state =
  "32 word \<times> 32 word \<times> 32 word \<times> 32 word \<times> 32 word \<times> 32 word \<times> 32 word \<times> 32 word"

fun state_of :: "32 word list \<Rightarrow> sha256_state" where
  "state_of [a, b, c, d, e, f, g, h] = (a, b, c, d, e, f, g, h)"
| "state_of _ = (0, 0, 0, 0, 0, 0, 0, 0)"

definition sha256_init :: sha256_state where
  "sha256_init = state_of (map (root_fraction 2) (take 8 small_primes))"

text \<open>Big-endian bytes of a word, and back.\<close>

definition word_bytes :: "32 word \<Rightarrow> string" where
  "word_bytes w = map (\<lambda>i. char_of (unat (take_bit 8 (drop_bit (8 * (3 - i)) w)))) [0..<4]"

fun bytes_word :: "string \<Rightarrow> 32 word" where
  "bytes_word [] = 0"
| "bytes_word (c # cs) = push_bit (8 * length cs) (of_nat (byte_of c)) + bytes_word cs"

definition length_bytes :: "nat \<Rightarrow> string" where
  "length_bytes n = map (\<lambda>i. char_of (nat (8 * int n div 256 ^ (7 - i) mod 256))) [0..<8]"

definition sha256_pad :: "string \<Rightarrow> string" where
  "sha256_pad m = m @ char_of (0x80 :: nat) # replicate ((119 - length m mod 64) mod 64) (char_of (0 :: nat)) @ length_bytes (length m)"

fun chunks :: "nat \<Rightarrow> nat \<Rightarrow> string \<Rightarrow> string list" where
  "chunks k 0 s = []"
| "chunks k (Suc n) s = take k s # chunks k n (drop k s)"

text \<open>The message schedule, kept in reverse: each new word comes from the sixteen before it.\<close>

fun sha256_extend :: "nat \<Rightarrow> 32 word list \<Rightarrow> 32 word list" where
  "sha256_extend 0 ws = ws"
| "sha256_extend (Suc n) ws =
     (let w15 = ws ! 14; w2 = ws ! 1;
          s0 = word_rotr 7 w15 XOR word_rotr 18 w15 XOR drop_bit 3 w15;
          s1 = word_rotr 17 w2 XOR word_rotr 19 w2 XOR drop_bit 10 w2
      in sha256_extend n ((ws ! 15 + s0 + ws ! 6 + s1) # ws))"

definition sha256_schedule :: "string \<Rightarrow> 32 word list" where
  "sha256_schedule block = rev (sha256_extend 48 (rev (map bytes_word (chunks 4 16 block))))"

fun sha256_round :: "sha256_state \<Rightarrow> 32 word \<times> 32 word \<Rightarrow> sha256_state" where
  "sha256_round (a, b, c, d, e, f, g, h) (k, w) =
     (let s1 = word_rotr 6 e XOR word_rotr 11 e XOR word_rotr 25 e;
          ch = (e AND f) XOR (NOT e AND g);
          t1 = h + s1 + ch + k + w;
          s0 = word_rotr 2 a XOR word_rotr 13 a XOR word_rotr 22 a;
          maj = (a AND b) XOR (a AND c) XOR (b AND c);
          t2 = s0 + maj
      in (t1 + t2, a, b, c, d + t1, e, f, g))"

fun sha256_add :: "sha256_state \<Rightarrow> sha256_state \<Rightarrow> sha256_state" where
  "sha256_add (a, b, c, d, e, f, g, h) (a', b', c', d', e', f', g', h') =
     (a + a', b + b', c + c', d + d', e + e', f + f', g + g', h + h')"

definition sha256_block :: "sha256_state \<Rightarrow> string \<Rightarrow> sha256_state" where
  "sha256_block st block = sha256_add st (foldl sha256_round st (zip sha256_K (sha256_schedule block)))"

definition Sum256 :: "string \<Rightarrow> string" where
  "Sum256 m =
     (let p = sha256_pad m
      in case foldl sha256_block sha256_init (chunks 64 (length p div 64) p) of
           (a, b, c, d, e, f, g, h) \<Rightarrow> concat (map word_bytes [a, b, c, d, e, f, g, h]))"

section \<open>HMAC\<close>

definition xor_byte :: "8 word \<Rightarrow> char \<Rightarrow> char" where
  "xor_byte b c = char_of (unat (of_nat (byte_of c) XOR b))"

definition hmac_key :: "string \<Rightarrow> string" where
  "hmac_key k = (let k = (if length k > 64 then Sum256 k else k) in k @ replicate (64 - length k) (char_of (0 :: nat)))"

definition hmac_sha256 :: "string \<Rightarrow> string \<Rightarrow> string" where
  "hmac_sha256 k m = Sum256 (map (xor_byte 0x5c) (hmac_key k) @ Sum256 (map (xor_byte 0x36) (hmac_key k) @ m))"

lemma add_bit_roots:
  assumes "r ^ k \<le> n" and "n < (r + 2 ^ m) ^ k"
  shows "foldl (add_bit k n) r (rev [0..<m]) ^ k \<le> n \<and> n < (foldl (add_bit k n) r (rev [0..<m]) + 1) ^ k"
  using assms
proof (induction m arbitrary: r)
  case (Suc m)
  have "r + 2 ^ Suc m = (r + 2 ^ m) + 2 ^ m" by simp
  with Suc.prems have "add_bit k n r m ^ k \<le> n \<and> n < (add_bit k n r m + 2 ^ m) ^ k"
    by (simp add: add_bit_def del: power_Suc)
  then show ?case using Suc.IH [of "add_bit k n r m"] by simp
qed simp

lemma iroot_is_root:
  assumes "0 < k" and "0 \<le> n" and "n < (2 ^ 36) ^ k"
  shows "iroot k n ^ k \<le> n \<and> n < (iroot k n + 1) ^ k"
  unfolding iroot_def by (rule add_bit_roots) (use assms in \<open>simp_all add: zero_power\<close>)

lemma length_word_bytes [simp]: "length (word_bytes w) = 4"
  by (simp add: word_bytes_def)

lemma length_Sum256 [simp]: "length (Sum256 m) = 32"
  by (simp add: Sum256_def Let_def split: prod.splits)

lemma length_hmac [simp]: "length (hmac_sha256 k m) = 32"
  by (simp add: hmac_sha256_def)

lemma Sum256_not_Nil [simp]: "Sum256 m \<noteq> []" "hmac_sha256 k m \<noteq> []"
  using length_Sum256 [of m] length_hmac [of k m] by (metis list.size(3) zero_neq_numeral)+

end
