(* ===== verification/Webhook.thy ===== *)
theory Webhook
  imports Go_Time Go_Crypto
begin

text \<open>
  \<^verbatim>\<open>webhook/webhook.go\<close>: signing and verifying webhook deliveries. The header carries a Unix timestamp
  and the hexadecimal HMAC-SHA256 of the timestamp and the payload.
\<close>

section \<open>Signing\<close>

definition TimestampPrefix :: string where
  "TimestampPrefix = ''t=''"

definition SignaturePrefix :: string where
  "SignaturePrefix = ''v1=''"

definition ErrInvalidSecret :: go_error where
  "ErrInvalidSecret = ErrorNew ''webhook: invalid secret''"

definition ErrInvalidSignature :: go_error where
  "ErrInvalidSignature = ErrorNew ''webhook: invalid signature''"

definition ErrTimestampSkew :: go_error where
  "ErrTimestampSkew = ErrorNew ''webhook: timestamp outside tolerance''"

definition ComputeSignature :: "string \<Rightarrow> int \<Rightarrow> string \<Rightarrow> string" where
  "ComputeSignature secret timestamp payload =
     EncodeToString (hmac_sha256 secret (FormatInt timestamp @ ''.'' @ payload))"

definition SignHeader :: "string \<Rightarrow> go_time \<Rightarrow> string \<Rightarrow> go_error + string" where
  "SignHeader secret timestamp payload =
     (if TrimSpace secret = [] then Inl ErrInvalidSecret
      else let unix = Unix timestamp
           in Inr (''t='' @ FormatInt unix @ '',v1='' @ ComputeSignature secret unix payload))"

section \<open>Verifying\<close>

text \<open>The loop over the comma-separated parts, with the timestamp and signature found so far.\<close>

fun parse_parts :: "string list \<Rightarrow> int \<Rightarrow> string \<Rightarrow> go_error + int \<times> string" where
  "parse_parts [] timestamp signature = Inr (timestamp, signature)"
| "parse_parts (part # parts) timestamp signature =
     (let part = TrimSpace part
      in if HasPrefix part TimestampPrefix
         then case ParseInt (TrimPrefix part TimestampPrefix) of
                (parsed, err) \<Rightarrow>
                  if err \<noteq> None \<or> parsed \<le> 0 then Inl ErrInvalidSignature
                  else parse_parts parts parsed signature
         else if HasPrefix part SignaturePrefix
         then parse_parts parts timestamp (TrimPrefix part SignaturePrefix)
         else parse_parts parts timestamp signature)"

definition ParseHeader :: "string \<Rightarrow> go_error + int \<times> string" where
  "ParseHeader header =
     (case parse_parts (SplitByte CHR '','' header) 0 [] of
        Inl err \<Rightarrow> Inl err
      | Inr (timestamp, signature) \<Rightarrow>
          if timestamp = 0 \<or> signature = [] then Inl ErrInvalidSignature
          else if DecodeString signature = None then Inl ErrInvalidSignature
          else Inr (timestamp, signature))"

definition absDuration :: "duration \<Rightarrow> duration" where
  "absDuration d = (if d < 0 then wrap64 (- d) else d)"

definition VerifyHeader :: "string \<Rightarrow> string \<Rightarrow> string \<Rightarrow> go_time \<Rightarrow> duration \<Rightarrow> go_error option" where
  "VerifyHeader secret header payload now tolerance =
     (if TrimSpace secret = [] then Some ErrInvalidSecret
      else case ParseHeader header of
             Inl err \<Rightarrow> Some err
           | Inr (timestamp, signature) \<Rightarrow>
               if tolerance > 0 \<and> absDuration (Sub now (time_Unix timestamp)) > tolerance then Some ErrTimestampSkew
               else if ComputeSignature secret timestamp payload \<noteq> signature then Some ErrInvalidSignature
               else None)"

section \<open>Lemmas\<close>

lemma parse_parts_pos:
  "parse_parts parts ts sig = Inr (ts', sig') \<Longrightarrow> 0 \<le> ts \<Longrightarrow> in_int64 ts \<Longrightarrow> 0 \<le> ts' \<and> in_int64 ts'"
proof (induction parts arbitrary: ts sig)
  case (Cons part parts)
  show ?case
  proof (cases "ParseInt (TrimPrefix (TrimSpace part) TimestampPrefix)")
    case (Pair parsed err)
    with ParseInt_in_int64 [of "TrimPrefix (TrimSpace part) TimestampPrefix"] have "in_int64 parsed" by simp
    with Cons Pair show ?thesis by (auto simp: Let_def split: if_splits)
  qed
qed auto

lemma ParseHeader_pos: "ParseHeader header = Inr (ts, sig) \<Longrightarrow> 0 < ts \<and> in_int64 ts"
  unfolding ParseHeader_def
  using parse_parts_pos [of "SplitByte CHR '','' header" 0 "[]"]
  by (fastforce simp: in_int64_def split: sum.splits prod.splits if_splits)

lemma EncodeToString_inj [simp]: "EncodeToString s = EncodeToString t \<longleftrightarrow> s = t"
  by (metis DecodeString_EncodeToString option.inject)

lemma TrimSpace_graphic_all: "list_all is_graphic s \<Longrightarrow> TrimSpace s = s"
proof (cases "s = []")
  case False
  assume "list_all is_graphic s"
  with False have "is_graphic (hd s)" "is_graphic (last s)" by (auto simp: list_all_iff)
  with False show ?thesis by (rule TrimSpace_graphic)
qed simp

lemma ParseHeader_signed:
  assumes "0 < ts" and "in_int64 ts" and "mac \<noteq> []"
  shows "ParseHeader (''t='' @ FormatInt ts @ '',v1='' @ EncodeToString mac) = Inr (ts, EncodeToString mac)"
proof -
  let ?t = "''t='' @ FormatInt ts" and ?v = "''v1='' @ EncodeToString mac"
  have split: "SplitByte CHR '','' (?t @ CHR '','' # ?v) = [?t, ?v]"
    using FormatInt_no_comma [of ts] EncodeToString_no_comma [of mac]
    by (subst SplitByte_append) (auto simp: SplitByte_plain)
  have "TrimSpace ?t = ?t" "TrimSpace ?v = ?v"
    using FormatInt_graphic [of ts] EncodeToString_graphic [of mac]
    by (auto intro!: TrimSpace_graphic_all simp: is_graphic_def)
  moreover have "EncodeToString mac \<noteq> []" using assms(3) by (cases mac) auto
  ultimately show ?thesis
    using split assms
    by (simp add: ParseHeader_def Let_def TimestampPrefix_def SignaturePrefix_def TrimPrefix_def ParseInt_FormatInt
        DecodeString_EncodeToString)
qed

text \<open>The skew check in mathematical terms: the distance is at most the tolerance, or the timestamp
  is so far in the future that the duration saturates and its absolute value overflows.\<close>

lemma absDuration_Sub:
  assumes "0 < tol" and "tol < max_int64"
  shows "absDuration (Sub now t) \<le> tol \<longleftrightarrow> \<bar>now - t\<bar> \<le> tol \<or> now - t \<le> min_int64"
proof -
  consider "now - t \<le> min_int64" | "min_int64 < now - t" "now - t < 0" | "0 \<le> now - t" "now - t \<le> max_int64"
    | "max_int64 < now - t" by linarith
  then show ?thesis
  proof cases
    case 1
    then have "Sub now t = min_int64" by (auto simp: Sub_def in_int64_def)
    then have "absDuration (Sub now t) = min_int64" by (simp add: absDuration_def wrap64_def)
    with 1 assms show ?thesis by simp
  next
    case 2
    then have "Sub now t = now - t" and "wrap64 (t - now) = t - now"
      by (auto simp: Sub_def in_int64_def intro: wrap64_id)
    with 2 show ?thesis by (simp add: absDuration_def)
  next
    case 3
    then have "Sub now t = now - t" by (simp add: Sub_def in_int64_def)
    with 3 show ?thesis by (simp add: absDuration_def)
  next
    case 4
    then have "Sub now t = max_int64" by (auto simp: Sub_def in_int64_def)
    with 4 assms show ?thesis by (simp add: absDuration_def)
  qed
qed

section \<open>Properties\<close>

text \<open>C12: Round trip of signing and verifying. A delivery signed at a time after the Unix epoch, and
  verified with any secret that is not blank and any payload, fails with the timestamp error exactly
  when it is outside the tolerance, and otherwise is accepted exactly when the two HMAC values agree;
  so the same secret and payload are always accepted, and an accepted forgery is a collision of
  HMAC-SHA256.\<close>

theorem verify_signed:
  assumes "SignHeader secret ts payload = Inr header" and "0 < Unix ts" and "in_int64 (Unix ts)"
    and "TrimSpace secret' \<noteq> []"
  shows "VerifyHeader secret' header payload' now tol =
    (if 0 < tol \<and> tol < absDuration (Sub now (time_Unix (Unix ts))) then Some ErrTimestampSkew
     else if hmac_sha256 secret' (FormatInt (Unix ts) @ ''.'' @ payload') = hmac_sha256 secret (FormatInt (Unix ts) @ ''.'' @ payload)
     then None else Some ErrInvalidSignature)"
proof -
  have header: "header = ''t='' @ FormatInt (Unix ts) @ '',v1='' @ ComputeSignature secret (Unix ts) payload"
    using assms(1) by (auto simp: SignHeader_def Let_def split: if_splits)
  show ?thesis
    unfolding VerifyHeader_def header ComputeSignature_def
    using ParseHeader_signed [OF assms(2,3), of "hmac_sha256 secret (FormatInt (Unix ts) @ ''.'' @ payload)"] assms(4)
    by simp
qed

theorem verify_signed_witness:
  "\<exists>h. SignHeader ''k'' (time_Unix 100) ''p'' = Inr h \<and> VerifyHeader ''k'' h ''p'' (time_Unix 105) (10 * second) = None"
proof -
  have k: "TrimSpace ''k'' = ''k''" by (simp add: go_string_simps is_graphic_def)
  then obtain h where h: "SignHeader ''k'' (time_Unix 100) ''p'' = Inr h" by (simp add: SignHeader_def Let_def)
  have u: "Unix (time_Unix 100) = 100" by (rule Unix_time_Unix) (simp add: in_int64_def)
  have "absDuration (Sub (time_Unix 105) (time_Unix 100)) = 5 * second"
    by (simp add: absDuration_def Sub_def time_Unix_def wrap64_def in_int64_def)
  with verify_signed [OF h, of "''k''" "''p''" "time_Unix 105" "10 * second"] u k h show ?thesis
    by (simp add: in_int64_def)
qed

text \<open>C13: What acceptance means. An accepted header carries a positive timestamp and the HMAC of
  exactly this timestamp and payload under the secret, and with a tolerance the timestamp is at most
  that far from the clock, or at least \<open>2^63\<close> nanoseconds (some 292 years) in the future.\<close>

theorem verify_sound:
  assumes "VerifyHeader secret header payload now tol = None" and "tol < max_int64"
  shows "TrimSpace secret \<noteq> [] \<and> (\<exists>ts. ParseHeader header = Inr (ts, ComputeSignature secret ts payload) \<and>
    0 < ts \<and> in_int64 ts \<and>
    (0 < tol \<longrightarrow> \<bar>now - time_Unix ts\<bar> \<le> tol \<or> now - time_Unix ts \<le> min_int64))"
proof -
  obtain ts sig where p: "ParseHeader header = Inr (ts, sig)" and sig: "sig = ComputeSignature secret ts payload"
    and tol: "0 < tol \<longrightarrow> absDuration (Sub now (time_Unix ts)) \<le> tol" and "TrimSpace secret \<noteq> []"
    using assms(1) by (auto simp: VerifyHeader_def split: if_splits sum.splits)
  moreover have "0 < tol \<longrightarrow> \<bar>now - time_Unix ts\<bar> \<le> tol \<or> now - time_Unix ts \<le> min_int64"
    using tol absDuration_Sub [OF _ assms(2)] by blast
  ultimately show ?thesis using ParseHeader_pos [OF p] by blast
qed

theorem verify_sound_witness:
  "\<exists>h ts. ParseHeader h = Inr (ts, ComputeSignature ''k'' ts ''p'')"
proof -
  have k: "TrimSpace ''k'' = ''k''" by (simp add: go_string_simps is_graphic_def)
  let ?h = "''t='' @ FormatInt 7 @ '',v1='' @ ComputeSignature ''k'' 7 ''p''"
  have "ParseHeader ?h = Inr (7, ComputeSignature ''k'' 7 ''p'')"
    unfolding ComputeSignature_def by (rule ParseHeader_signed) (simp_all add: in_int64_def)
  with k have "VerifyHeader ''k'' ?h ''p'' 0 0 = None" by (simp add: VerifyHeader_def)
  from verify_sound [OF this] show ?thesis by (auto simp: in_int64_def)
qed

text \<open>C14: The skew check does not reject every timestamp outside the tolerance: a correctly signed
  delivery whose timestamp lies \<open>2^63\<close> nanoseconds or more in the future passes any tolerance, because
  \<^verbatim>\<open>Sub\<close> saturates at the least duration and \<^verbatim>\<open>absDuration\<close> of it is negative.\<close>

theorem far_future_accepted:
  assumes "TrimSpace secret \<noteq> []" and "0 < ts" and "in_int64 ts" and "now - time_Unix ts \<le> min_int64" and "tol < max_int64"
  shows "VerifyHeader secret (''t='' @ FormatInt ts @ '',v1='' @ ComputeSignature secret ts payload) payload now tol = None"
proof -
  have "ParseHeader (''t='' @ FormatInt ts @ '',v1='' @ ComputeSignature secret ts payload) =
      Inr (ts, ComputeSignature secret ts payload)"
    unfolding ComputeSignature_def by (rule ParseHeader_signed [OF assms(2,3)]) simp
  moreover have "\<not> (0 < tol \<and> tol < absDuration (Sub now (time_Unix ts)))"
    using absDuration_Sub [of tol now "time_Unix ts"] assms(4,5) by auto
  ultimately show ?thesis using assms(1) by (simp add: VerifyHeader_def)
qed

theorem far_future_accepted_witness:
  "VerifyHeader ''k'' (''t='' @ FormatInt (2 ^ 62) @ '',v1='' @ ComputeSignature ''k'' (2 ^ 62) ''p'') ''p''
     (time_Unix 1700000000) (5 * minute) = None"
proof -
  have "TrimSpace ''k'' \<noteq> []" by (simp add: go_string_simps is_graphic_def)
  then show ?thesis
    by (rule far_future_accepted) (simp_all add: in_int64_def time_Unix_def wrap64_def)
qed

end
