(* ===== verification/Rbac.thy ===== *)
theory Rbac
  imports Go_Strings "HOL-Library.Sublist"
begin

text \<open>
  \<^verbatim>\<open>rbac/rbac.go\<close>: permission codes with suffix wildcards. The matching routine works on strings; the
  reference definition \<open>grants\<close> works on the dot-separated segments of a code.
\<close>

section \<open>Matching\<close>

definition ErrPermissionDenied :: go_error where
  "ErrPermissionDenied = ErrorNew ''rbac: permission denied''"

definition PermissionMatches :: "string \<Rightarrow> string \<Rightarrow> bool" where
  "PermissionMatches granted requested =
     (let granted = TrimSpace granted; requested = TrimSpace requested
      in if granted = [] \<or> requested = [] then False
         else if granted = ''*'' \<or> granted = requested then True
         else if HasSuffix granted ''.*''
         then let p = TrimSuffix granted ''.*'' in requested = p \<or> HasPrefix requested (p @ ''.'')
         else False)"

fun IsAllowed :: "string list \<Rightarrow> string \<Rightarrow> bool" where
  "IsAllowed [] requested = False"
| "IsAllowed (code # granted) requested = (if PermissionMatches code requested then True else IsAllowed granted requested)"

text \<open>The dynamic types \<^verbatim>\<open>CheckPermission\<close> distinguishes: a slice of codes, a value with a
  \<^verbatim>\<open>PermissionCodes\<close> method (with what it returns), anything else.\<close>

datatype subject = StringSlice "string list" | PermissionCoder "string list" | OtherSubject

fun permissionCodes :: "subject \<Rightarrow> string list" where
  "permissionCodes (StringSlice v) = v"
| "permissionCodes (PermissionCoder v) = v"
| "permissionCodes OtherSubject = []"

definition CheckPermission :: "subject \<Rightarrow> string \<Rightarrow> string \<Rightarrow> go_error option" where
  "CheckPermission subject resource action =
     (let resource = TrimByte CHR ''.'' (TrimSpace resource);
          action = TrimByte CHR ''.'' (TrimSpace action)
      in if resource = [] \<or> action = [] then Some ErrPermissionDenied
         else let requested = resource @ ''.'' @ action
              in if requested = ''.'' then Some ErrPermissionDenied
                 else if IsAllowed (permissionCodes subject) requested then None
                 else Some ErrPermissionDenied)"

section \<open>Reference semantics on segments\<close>

definition segments :: "string \<Rightarrow> string list" where
  "segments s = SplitByte CHR ''.'' s"

definition grants :: "string \<Rightarrow> string \<Rightarrow> bool" where
  "grants g r \<longleftrightarrow> g \<noteq> [] \<and> r \<noteq> [] \<and>
     (g = ''*'' \<or> g = r \<or> (segments g \<noteq> [] \<and> last (segments g) = ''*'' \<and> length (segments g) \<ge> 2 \<and>
                          prefix (butlast (segments g)) (segments r)))"

lemma segments_append_dot: "segments (p @ CHR ''.'' # t) = segments p @ segments t"
  unfolding segments_def by (induction p) (auto split: list.splits)

lemma segments_inj: "segments s = segments t \<Longrightarrow> s = t"
  unfolding segments_def by (metis Join_SplitByte)

lemma segments_plain: "CHR ''.'' \<notin> set s \<Longrightarrow> segments s = [s]"
  by (simp add: segments_def SplitByte_plain)

lemma Join_dot_append:
  "xs \<noteq> [] \<Longrightarrow> ys \<noteq> [] \<Longrightarrow> Join (xs @ ys) ''.'' = Join xs ''.'' @ ''.'' @ Join ys ''.''"
proof (induction xs)
  case (Cons a xs)
  then show ?case by (cases "xs = []") (simp_all add: Join_Cons)
qed simp

lemma segments_prefix:
  "prefix (segments p) (segments r) \<longleftrightarrow> r = p \<or> (\<exists>t. r = p @ ''.'' @ t)"
proof
  assume "prefix (segments p) (segments r)"
  then obtain ys where ys: "segments r = segments p @ ys" by (auto elim: prefixE)
  show "r = p \<or> (\<exists>t. r = p @ ''.'' @ t)"
  proof (cases "ys = []")
    case True
    with ys have "r = p" by (intro segments_inj) simp
    then show ?thesis ..
  next
    case False
    have "r = Join (segments r) ''.''" by (simp add: segments_def Join_SplitByte)
    also have "\<dots> = Join (segments p) ''.'' @ ''.'' @ Join ys ''.''"
      unfolding ys by (rule Join_dot_append [OF _ False]) (simp add: segments_def)
    finally show ?thesis by (auto simp: segments_def Join_SplitByte)
  qed
next
  assume "r = p \<or> (\<exists>t. r = p @ ''.'' @ t)"
  then show "prefix (segments p) (segments r)" by (auto simp: segments_append_dot)
qed

lemma segments_wildcard:
  "(segments g \<noteq> [] \<and> last (segments g) = ''*'' \<and> length (segments g) \<ge> 2) \<longleftrightarrow> (\<exists>p. g = p @ ''.*'')"
proof
  assume g: "segments g \<noteq> [] \<and> last (segments g) = ''*'' \<and> length (segments g) \<ge> 2"
  then have "butlast (segments g) \<noteq> []" by (cases "segments g") auto
  moreover have "segments g = butlast (segments g) @ [''*'']" using g by (metis append_butlast_last_id)
  ultimately have "Join (segments g) ''.'' = Join (butlast (segments g)) ''.'' @ ''.*''"
    by (metis Join.simps(2) Join_dot_append append_Cons append_Nil list.discI)
  then have "g = Join (butlast (segments g)) ''.'' @ ''.*''" by (simp add: segments_def Join_SplitByte)
  then show "\<exists>p. g = p @ ''.*''" by blast
next
  assume "\<exists>p. g = p @ ''.*''"
  then obtain p where "segments g = segments p @ [''*'']"
    using segments_append_dot [of _ "''*''"] by (auto simp: segments_plain)
  then show "segments g \<noteq> [] \<and> last (segments g) = ''*'' \<and> length (segments g) \<ge> 2"
    by (cases "segments p") (auto simp: segments_def)
qed

lemma butlast_segments_wildcard: "butlast (segments (p @ ''.*'')) = segments p"
  using segments_append_dot [of p "''*''"] by (simp add: segments_plain)

lemma IsAllowed_iff: "IsAllowed granted requested \<longleftrightarrow> (\<exists>code \<in> set granted. PermissionMatches code requested)"
  by (induction granted) auto

lemma PermissionMatches_grants:
  "PermissionMatches granted requested \<longleftrightarrow> grants (TrimSpace granted) (TrimSpace requested)"
proof -
  have "(HasSuffix g ''.*'' \<and> (r = TrimSuffix g ''.*'' \<or> HasPrefix r (TrimSuffix g ''.*'' @ ''.''))) \<longleftrightarrow>
      (segments g \<noteq> [] \<and> last (segments g) = ''*'' \<and> length (segments g) \<ge> 2 \<and>
       prefix (butlast (segments g)) (segments r))" (is "?L \<longleftrightarrow> ?R") for g r
  proof (cases "\<exists>p. g = p @ ''.*''")
    case True
    then obtain p where g: "g = p @ ''.*''" ..
    then have "?R \<longleftrightarrow> prefix (segments p) (segments r)"
      using segments_wildcard [of g] butlast_segments_wildcard [of p] by auto
    also have "\<dots> \<longleftrightarrow> r = p \<or> HasPrefix r (p @ ''.'')" by (simp add: segments_prefix HasPrefix_iff)
    finally show ?thesis using g by simp
  next
    case False
    then have "\<not> HasSuffix g ''.*''" by (simp add: HasSuffix_iff)
    with False segments_wildcard [of g] show ?thesis by blast
  qed
  from this [of "TrimSpace granted" "TrimSpace requested"] show ?thesis
    by (auto simp: PermissionMatches_def grants_def Let_def)
qed

section \<open>Properties\<close>

text \<open>C15: The string routine computes the intended relation on codes: after trimming, the grant is
  \<^verbatim>\<open>*\<close>, or equal to the request, or its last of at least two segments is \<^verbatim>\<open>*\<close> and the segments before
  it are an initial part of the request's. So a wildcard never matches in the middle of a segment.\<close>

theorem permission_matches_segments:
  "PermissionMatches granted requested \<longleftrightarrow> grants (TrimSpace granted) (TrimSpace requested)"
  by (rule PermissionMatches_grants)

text \<open>\<^verbatim>\<open>CheckPermission\<close> fails closed: it succeeds exactly when resource and action are both
  non-empty after trimming blanks and dots and one of the subject's codes grants the joined code. A
  subject of an unknown type has no codes, so it is always refused, and adding codes never takes a
  permission away.\<close>

theorem check_permission_fails_closed:
  "(CheckPermission subject resource action = None \<longleftrightarrow>
      TrimByte CHR ''.'' (TrimSpace resource) \<noteq> [] \<and> TrimByte CHR ''.'' (TrimSpace action) \<noteq> [] \<and>
      (\<exists>code \<in> set (permissionCodes subject). grants (TrimSpace code)
         (TrimSpace (TrimByte CHR ''.'' (TrimSpace resource) @ ''.'' @ TrimByte CHR ''.'' (TrimSpace action))))) \<and>
   CheckPermission OtherSubject resource action = Some ErrPermissionDenied"
proof -
  have "r @ CHR ''.'' # a \<noteq> ''.''" if "r \<noteq> []" for r a :: string using that by (cases r) auto
  then show ?thesis by (auto simp: CheckPermission_def Let_def IsAllowed_iff PermissionMatches_grants)
qed

end
