(* ===== verification/Job.thy ===== *)
theory Job
  imports Go_Float
begin

text \<open>
  \<^verbatim>\<open>job/job.go\<close> and \<^verbatim>\<open>job/cronguard.go\<close>: job leases, the exponential backoff policy (in floating point,
  as the code computes it) and the cron expression guard; with them \<^verbatim>\<open>utils/backoff.go\<close> and
  \<^verbatim>\<open>timeutil/backoff.go\<close>, which compute backoff delays too.
\<close>

section \<open>Leases\<close>







section \<open>Backoff policy\<close>

definition ErrInvalidBackoffPolicy :: go_error where
  "ErrInvalidBackoffPolicy = ErrorNew ''job: invalid backoff policy''"

record backoff_policy =
  Base :: duration
  Max :: duration
  Multiplier :: float64

definition DefaultBackoffPolicy :: backoff_policy where
  "DefaultBackoffPolicy = \<lparr>Base = second, Max = 5 * minute, Multiplier = Fin 2\<rparr>"

definition WithDefaults :: "backoff_policy \<Rightarrow> backoff_policy" where
  "WithDefaults p =
     (let defaults = DefaultBackoffPolicy;
          p = (if Base p = 0 then p\<lparr>Base := Base defaults\<rparr> else p);
          p = (if Max p = 0 then p\<lparr>Max := Max defaults\<rparr> else p)
      in if Multiplier p = Fin 0 then p\<lparr>Multiplier := Multiplier defaults\<rparr> else p)"

definition Validate :: "backoff_policy \<Rightarrow> go_error option" where
  "Validate p =
     (let p = WithDefaults p
      in if Base p \<le> 0 \<or> Max p \<le> 0 \<or> float_less (Multiplier p) (Fin 1) \<or> Base p > Max p
         then Some ErrInvalidBackoffPolicy else None)"

definition Delay :: "(float64 \<Rightarrow> int) \<Rightarrow> backoff_policy \<Rightarrow> int \<Rightarrow> go_error + duration" where
  "Delay conv p attempt =
     (let p = WithDefaults p
      in case Validate p of
           Some err \<Rightarrow> Inl err
         | None \<Rightarrow>
             (let attempt = (if attempt < 0 then 0 else attempt);
                  delay = float_of_int (Base p);
                  delay = (if attempt > 0 then float_mul delay (go_pow (Multiplier p) attempt) else delay)
              in if float_ge delay (float_of_int (Max p)) then Inr (Max p)
                 else Inr (float_to_int64 conv delay)))"

definition NextRunAfter :: "(float64 \<Rightarrow> int) \<Rightarrow> backoff_policy \<Rightarrow> go_time \<Rightarrow> int \<Rightarrow> go_error + go_time" where
  "NextRunAfter conv p now attempt =
     (case Delay conv p attempt of Inl err \<Rightarrow> Inl err | Inr delay \<Rightarrow> Inr (Add now delay))"

section \<open>utils/backoff.go\<close>

definition ErrNegativeRetryCount :: go_error where
  "ErrNegativeRetryCount = ErrorNew ''utils: retryCount must be >= 0''"



record calculator =
  policy :: backoff_policy
  maxRetry :: int


definition NewCalculator :: "duration \<Rightarrow> float64 \<Rightarrow> duration \<Rightarrow> int \<Rightarrow> go_error + calculator" where
  "NewCalculator initial multiplier maxCap max_retry =
     (if max_retry < 0 then Inl ErrNegativeRetryCount
      else let p = \<lparr>Base = initial, Max = maxCap, Multiplier = multiplier\<rparr>
           in case Validate p of
                Some err \<Rightarrow> Inl err
              | None \<Rightarrow> Inr \<lparr>policy = p, maxRetry = max_retry\<rparr>)"

definition CalculateBackoff :: "(float64 \<Rightarrow> int) \<Rightarrow> calculator \<Rightarrow> int \<Rightarrow> go_error + duration" where
  "CalculateBackoff conv c retryCount =
     (if retryCount < 0 then Inl ErrNegativeRetryCount
      else let attempt = retryCount - 1;
               attempt = (if attempt < 0 then 0 else attempt)
           in Delay conv (policy c) attempt)"

text \<open>\<open>now\<close> is \<^verbatim>\<open>time.Now()\<close>, read when there is no last retry.\<close>

definition CalculateNextRetryTime ::
  "(float64 \<Rightarrow> int) \<Rightarrow> calculator \<Rightarrow> go_time \<Rightarrow> go_time \<Rightarrow> int \<Rightarrow> go_error + go_time" where
  "CalculateNextRetryTime conv c now lastRetryTime retryCount =
     (case CalculateBackoff conv c retryCount of
        Inl err \<Rightarrow> Inl err
      | Inr delay \<Rightarrow> Inr (Add (if IsZero lastRetryTime then now else lastRetryTime) delay))"

definition ShouldRetry :: "calculator \<Rightarrow> int \<Rightarrow> bool" where
  "ShouldRetry c retryCount = (let retryCount = (if retryCount < 0 then 0 else retryCount) in retryCount < maxRetry c)"

definition IsPermanentFailure :: "calculator \<Rightarrow> int \<Rightarrow> bool" where
  "IsPermanentFailure c retryCount = (let retryCount = (if retryCount < 0 then 0 else retryCount) in retryCount \<ge> maxRetry c)"

section \<open>timeutil/backoff.go\<close>

definition timeutil_Backoff :: "(float64 \<Rightarrow> int) \<Rightarrow> int \<Rightarrow> duration \<Rightarrow> duration \<Rightarrow> duration" where
  "timeutil_Backoff conv attempt initialInterval maxInterval =
     (let d = float_to_int64 conv (float_mul (float_of_int initialInterval) (go_pow (Fin 2) attempt))
      in if d > maxInterval then maxInterval else d)"

definition timeutil_ShouldRetry :: "int \<Rightarrow> int \<Rightarrow> bool" where
  "timeutil_ShouldRetry attempt maxRetries \<longleftrightarrow> attempt < maxRetries"

section \<open>Cron expressions\<close>

definition ErrCronSixField :: go_error where
  "ErrCronSixField = ErrorNew (''cron: 6-field detected (Quartz format with leading seconds field); '' @
     ''remove the leading seconds field to get a 5-field robfig/cron expression'')"

text \<open>The dash of the messages, in UTF-8.\<close>

abbreviation em_dash :: string where
  "em_dash \<equiv> [CHR 0xE2, CHR 0x80, CHR 0x94]"

definition ErrCronQuartzChar :: go_error where
  "ErrCronQuartzChar = ErrorNew (''cron: Quartz-only metacharacter detected ('' @ [CHR 0x27] @ ''?'' @ [CHR 0x27] @ '', '' @
     [CHR 0x27] @ ''L'' @ [CHR 0x27] @ '', '' @ [CHR 0x27] @ ''W'' @ [CHR 0x27] @ '', '' @ [CHR 0x27] @ ''#'' @ [CHR 0x27] @
     ''); these are not supported by robfig/cron '' @ em_dash @ '' replace with standard POSIX cron equivalents'')"

definition ErrCronMissingTZ :: go_error where
  "ErrCronMissingTZ = ErrorNew (''cron: no explicit timezone; prefix with CRON_TZ=UTC for UTC or CRON_TZ=Asia/Shanghai '' @
     ''for Beijing time '' @ em_dash @ '' implicit timezone is rejected to prevent UTC/JVM-TZ drift'')"

abbreviation cron_tz :: string where
  "cron_tz \<equiv> ''CRON_TZ=''"

text \<open>Step 1 of \<^verbatim>\<open>Normalize\<close>: whether there is a time zone prefix, and the schedule part. A
  wrapping \<^verbatim>\<open>fmt.Errorf\<close> is kept as its format string and the error it wraps.\<close>

definition cron_schedule :: "string \<Rightarrow> go_error + bool \<times> string" where
  "cron_schedule expr =
     (if HasPrefix expr cron_tz
      then let rest = drop (length cron_tz) expr
           in case IndexByte rest CHR '' '' of
                None \<Rightarrow> Inl (Errorf (''cron: malformed CRON_TZ prefix '' @ em_dash @ '' expected CRON_TZ=<timezone> <fields>: %w'')
                          ErrCronMissingTZ)
              | Some idx \<Rightarrow>
                  if TrimSpace (take idx rest) = []
                  then Inl (Errorf (''cron: empty CRON_TZ prefix '' @ em_dash @ '' expected CRON_TZ=<timezone> <fields>: %w'')
                         ErrCronMissingTZ)
                  else Inr (True, drop (idx + 1) rest)
      else Inr (False, expr))"

definition Normalize :: "string \<Rightarrow> go_error + string" where
  "Normalize expr =
     (let expr = TrimSpace expr
      in case cron_schedule expr of
           Inl err \<Rightarrow> Inl err
         | Inr (hasTZPrefix, schedulePart) \<Rightarrow>
             if list_ex (\<lambda>ch. ch \<in> set schedulePart) ''?LW#''
             then Inl (Errorf ''cron: expression %q contains Quartz-only metacharacter %q: %w'' ErrCronQuartzChar)
             else let fields = Fields schedulePart
                  in if length fields = 5
                     then if \<not> hasTZPrefix then Inl (Errorf ''cron: expression %q has no CRON_TZ= prefix: %w'' ErrCronMissingTZ)
                          else Inr (take (case IndexByte expr CHR '' '' of None \<Rightarrow> 0 | Some i \<Rightarrow> i) expr @ '' '' @ Join fields '' '')
                     else if length fields = 6
                     then Inl (Errorf (''cron: expression %q has 6 fields (Quartz format); remove the leading seconds field %q: %w'')
                            ErrCronSixField)
                     else Inl (Errorf ''cron: expression %q has %d fields; expected exactly 5 (minute hour dom month dow): %w''
                            ErrCronSixField))"

section \<open>Lease histories\<close>







section \<open>The floating-point delay\<close>

lemma WithDefaults_idem [simp]: "WithDefaults (WithDefaults p) = WithDefaults p"
  by (simp add: WithDefaults_def DefaultBackoffPolicy_def Let_def)









section \<open>Doubling is exact\<close>

lemma double_exact:
  assumes "0 < b" and "b \<le> 2 ^ 53" and "0 \<le> n"
  shows "float_mul (float_of_int b) (go_pow (Fin 2) n) = overflow (of_int (b * 2 ^ nat n))"
proof -
  have p: "(2 :: rat) powi n = 2 ^ nat n" using assms(3) by (simp add: power_int_def)
  have fb: "fl (of_int b) = of_int b" using assms by (intro fl_of_int) simp
  have exact: "fl (of_int b * 2 powi n) = of_int b * 2 powi n"
    using fl_pos_exact [OF assms(1,2), of n] assms(1) by (simp add: fl_def)
  show ?thesis
  proof (cases "2 ^ 1024 \<le> (2 :: rat) powi n")
    case True
    have "1 * (2 :: rat) powi n \<le> of_int b * 2 powi n" using assms(1) by (intro mult_right_mono) auto
    with True have "2 ^ 1024 \<le> (of_int b :: rat) * 2 powi n" by (metis mult_1 order_trans)
    then have "2 ^ 1024 \<le> (of_int (b * 2 ^ nat n) :: rat)" by (simp add: p)
    with True assms(1) fb show ?thesis by (simp add: go_pow_2 [OF assms(3)] overflow_def float_of_int_def)
  next
    case False
    moreover have "\<not> (2 :: rat) powi n \<le> - (2 ^ 1024)" unfolding p not_le by (rule less_trans [of _ 0]) simp_all
    ultimately have "overflow (2 powi n) = Fin (2 powi n)" by (simp add: overflow_def)
    with fb exact p show ?thesis by (simp add: go_pow_2 [OF assms(3)] float_of_int_def)
  qed
qed

lemma float_to_int64_of_int:
  "in_int64 k \<Longrightarrow> float_to_int64 conv (overflow (of_int k)) = k"
  by (simp add: in_int64_def overflow_def float_to_int64_def)




text \<open>C19: The older helper of the \<^verbatim>\<open>timeutil\<close> package converts before it compares with the cap. While the doubled
  interval fits a 64-bit integer it is the capped doubling; once it does not (from attempt 34 for a one-second
  interval), the result is what the processor's conversion yields, on amd64 the most negative duration, whatever the cap.\<close>
theorem timeutil_backoff_overflow:
  assumes "0 < ini" and "ini \<le> 2 ^ 53" and "0 \<le> attempt" and "in_int64 cap"
  shows "timeutil_Backoff conv_amd64 attempt ini cap =
    (if ini * 2 ^ nat attempt \<le> max_int64 then min cap (ini * 2 ^ nat attempt) else min_int64)"
proof -
  let ?k = "ini * 2 ^ nat attempt"
  have "0 < ?k" using assms(1) by simp
  have "float_to_int64 conv_amd64 (overflow (of_int ?k)) = min_int64" if "\<not> ?k \<le> max_int64"
  proof -
    have "\<not> in_int64 (float_to_int (of_int ?k))" using that by (simp add: in_int64_def del: of_int_mult)
    then show ?thesis by (auto simp: float_to_int64_def overflow_def conv_amd64_def simp del: of_int_mult)
  qed
  moreover have "in_int64 ?k" if "?k \<le> max_int64" using that \<open>0 < ?k\<close> by (simp add: in_int64_def)
  ultimately have "float_to_int64 conv_amd64 (overflow (of_int ?k)) = (if ?k \<le> max_int64 then ?k else min_int64)"
    using float_to_int64_of_int [of ?k] by simp
  then show ?thesis
    using assms(4) unfolding timeutil_Backoff_def double_exact [OF assms(1-3)]
    by (simp add: Let_def in_int64_def min_def del: of_int_mult)
qed

theorem timeutil_backoff_overflow_witness:
  "timeutil_Backoff conv_amd64 3 second minute = 8 * second \<and> timeutil_Backoff conv_amd64 64 second minute < 0"
  using timeutil_backoff_overflow [of second 3 minute] timeutil_backoff_overflow [of second 64 minute]
  by (simp add: in_int64_def)

section \<open>The cron guard\<close>

text \<open>What the guard lets through: a zone without blanks and five fields, none with white space or a Quartz character.\<close>

definition cron_normal :: "string \<Rightarrow> string list \<Rightarrow> string \<Rightarrow> bool" where
  "cron_normal tz fs s \<longleftrightarrow> s = cron_tz @ tz @ '' '' @ Join fs '' '' \<and> CHR '' '' \<notin> set tz \<and> TrimSpace tz \<noteq> [] \<and>
     length fs = 5 \<and> (\<forall>w \<in> set fs. spaceless w \<and> w \<noteq> [] \<and> set w \<inter> set ''?LW#'' = {})"

lemma Normalize_Inr:
  assumes "Normalize expr = Inr s"
  shows "\<exists>tz fs. cron_normal tz fs s"
proof -
  define e where "e = TrimSpace expr"
  obtain sp where sched: "cron_schedule e = Inr (True, sp)" and quartz: "set sp \<inter> set ''?LW#'' = {}"
    and five: "length (Fields sp) = 5"
    and s: "s = take (case IndexByte e CHR '' '' of None \<Rightarrow> 0 | Some i \<Rightarrow> i) e @ '' '' @ Join (Fields sp) '' ''"
    using assms by (auto simp: Normalize_def e_def [symmetric] Let_def split: sum.splits prod.splits if_splits)
  obtain rest idx where rest: "e = cron_tz @ rest" and idx: "IndexByte rest CHR '' '' = Some idx"
    and tz: "TrimSpace (take idx rest) \<noteq> []" and sp: "sp = drop (idx + 1) rest"
    using sched by (auto simp: cron_schedule_def HasPrefix_iff Let_def simp del: HasPrefix_Cons split: if_splits option.splits)
  define tz' where "tz' = take idx rest"
  have cut: "rest = tz' @ CHR '' '' # sp" "CHR '' '' \<notin> set tz'"
    using IndexByte_Some [OF idx] sp by (auto simp: tz'_def)
  have "IndexByte e CHR '' '' = Some (length (cron_tz @ tz'))"
    using IndexByte_append [of "CHR '' ''" "cron_tz @ tz'" sp] cut rest by simp
  then have "s = cron_tz @ tz' @ '' '' @ Join (Fields sp) '' ''" using s rest cut by simp
  moreover have "spaceless w \<and> w \<noteq> [] \<and> set w \<inter> set ''?LW#'' = {}" if "w \<in> set (Fields sp)" for w
    using that quartz set_Fields [OF that] Fields_spaceless Fields_nonempty by blast
  ultimately show ?thesis using cut tz five unfolding cron_normal_def tz'_def by blast
qed

lemma Normalize_normal:
  assumes "cron_normal tz fs s"
  shows "Normalize s = Inr s"
proof -
  note n = assms [unfolded cron_normal_def]
  obtain a b c d w where f: "fs = [a, b, c, d, w]" using n by (auto simp: numeral_eq_Suc length_Suc_conv)
  let ?J = "Join fs '' ''"
  have "TrimSpace s = s"
    using TrimSpace_ends [of "CHR ''C''" w "''RON_TZ='' @ tz @ '' '' @ Join [a, b, c, d] '' ''"] n
    by (simp add: f is_graphic_def)
  moreover have "Fields ?J = fs" using n by (intro Fields_Join_spaceless) auto
  moreover have "IndexByte (tz @ CHR '' '' # ?J) CHR '' '' = Some (length tz)" using n by (intro IndexByte_append) auto
  then have "cron_schedule s = Inr (True, ?J)" using n by (simp add: cron_schedule_def)
  moreover have "IndexByte s CHR '' '' = Some (length (cron_tz @ tz))"
    using n IndexByte_append [of "CHR '' ''" "cron_tz @ tz" ?J] by simp
  moreover have "set ?J \<inter> set ''?LW#'' = {}" using n set_Join [of fs "'' ''"] by fastforce
  ultimately show ?thesis using n by (auto simp: Normalize_def)
qed

text \<open>C20: An expression the guard accepts is normalised to \<^verbatim>\<open>CRON_TZ=zone\<close> and exactly five fields separated by single blanks, none
  of them empty, with white space or with a Quartz-only character, and the guard accepts its own output unchanged.\<close>
theorem cron_normalize_sound:
  assumes "Normalize expr = Inr s"
  shows "(\<exists>tz fs. cron_normal tz fs s) \<and> Normalize s = Inr s"
  using Normalize_Inr [OF assms] Normalize_normal by blast

lemma cron_example:
  "Normalize ''CRON_TZ=UTC  0 9 * * 1-5'' = Inr ''CRON_TZ=UTC 0 9 * * 1-5''"
proof -
  have "TrimSpace ''CRON_TZ=UTC  0 9 * * 1-5'' = ''CRON_TZ=UTC  0 9 * * 1-5''" "TrimSpace ''UTC'' = ''UTC''"
    by (rule TrimSpace_graphic; simp add: is_graphic_def)+
  moreover have "Fields '' 0 9 * * 1-5'' = [''0'', ''9'', ''*'', ''*'', ''1-5'']"
    using Fields_Join [of "[''0'', ''9'', ''*'', ''*'', ''1-5'']"] by (simp add: Fields_def is_word_def is_graphic_def del: Fields_from.simps(2))
  ultimately show ?thesis by (simp add: Normalize_def cron_schedule_def)
qed

theorem cron_normalize_sound_witness:
  "(\<exists>tz fs. cron_normal tz fs ''CRON_TZ=UTC 0 9 * * 1-5'') \<and>
   Normalize ''CRON_TZ=UTC 0 9 * * 1-5'' = Inr ''CRON_TZ=UTC 0 9 * * 1-5''"
  by (rule cron_normalize_sound [OF cron_example])

text \<open>The zone ends at the first blank only, so a tab after it hides a field: a six-field Quartz expression whose first
  field follows the zone and a tab passes the guard, with the seconds field counted into the zone.\<close>
theorem cron_tab_hides_field:
  "Normalize (''CRON_TZ=UTC'' @ [CHR 0x09] @ ''0 0 1 * * *'') = Inr (''CRON_TZ=UTC'' @ [CHR 0x09] @ ''0 0 1 * * *'')"
proof (rule Normalize_normal)
  have "TrimSpace (''UTC'' @ [CHR 0x09] @ ''0'') = ''UTC'' @ [CHR 0x09] @ ''0''"
    by (rule TrimSpace_graphic) (simp_all add: is_graphic_def)
  moreover have "spaceless ''0''" "spaceless ''1''" "spaceless ''*''"
    by (simp_all add: spaceless_graphic is_graphic_def)
  ultimately show "cron_normal (''UTC'' @ [CHR 0x09] @ ''0'') [''0'', ''1'', ''*'', ''*'', ''*'']
      (''CRON_TZ=UTC'' @ [CHR 0x09] @ ''0 0 1 * * *'')"
    by (simp add: cron_normal_def)
qed

end
