(* ===== verification/Sql_Interface.thy ===== *)
theory Sql_Interface
  imports Redis_Interface "HOL-Library.Multiset"
begin

text \<open>
  The relational database (MySQL behind GORM) is not part of the repository: a table is a parameter of
  the definitions that use it, a record with one field per kind of statement over an arbitrary
  server state. A WHERE clause is given as the predicate it denotes, an ORDER BY clause as the
  comparison of its rows, a SET clause as the change of a row. The locale \<open>sql_table\<close> states what the database
  promises: statements are atomic, a unique index rejects a second row with the same key, an
  auto-increment identifier is new, a SELECT returns the matching rows sorted, an UPDATE that writes a value its
  column cannot hold fails and changes nothing. Nothing is promised of the number of rows an UPDATE reports.
  A statement may be lost on the way (\<open>link\<close>), before or after it took effect.

  The equality of strings in the database is that of the column's collation, given by \<open>coll\<close>, the
  function that maps a string to its weight: two strings are equal for the database if they have the same weight.
\<close>

record ('s, 'r) sql =
  INSERT :: "'r \<Rightarrow> 's \<Rightarrow> 's \<times> (go_error + 'r)"
  SELECT :: "('r \<Rightarrow> bool) \<Rightarrow> ('r \<Rightarrow> 'r \<Rightarrow> bool) \<Rightarrow> 's \<Rightarrow> 'r list"
  UPDATE :: "('r \<Rightarrow> bool) \<Rightarrow> ('r \<Rightarrow> 'r) \<Rightarrow> 's \<Rightarrow> 's \<times> (go_error + int)"
  DELETE :: "('r \<Rightarrow> bool) \<Rightarrow> nat \<Rightarrow> 's \<Rightarrow> 's \<times> int"

text \<open>A statement sent through the client.\<close>

definition sql_select ::
  "('s, 'r) sql \<Rightarrow> link \<Rightarrow> ('r \<Rightarrow> bool) \<Rightarrow> ('r \<Rightarrow> 'r \<Rightarrow> bool) \<Rightarrow> 's \<Rightarrow> 's \<times> (go_error + 'r list)" where
  "sql_select db l P ord s = client_call l (\<lambda>s. (s, Inr (SELECT db P ord s))) s"

definition sql_insert :: "('s, 'r) sql \<Rightarrow> link \<Rightarrow> 'r \<Rightarrow> 's \<Rightarrow> 's \<times> (go_error + 'r)" where
  "sql_insert db l row s = client_call l (INSERT db row) s"

definition sql_update ::
  "('s, 'r) sql \<Rightarrow> link \<Rightarrow> ('r \<Rightarrow> bool) \<Rightarrow> ('r \<Rightarrow> 'r) \<Rightarrow> 's \<Rightarrow> 's \<times> (go_error + int)" where
  "sql_update db l P f s = client_call l (UPDATE db P f) s"

definition sql_delete :: "('s, 'r) sql \<Rightarrow> link \<Rightarrow> ('r \<Rightarrow> bool) \<Rightarrow> nat \<Rightarrow> 's \<Rightarrow> 's \<times> (go_error + int)" where
  "sql_delete db l P n s = client_call l (\<lambda>s. map_prod id Inr (DELETE db P n s)) s"

text \<open>LIMIT; a negative limit means none.\<close>

definition sql_limit :: "int \<Rightarrow> 'r list \<Rightarrow> 'r list" where
  "sql_limit n rs = (if n < 0 then rs else take (nat n) rs)"

lemmas sql_call_defs = sql_select_def sql_insert_def sql_update_def sql_delete_def client_call_def

section \<open>The text of an error\<close>

text \<open>\<^verbatim>\<open>err.Error()\<close>; of a wrapping only the format string is kept, with the wrapped text in the place of \<^verbatim>\<open>%w\<close>.\<close>

fun put_error :: "string \<Rightarrow> string \<Rightarrow> string" where
  "put_error [] t = []"
| "put_error (c # cs) t = (if HasPrefix (c # cs) ''%w'' then t @ drop 1 cs else c # put_error cs t)"

fun error_text :: "go_error \<Rightarrow> string" where
  "error_text (ErrorNew m) = m"
| "error_text (Errorf m e) = put_error m (error_text e)"

section \<open>What the database promises\<close>

text \<open>\<open>fits\<close> says that a row respects the column definitions, \<open>clash\<close> that two rows have a unique key in
  common, \<open>is_dup\<close> recognises the error of a violated unique key. \<open>with_id\<close> fills in the
  auto-increment column.\<close>

locale sql_table =
  fixes db :: "('s, 'r) sql"
    and rows :: "'s \<Rightarrow> 'r multiset"
    and fits :: "'r \<Rightarrow> bool"
    and clash :: "'r \<Rightarrow> 'r \<Rightarrow> bool"
    and is_dup :: "go_error \<Rightarrow> bool"
    and id_of :: "'r \<Rightarrow> nat"
    and with_id :: "nat \<Rightarrow> 'r \<Rightarrow> 'r"
  assumes INSERT_misfit: "\<not> fits row \<Longrightarrow> \<exists>e s'. INSERT db row s = (s', Inl e) \<and> \<not> is_dup e \<and> rows s' = rows s"
    and INSERT_clash: "fits row \<Longrightarrow> q \<in># rows s \<Longrightarrow> clash q row \<Longrightarrow>
      \<exists>e s'. INSERT db row s = (s', Inl e) \<and> is_dup e \<and> rows s' = rows s"
    and INSERT_new: "fits row \<Longrightarrow> \<forall>q \<in># rows s. \<not> clash q row \<Longrightarrow>
      \<exists>i s'. INSERT db row s = (s', Inr (with_id i row)) \<and> 0 < i \<and> (\<forall>q \<in># rows s. id_of q \<noteq> i) \<and>
        rows s' = add_mset (with_id i row) (rows s)"
    and SELECT_rows: "mset (SELECT db P ord s) = filter_mset P (rows s)"
    and SELECT_sorted: "totalp ord \<Longrightarrow> transp ord \<Longrightarrow> reflp ord \<Longrightarrow> sorted_wrt ord (SELECT db P ord s)"
    and UPDATE_rows: "\<forall>q \<in># rows s. P q \<and> fits q \<longrightarrow> fits (f q) \<Longrightarrow>
      \<exists>n s'. UPDATE db P f s = (s', Inr n) \<and> rows s' = image_mset (\<lambda>q. if P q then f q else q) (rows s)"
    and UPDATE_misfit: "q \<in># rows s \<Longrightarrow> P q \<Longrightarrow> fits q \<Longrightarrow> \<not> fits (f q) \<Longrightarrow>
      \<exists>e s'. UPDATE db P f s = (s', Inl e) \<and> rows s' = rows s"
    and DELETE_rows: "\<exists>D. D \<subseteq># filter_mset P (rows s) \<and> size D = min n (size (filter_mset P (rows s))) \<and>
      rows (fst (DELETE db P n s)) = rows s - D \<and> snd (DELETE db P n s) = int (size D)"
begin

lemma in_SELECT: "q \<in> set (SELECT db P ord s) \<longleftrightarrow> q \<in># rows s \<and> P q"
  using arg_cong [OF SELECT_rows [of P ord s], of set_mset] by (auto simp: set_eq_iff)

lemma UPDATE_cases:
  obtains (written) n s' where "UPDATE db P f s = (s', Inr n)" "rows s' = image_mset (\<lambda>q. if P q then f q else q) (rows s)"
  | (fail) e s' where "UPDATE db P f s = (s', Inl e)" "rows s' = rows s" "\<exists>q \<in># rows s. P q \<and> fits q \<and> \<not> fits (f q)"
proof (cases "\<forall>q \<in># rows s. P q \<and> fits q \<longrightarrow> fits (f q)")
  case True
  from UPDATE_rows [OF this] show thesis using that(1) by blast
next
  case False
  then obtain q where q: "q \<in># rows s" "P q" "fits q" "\<not> fits (f q)" by blast
  then show thesis using UPDATE_misfit [of q s P f] that(2) by blast
qed

text \<open>An update that keeps rows within their columns never fails on the server.\<close>

lemma UPDATE_total:
  assumes "\<And>q. P q \<Longrightarrow> fits q \<Longrightarrow> fits (f q)"
  shows "rows (fst (UPDATE db P f s)) = image_mset (\<lambda>q. if P q then f q else q) (rows s)"
  by (cases rule: UPDATE_cases [of P f s]) (use assms in auto)

lemma DELETE_subset: "rows (fst (DELETE db P n s)) \<subseteq># rows s"
  using DELETE_rows [of P s n] by (metis diff_subset_eq_self)

lemma INSERT_cases:
  obtains (fail) e s' where "INSERT db row s = (s', Inl e)" "rows s' = rows s" "\<not> fits row \<or> is_dup e \<and> (\<exists>q \<in># rows s. clash q row)"
  | (new) i s' where "INSERT db row s = (s', Inr (with_id i row))" "0 < i" "\<forall>q \<in># rows s. id_of q \<noteq> i"
      "rows s' = add_mset (with_id i row) (rows s)" "fits row" "\<forall>q \<in># rows s. \<not> clash q row"
  using INSERT_misfit [of row s] INSERT_clash [of row _ s] INSERT_new [of row s] by metis

end

section \<open>A table that keeps the promises\<close>

text \<open>A list of rows in order of insertion; a new identifier is above those in the table.\<close>

fun insort_row :: "('r \<Rightarrow> 'r \<Rightarrow> bool) \<Rightarrow> 'r \<Rightarrow> 'r list \<Rightarrow> 'r list" where
  "insort_row ord x [] = [x]"
| "insort_row ord x (y # ys) = (if ord x y then x # y # ys else y # insort_row ord x ys)"

fun delete_first :: "('r \<Rightarrow> bool) \<Rightarrow> nat \<Rightarrow> 'r list \<Rightarrow> 'r list" where
  "delete_first P 0 xs = xs"
| "delete_first P (Suc n) [] = []"
| "delete_first P (Suc n) (x # xs) = (if P x then delete_first P n xs else x # delete_first P (Suc n) xs)"

definition duplicate_entry :: go_error where
  "duplicate_entry = ErrorNew ''Error 1062 (23000): Duplicate entry''"

definition data_too_long :: go_error where
  "data_too_long = ErrorNew ''Error 1406 (22001): Data too long for column''"

definition mini_insert ::
  "('r \<Rightarrow> bool) \<Rightarrow> ('r \<Rightarrow> 'r \<Rightarrow> bool) \<Rightarrow> ('r \<Rightarrow> nat) \<Rightarrow> (nat \<Rightarrow> 'r \<Rightarrow> 'r) \<Rightarrow> 'r \<Rightarrow> 'r list \<Rightarrow> 'r list \<times> (go_error + 'r)" where
  "mini_insert fits clash id_of with_id row t =
     (if \<not> fits row then (t, Inl data_too_long)
      else if list_ex (\<lambda>q. clash q row) t then (t, Inl duplicate_entry)
      else let row = with_id (Suc (foldr max (map id_of t) 0)) row in (t @ [row], Inr row))"

definition mini_sql ::
  "('r \<Rightarrow> bool) \<Rightarrow> ('r \<Rightarrow> 'r \<Rightarrow> bool) \<Rightarrow> ('r \<Rightarrow> nat) \<Rightarrow> (nat \<Rightarrow> 'r \<Rightarrow> 'r) \<Rightarrow> ('r list, 'r) sql" where
  "mini_sql fits clash id_of with_id = \<lparr>
     INSERT = mini_insert fits clash id_of with_id,
     SELECT = (\<lambda>P ord t. foldr (insort_row ord) (filter P t) []),
     UPDATE = (\<lambda>P f t.
       if list_ex (\<lambda>q. P q \<and> fits q \<and> \<not> fits (f q)) t then (t, Inl data_too_long)
       else (map (\<lambda>q. if P q then f q else q) t, Inr (int (length (filter P t))))),
     DELETE = (\<lambda>P n t. (delete_first P n t, int (length t - length (delete_first P n t))))\<rparr>"

lemma mset_insort_row [simp]: "mset (insort_row ord x ys) = add_mset x (mset ys)"
  by (induction ys) auto

lemma mset_select [simp]: "mset (foldr (insort_row ord) xs []) = mset xs"
  by (induction xs) auto

lemma sorted_insort_row:
  assumes "totalp ord" and "transp ord" and "reflp ord" and "sorted_wrt ord ys"
  shows "sorted_wrt ord (insort_row ord x ys)"
  using assms(4)
proof (induction ys)
  case (Cons y ys)
  have "ord y x" if "\<not> ord x y" using that assms(1,3) by (metis reflpD totalpD)
  moreover have "set (insort_row ord x ys) = insert x (set ys)" using mset_insort_row [of ord x ys] by (metis set_mset_add_mset_insert set_mset_mset)
  moreover have "ord x z" if "ord x y" "z \<in> set ys" for z using that Cons.prems assms(2) by (auto dest: transpD)
  ultimately show ?case using Cons by auto
qed simp

lemma sorted_select:
  "totalp ord \<Longrightarrow> transp ord \<Longrightarrow> reflp ord \<Longrightarrow> sorted_wrt ord (foldr (insort_row ord) xs [])"
  by (induction xs) (auto intro: sorted_insort_row)

lemma delete_first_mset:
  "\<exists>D. D \<subseteq># filter_mset P (mset xs) \<and> size D = min n (size (filter_mset P (mset xs))) \<and> mset (delete_first P n xs) = mset xs - D \<and>
     length xs - length (delete_first P n xs) = size D"
proof (induction P n xs rule: delete_first.induct)
  case (3 P n x xs)
  show ?case
  proof (cases "P x")
    case True
    then obtain D where D: "D \<subseteq># filter_mset P (mset xs)" "size D = min n (size (filter_mset P (mset xs)))"
      "mset (delete_first P n xs) = mset xs - D" "length xs - length (delete_first P n xs) = size D" using 3(1) by blast
    have "length (delete_first P n xs) \<le> length xs" using D(3) by (metis diff_subset_eq_self size_mset size_mset_mono)
    with True D show ?thesis by (intro exI [of _ "add_mset x D"]) auto
  next
    case False
    then obtain D where D: "D \<subseteq># filter_mset P (mset xs)" "size D = min (Suc n) (size (filter_mset P (mset xs)))"
      "mset (delete_first P (Suc n) xs) = mset xs - D" "length xs - length (delete_first P (Suc n) xs) = size D"
      using 3(2) by blast
    have "D \<subseteq># mset xs" using D(1) by (meson multiset_filter_subset subset_mset.order_trans)
    then have "add_mset x (mset xs - D) = add_mset x (mset xs) - D" by (metis add_mset_add_single subset_mset.add_diff_assoc2)
    with False D show ?thesis by (intro exI [of _ D]) auto
  qed
qed auto

lemma foldr_max_ge: "(x :: nat) \<in> set xs \<Longrightarrow> x \<le> foldr max xs 0"
  by (induction xs) auto

lemma mini_sql_table:
  assumes "is_dup duplicate_entry" and "\<not> is_dup data_too_long"
  shows "sql_table (mini_sql fits clash id_of with_id) mset fits clash is_dup id_of with_id"
proof (unfold_locales, goal_cases)
  case (3 row s)
  let ?i = "Suc (foldr max (map id_of s) 0)"
  have "id_of q \<noteq> ?i" if "q \<in> set s" for q
    using foldr_max_ge [of "id_of q" "map id_of s"] that by auto
  with 3 show ?case
    by (intro exI [of _ ?i]) (auto simp: mini_sql_def mini_insert_def Let_def list_ex_iff)
next
  case (8 P s n)
  show ?case using delete_first_mset [of P s n] by (auto simp: mini_sql_def)
qed (use assms sorted_select in \<open>auto simp: mini_sql_def mini_insert_def list_ex_iff\<close>)

end
