(* ===== verification/Go_Utf8.thy ===== *)
theory Go_Utf8
  imports Go_Strings
begin

text \<open>
  \<^verbatim>\<open>unicode/utf8\<close>: decoding a byte string rune by rune, as \<^verbatim>\<open>range\<close> over a string and
  \<^verbatim>\<open>[]rune(s)\<close> do. A byte that starts no valid encoding counts as one rune, U+FFFD.
\<close>

abbreviation RuneError :: nat where
  "RuneError \<equiv> 0xFFFD"

text \<open>The number of continuation bytes after a first byte and the range of the second byte.\<close>

definition utf8_first :: "nat \<Rightarrow> (nat \<times> nat \<times> nat) option" where
  "utf8_first b =
     (if 0xC2 \<le> b \<and> b \<le> 0xDF then Some (1, 0x80, 0xBF)
      else if b = 0xE0 then Some (2, 0xA0, 0xBF)
      else if b = 0xED then Some (2, 0x80, 0x9F)
      else if 0xE1 \<le> b \<and> b \<le> 0xEF then Some (2, 0x80, 0xBF)
      else if b = 0xF0 then Some (3, 0x90, 0xBF)
      else if 0xF1 \<le> b \<and> b \<le> 0xF3 then Some (3, 0x80, 0xBF)
      else if b = 0xF4 then Some (3, 0x80, 0x8F)
      else None)"

definition is_cont :: "char \<Rightarrow> bool" where
  "is_cont c \<longleftrightarrow> 0x80 \<le> byte_of c \<and> byte_of c \<le> 0xBF"

text \<open>\<^verbatim>\<open>DecodeRuneInString\<close>: the rune and its width.\<close>

fun DecodeRune :: "string \<Rightarrow> nat \<times> nat" where
  "DecodeRune [] = (RuneError, 0)"
| "DecodeRune (c # cs) =
     (if byte_of c < 0x80 then (byte_of c, 1)
      else case utf8_first (byte_of c) of
             None \<Rightarrow> (RuneError, 1)
           | Some (n, lo, hi) \<Rightarrow>
               if n \<le> length cs \<and> lo \<le> byte_of (hd cs) \<and> byte_of (hd cs) \<le> hi \<and> list_all is_cont (take n cs)
               then (foldl (\<lambda>r d. r * 64 + (byte_of d - 0x80)) (byte_of c mod (if n = 1 then 32 else if n = 2 then 16 else 8)) (take n cs), Suc n)
               else (RuneError, 1))"

lemma DecodeRune_width: "s \<noteq> [] \<Longrightarrow> 0 < snd (DecodeRune s)"
  by (cases s) (auto split: option.splits)

lemma DecodeRune_pos: "(r, n) = DecodeRune (c # cs) \<Longrightarrow> 0 < n"
  using DecodeRune_width [of "c # cs"] by (metis list.distinct(1) snd_conv)

function range_runes :: "string \<Rightarrow> nat list" where
  "range_runes [] = []"
| "range_runes (c # cs) = (case DecodeRune (c # cs) of (r, n) \<Rightarrow> r # range_runes (drop n (c # cs)))"
  by pat_completeness auto
termination
  by (relation "measure length") (auto dest: DecodeRune_pos simp del: DecodeRune.simps)

declare range_runes.simps(2) [simp del]

definition RuneCount :: "string \<Rightarrow> nat" where
  "RuneCount s = length (range_runes s)"

text \<open>\<^verbatim>\<open>unicode.IsControl\<close> and \<^verbatim>\<open>unicode.IsSpace\<close>.\<close>

definition IsControl :: "nat \<Rightarrow> bool" where
  "IsControl r \<longleftrightarrow> r \<le> 0x1F \<or> 0x7F \<le> r \<and> r \<le> 0x9F"

definition IsSpace :: "nat \<Rightarrow> bool" where
  "IsSpace r \<longleftrightarrow> 9 \<le> r \<and> r \<le> 13 \<or> r \<in> set [0x20, 0x85, 0xA0, 0x1680, 0x2028, 0x2029, 0x202F, 0x205F, 0x3000] \<or>
     0x2000 \<le> r \<and> r \<le> 0x200A"

lemma range_runes_ascii:
  assumes "byte_of c < 0x80"
  shows "range_runes (c # cs) = byte_of c # range_runes cs"
  using assms by (simp add: range_runes.simps(2))

lemma range_runes_all_ascii: "is_ascii s \<Longrightarrow> range_runes s = map byte_of s"
  by (induction s) (simp_all add: is_ascii_def range_runes_ascii)

lemma RuneCount_le: "RuneCount s \<le> length s"
proof (induction s rule: range_runes.induct)
  case (2 c cs)
  obtain r n where d: "DecodeRune (c # cs) = (r, n)" by fastforce
  then have "0 < n" using DecodeRune_pos by metis
  then have "length (drop n (c # cs)) \<le> length cs" by (cases n) auto
  with 2 [OF d [symmetric]] d show ?case by (simp add: RuneCount_def range_runes.simps(2))
qed (simp add: RuneCount_def)

end
