(* ===== verification/Go_Json.thy ===== *)
theory Go_Json
  imports Go_Utf8 Go_Strconv Go_Float
begin

text \<open>
  \<^verbatim>\<open>encoding/json\<close> as the components use it: \<^verbatim>\<open>Marshal\<close> on dynamically typed values, \<^verbatim>\<open>Valid\<close>, and
  decoding of a document into a tree from which the fields of a request struct are read. Documents
  are byte strings. Only the shortest decimal rendering of a floating-point number is left to a
  parameter, \<open>format_float\<close>.
\<close>

section \<open>Marshal\<close>

text \<open>A value of type \<^verbatim>\<open>any\<close>. \<open>VOther\<close> is a value of a kind JSON has no rendering for (a channel or a
  function); a map is given by its entries, in any order.\<close>

datatype go_value =
    VNil
  | VBool bool
  | VInt int
  | VFloat float64
  | VString string
  | VSlice "go_value list"
  | VMap "(string \<times> go_value) list"
  | VOther

text \<open>One rune of a string: the characters that could end the string or open an HTML tag are escaped,
  so are control characters, the line separators U+2028 and U+2029, and bytes that are not UTF-8.\<close>

definition unicode_escape :: "nat \<Rightarrow> string" where
  "unicode_escape r = [CHR 0x5C, CHR ''u''] @ map (\<lambda>i. hex_digit (r div 16 ^ (3 - i) mod 16)) [0..<4]"

definition json_rune :: "nat \<times> nat \<Rightarrow> string \<Rightarrow> string" where
  "json_rune rn s =
     (case rn of (r, n) \<Rightarrow>
       if r = 0x22 \<or> r = 0x5C then [CHR 0x5C, char_of r]
       else if r = 8 then [CHR 0x5C, CHR ''b'']
       else if r = 12 then [CHR 0x5C, CHR ''f'']
       else if r = 10 then [CHR 0x5C, CHR ''n'']
       else if r = 13 then [CHR 0x5C, CHR ''r'']
       else if r = 9 then [CHR 0x5C, CHR ''t'']
       else if r < 0x20 \<or> r = 0x3C \<or> r = 0x3E \<or> r = 0x26 \<or> r = 0x2028 \<or> r = 0x2029 then unicode_escape r
       else if r = RuneError \<and> n = 1 then unicode_escape RuneError
       else take n s)"

function json_chars :: "string \<Rightarrow> string" where
  "json_chars [] = []"
| "json_chars (c # cs) =
     json_rune (DecodeRune (c # cs)) (c # cs) @ json_chars (drop (snd (DecodeRune (c # cs))) (c # cs))"
  by pat_completeness auto
termination
proof (relation "measure length", simp)
  fix c cs
  show "(drop (snd (DecodeRune (c # cs))) (c # cs), c # cs) \<in> measure length"
    using DecodeRune_width [of "c # cs"] by simp
qed

declare json_chars.simps(2) [simp del]

definition json_string :: "string \<Rightarrow> string" where
  "json_string s = [CHR 0x22] @ json_chars s @ [CHR 0x22]"

text \<open>Map entries are written in the byte order of their keys.\<close>

fun string_less :: "string \<Rightarrow> string \<Rightarrow> bool" where
  "string_less s [] = False"
| "string_less [] (d # ds) = True"
| "string_less (c # cs) (d # ds) = (byte_of c < byte_of d \<or> c = d \<and> string_less cs ds)"

fun insert_entry :: "string \<times> 'v \<Rightarrow> (string \<times> 'v) list \<Rightarrow> (string \<times> 'v) list" where
  "insert_entry e [] = [e]"
| "insert_entry e (f # fs) = (if string_less (fst f) (fst e) then f # insert_entry e fs else e # f # fs)"

definition sort_entries :: "(string \<times> 'v) list \<Rightarrow> (string \<times> 'v) list" where
  "sort_entries es = foldr insert_entry es []"

text \<open>\<open>None\<close> is an error: an unsupported kind, or a number that is infinite or NaN.\<close>

fun all_some :: "'a option list \<Rightarrow> 'a list option" where
  "all_some [] = Some []"
| "all_some (None # xs) = None"
| "all_some (Some x # xs) = map_option (Cons x) (all_some xs)"

fun Marshal :: "(rat \<Rightarrow> string) \<Rightarrow> go_value \<Rightarrow> string option" where
  "Marshal format_float VNil = Some ''null''"
| "Marshal format_float (VBool b) = Some (if b then ''true'' else ''false'')"
| "Marshal format_float (VInt i) = Some (FormatInt i)"
| "Marshal format_float (VFloat x) = (case x of Fin a \<Rightarrow> Some (format_float a) | _ \<Rightarrow> None)"
| "Marshal format_float (VString s) = Some (json_string s)"
| "Marshal format_float (VSlice vs) =
     map_option (\<lambda>ts. ''['' @ Join ts '','' @ '']'') (all_some (map (Marshal format_float) vs))"
| "Marshal format_float (VMap es) =
     map_option (\<lambda>ts. ''{'' @ Join (map (\<lambda>(k, t). json_string k @ '':'' @ t) (sort_entries ts)) '','' @ ''}'')
       (all_some (map (\<lambda>(k, v). map_option (Pair k) (Marshal format_float v)) es))"
| "Marshal format_float VOther = None"

section \<open>Documents\<close>

datatype json = JNull | JBool bool | JNum string | JStr string | JArr "json list" | JObj "(string \<times> json) list"

definition skip_space :: "string \<Rightarrow> string" where
  "skip_space s = dropWhile (\<lambda>c. byte_of c \<in> set [32, 9, 10, 13]) s"

text \<open>The content of a string literal, up to its closing quote, and what follows.\<close>

fun string_end :: "string \<Rightarrow> (string \<times> string) option" where
  "string_end [] = None"
| "string_end (c # cs) =
     (if byte_of c = 0x22 then Some ([], cs)
      else if byte_of c < 0x20 then None
      else if byte_of c = 0x5C
      then (case cs of
              [] \<Rightarrow> None
            | e # es \<Rightarrow>
                if e \<in> set ''bfnrt/'' \<or> byte_of e = 0x5C \<or> byte_of e = 0x22
                then map_option (\<lambda>(raw, rest). (c # e # raw, rest)) (string_end es)
                else if e = CHR ''u'' \<and> 4 \<le> length es \<and> list_all (\<lambda>h. hex_val h \<noteq> None) (take 4 es)
                then map_option (\<lambda>(raw, rest). (c # e # take 4 es @ raw, rest)) (string_end (drop 4 es))
                else None)
      else map_option (\<lambda>(raw, rest). (c # raw, rest)) (string_end cs))"

definition EncodeRune :: "nat \<Rightarrow> string" where
  "EncodeRune r =
     (let r = (if 0xD800 \<le> r \<and> r < 0xE000 \<or> 0x10FFFF < r then RuneError else r)
      in map char_of
           (if r < 0x80 then [r]
            else if r < 0x800 then [0xC0 + r div 64, 0x80 + r mod 64]
            else if r < 0x10000 then [0xE0 + r div 4096, 0x80 + r div 64 mod 64, 0x80 + r mod 64]
            else [0xF0 + r div 262144, 0x80 + r div 4096 mod 64, 0x80 + r div 64 mod 64, 0x80 + r mod 64]))"

definition hex4 :: "string \<Rightarrow> nat" where
  "hex4 s = foldl (\<lambda>n h. 16 * n + (case hex_val h of None \<Rightarrow> 0 | Some d \<Rightarrow> d)) 0 (take 4 s)"

text \<open>A \<^verbatim>\<open>\\uXXXX\<close> escape read as a surrogate half, if one starts here.\<close>

definition next_escape :: "string \<Rightarrow> nat option" where
  "next_escape s =
     (if 6 \<le> length s \<and> byte_of (s ! 0) = 0x5C \<and> s ! 1 = CHR ''u'' then Some (hex4 (drop 2 s)) else None)"

text \<open>Decoding the content of a literal.\<close>

function unquote :: "string \<Rightarrow> string" where
  "unquote [] = []"
| "unquote (c # cs) =
     (if byte_of c = 0x5C
      then (case cs of
              [] \<Rightarrow> []
            | e # es \<Rightarrow>
                if e = CHR ''u''
                then (let r = hex4 es
                      in if 0xD800 \<le> r \<and> r < 0xDC00
                         then (case next_escape (drop 4 es) of
                                 Some r2 \<Rightarrow>
                                   if 0xDC00 \<le> r2 \<and> r2 < 0xE000
                                   then EncodeRune ((r - 0xD800) * 1024 + (r2 - 0xDC00) + 0x10000) @ unquote (drop 10 es)
                                   else EncodeRune RuneError @ unquote (drop 4 es)
                               | None \<Rightarrow> EncodeRune RuneError @ unquote (drop 4 es))
                         else EncodeRune r @ unquote (drop 4 es))
                else (if e = CHR ''b'' then CHR 0x08 else if e = CHR ''f'' then CHR 0x0C else if e = CHR ''n'' then CHR 0x0A
                      else if e = CHR ''r'' then CHR 0x0D else if e = CHR ''t'' then CHR 0x09 else e) # unquote es)
      else case DecodeRune (c # cs) of
             (r, n) \<Rightarrow> (if r = RuneError \<and> n = 1 then EncodeRune RuneError else take n (c # cs)) @ unquote (drop n (c # cs)))"
  by pat_completeness auto
termination
  by (relation "measure length") (auto dest: DecodeRune_pos simp del: DecodeRune.simps)

declare unquote.simps(2) [simp del]

text \<open>A number literal: sign, integer part without leading zeros, fraction, exponent.\<close>

definition cut_sign :: "string \<Rightarrow> string \<times> string" where
  "cut_sign s = (case s of CHR ''-'' # t \<Rightarrow> (''-'', t) | _ \<Rightarrow> ([], s))"

definition cut_int :: "string \<Rightarrow> (string \<times> string) option" where
  "cut_int s =
     (case s of
        [] \<Rightarrow> None
      | c # t \<Rightarrow> if c = CHR ''0'' then Some ([c], t)
                 else if is_digit c then Some (takeWhile is_digit s, dropWhile is_digit s) else None)"

definition cut_frac :: "string \<Rightarrow> (string \<times> string) option" where
  "cut_frac s =
     (case s of
        CHR ''.'' # t \<Rightarrow> if takeWhile is_digit t = [] then None else Some (CHR ''.'' # takeWhile is_digit t, dropWhile is_digit t)
      | _ \<Rightarrow> Some ([], s))"

definition cut_exp :: "string \<Rightarrow> (string \<times> string) option" where
  "cut_exp s =
     (case s of
        [] \<Rightarrow> Some ([], s)
      | c # t \<Rightarrow>
          if c = CHR ''e'' \<or> c = CHR ''E''
          then (let (sg, u) = (case t of d # u \<Rightarrow> if d = CHR ''+'' \<or> d = CHR ''-'' then ([d], u) else ([], t) | [] \<Rightarrow> ([], t))
                in if takeWhile is_digit u = [] then None else Some (c # sg @ takeWhile is_digit u, dropWhile is_digit u))
          else Some ([], s))"

definition number_end :: "string \<Rightarrow> (string \<times> string) option" where
  "number_end s =
     (let (sg, s1) = cut_sign s
      in case cut_int s1 of
           None \<Rightarrow> None
         | Some (i, s2) \<Rightarrow>
             (case cut_frac s2 of
                None \<Rightarrow> None
              | Some (f, s3) \<Rightarrow> (case cut_exp s3 of None \<Rightarrow> None | Some (e, s4) \<Rightarrow> Some (sg @ i @ f @ e, s4))))"

text \<open>Values. The first argument bounds the recursion (each step consumes input, so twice the length
  of the document and two is enough); the second is the nesting depth that is left of Go's limit.\<close>

fun json_value :: "nat \<Rightarrow> nat \<Rightarrow> string \<Rightarrow> (json \<times> string) option"
  and json_elems :: "nat \<Rightarrow> nat \<Rightarrow> string \<Rightarrow> (json list \<times> string) option"
  and json_members :: "nat \<Rightarrow> nat \<Rightarrow> string \<Rightarrow> ((string \<times> json) list \<times> string) option" where
  "json_value 0 d s = None"
| "json_value (Suc n) d s =
     (case skip_space s of
        [] \<Rightarrow> None
      | c # cs \<Rightarrow>
          if byte_of c = 0x22 then map_option (\<lambda>(raw, rest). (JStr (unquote raw), rest)) (string_end cs)
          else if c = CHR ''['' then
            (if d = 0 then None
             else case skip_space cs of
                    CHR '']'' # rest \<Rightarrow> Some (JArr [], rest)
                  | _ \<Rightarrow> map_option (\<lambda>(vs, rest). (JArr vs, rest)) (json_elems n (d - 1) cs))
          else if c = CHR ''{'' then
            (if d = 0 then None
             else case skip_space cs of
                    CHR ''}'' # rest \<Rightarrow> Some (JObj [], rest)
                  | _ \<Rightarrow> map_option (\<lambda>(es, rest). (JObj es, rest)) (json_members n (d - 1) cs))
          else if HasPrefix (c # cs) ''null'' then Some (JNull, drop 4 (c # cs))
          else if HasPrefix (c # cs) ''true'' then Some (JBool True, drop 4 (c # cs))
          else if HasPrefix (c # cs) ''false'' then Some (JBool False, drop 5 (c # cs))
          else map_option (\<lambda>(t, rest). (JNum t, rest)) (number_end (c # cs)))"
| "json_elems 0 d s = None"
| "json_elems (Suc n) d s =
     (case json_value n d s of
        None \<Rightarrow> None
      | Some (v, rest) \<Rightarrow>
          (case skip_space rest of
             CHR '']'' # t \<Rightarrow> Some ([v], t)
           | CHR '','' # t \<Rightarrow> map_option (\<lambda>(vs, u). (v # vs, u)) (json_elems n d t)
           | _ \<Rightarrow> None))"
| "json_members 0 d s = None"
| "json_members (Suc n) d s =
     (case skip_space s of
        [] \<Rightarrow> None
      | c # cs \<Rightarrow>
          if byte_of c = 0x22 then
            (case string_end cs of
               None \<Rightarrow> None
             | Some (raw, rest) \<Rightarrow>
                 (case skip_space rest of
                    CHR '':'' # t \<Rightarrow>
                      (case json_value n d t of
                         None \<Rightarrow> None
                       | Some (v, rest) \<Rightarrow>
                           (case skip_space rest of
                              CHR ''}'' # u \<Rightarrow> Some ([(unquote raw, v)], u)
                            | CHR '','' # u \<Rightarrow> map_option (\<lambda>(es, w). ((unquote raw, v) # es, w)) (json_members n d u)
                            | _ \<Rightarrow> None))
                  | _ \<Rightarrow> None))
          else None)"

definition json_parse :: "string \<Rightarrow> json option" where
  "json_parse s =
     (case json_value (2 * length s + 2) 10000 s of
        Some (v, rest) \<Rightarrow> if skip_space rest = [] then Some v else None
      | None \<Rightarrow> None)"

definition Valid :: "string \<Rightarrow> bool" where
  "Valid s \<longleftrightarrow> json_parse s \<noteq> None"

end
