(* ===== verification/Reliable_Events.thy ===== *)
theory Reliable_Events
  imports Sql_Interface Go_Json
begin

text \<open>
  The \<^verbatim>\<open>reliableevents\<close> package: the outbox table through which events are published, and the table by which
  consumers skip events they have seen. \<^verbatim>\<open>repo.go\<close> is translated statement by statement over the database
  parameter of \<open>Sql_Interface\<close>, \<^verbatim>\<open>service.go\<close> on top of it. Every call carries the network's behaviour and the
  clocks it reads: \<open>wall\<close> is \<^verbatim>\<open>time.Now()\<close> in the process, \<open>server\<close> is \<^verbatim>\<open>NOW(6)\<close> in the database.
\<close>

section \<open>Model and errors\<close>

definition ErrInvalidInput :: go_error where
  "ErrInvalidInput = ErrorNew ''reliableevents: invalid input''"

definition ErrDuplicateEvent :: go_error where
  "ErrDuplicateEvent = ErrorNew ''reliableevents: duplicate event_id''"

record outbox_row =
  ID :: nat
  EventID :: string
  TenantID :: nat
  EventType :: string
  Version :: int
  Actor :: string
  CorrelationID :: "string option"
  Source :: string
  Payload :: string
  Status :: int
  RetryCount :: int
  NextRetryAt :: "go_time option"
  OccurredAt :: go_time
  SentAt :: "go_time option"

record event_processed =
  ConsumerName :: string
  ProcessedEventID :: string
  ProcessedTenantID :: nat
  ProcessedAt :: go_time

record publish_input =
  in_EventID :: string
  in_TenantID :: nat
  in_EventType :: string
  in_Source :: string
  in_CorrelationID :: string
  in_Actor :: go_value
  in_Payload :: go_value

text \<open>What the column definitions of the model ask of a row: sizes in characters, and JSON documents.\<close>

definition outbox_fits :: "outbox_row \<Rightarrow> bool" where
  "outbox_fits e \<longleftrightarrow> RuneCount (EventID e) \<le> 32 \<and> RuneCount (EventType e) \<le> 64 \<and> RuneCount (Source e) \<le> 64 \<and>
     (case CorrelationID e of None \<Rightarrow> True | Some c \<Rightarrow> RuneCount c \<le> 64) \<and> Valid (Actor e) \<and> Valid (Payload e)"

definition outbox_clash :: "(string \<Rightarrow> string) \<Rightarrow> outbox_row \<Rightarrow> outbox_row \<Rightarrow> bool" where
  "outbox_clash coll q e \<longleftrightarrow> coll (EventID q) = coll (EventID e)"

definition outbox_with_id :: "nat \<Rightarrow> outbox_row \<Rightarrow> outbox_row" where
  "outbox_with_id i e = e\<lparr>ID := i\<rparr>"

definition processed_fits :: "event_processed \<Rightarrow> bool" where
  "processed_fits p \<longleftrightarrow> RuneCount (ConsumerName p) \<le> 64 \<and> RuneCount (ProcessedEventID p) \<le> 32"

definition processed_clash :: "(string \<Rightarrow> string) \<Rightarrow> event_processed \<Rightarrow> event_processed \<Rightarrow> bool" where
  "processed_clash coll q p \<longleftrightarrow>
     coll (ConsumerName q) = coll (ConsumerName p) \<and> coll (ProcessedEventID q) = coll (ProcessedEventID p)"

section \<open>Repository\<close>

record env =
  net :: link
  wall :: go_time
  server :: go_time

text \<open>\<open>lower\<close> is the part of \<^verbatim>\<open>strings.ToLower\<close> that lies outside ASCII.\<close>

definition isDuplicateKey :: "(string \<Rightarrow> string) \<Rightarrow> go_error \<Rightarrow> bool" where
  "isDuplicateKey lower err =
     (let msg = ToLower lower (error_text err)
      in Contains msg ''1062'' \<or> Contains msg ''duplicate'' \<or> Contains msg ''unique constraint'')"

type_synonym 's outbox_db = "('s, outbox_row) sql"
type_synonym 's processed_db = "('s, event_processed) sql"

definition InsertOutbox ::
  "(string \<Rightarrow> string) \<Rightarrow> 's outbox_db \<Rightarrow> env \<Rightarrow> outbox_row \<Rightarrow> 's \<Rightarrow> 's \<times> (go_error + outbox_row)" where
  "InsertOutbox lower db v e s =
     (case sql_insert db (net v) e s of
        (s, Inl err) \<Rightarrow> (s, Inl (if isDuplicateKey lower err then ErrDuplicateEvent else err))
      | (s, Inr e) \<Rightarrow> (s, Inr e))"

text \<open>The same statement inside the caller's transaction.\<close>

definition InsertOutboxTx ::
  "(string \<Rightarrow> string) \<Rightarrow> 's outbox_db \<Rightarrow> env \<Rightarrow> outbox_row \<Rightarrow> 's \<Rightarrow> 's \<times> (go_error + outbox_row)" where
  "InsertOutboxTx lower tx v e s =
     (case sql_insert tx (net v) e s of
        (s, Inl err) \<Rightarrow> (s, Inl (if isDuplicateKey lower err then ErrDuplicateEvent else err))
      | (s, Inr e) \<Rightarrow> (s, Inr e))"

definition Repo_MarkProcessed ::
  "(string \<Rightarrow> string) \<Rightarrow> 's processed_db \<Rightarrow> env \<Rightarrow> event_processed \<Rightarrow> 's \<Rightarrow> 's \<times> go_error option" where
  "Repo_MarkProcessed lower db v ep s =
     (case sql_insert db (net v) ep s of
        (s, Inl err) \<Rightarrow> (s, if isDuplicateKey lower err then None else Some err)
      | (s, Inr _) \<Rightarrow> (s, None))"

definition Repo_IsProcessed ::
  "(string \<Rightarrow> string) \<Rightarrow> 's processed_db \<Rightarrow> env \<Rightarrow> string \<Rightarrow> string \<Rightarrow> 's \<Rightarrow> 's \<times> (go_error + bool)" where
  "Repo_IsProcessed coll db v consumerName eventID s =
     (case sql_select db (net v)
             (\<lambda>p. coll (ConsumerName p) = coll consumerName \<and> coll (ProcessedEventID p) = coll eventID) (\<lambda>_ _. True) s of
        (s, Inl err) \<Rightarrow> (s, Inl err)
      | (s, Inr ps) \<Rightarrow> (s, Inr (length ps > 0)))"

definition outbox_due :: "go_time \<Rightarrow> outbox_row \<Rightarrow> bool" where
  "outbox_due now e \<longleftrightarrow> Status e = 0 \<and> (case NextRetryAt e of None \<Rightarrow> True | Some t \<Rightarrow> t \<le> now)"

definition FetchPending ::
  "'s outbox_db \<Rightarrow> env \<Rightarrow> int \<Rightarrow> 's \<Rightarrow> 's \<times> (go_error + outbox_row list)" where
  "FetchPending db v limit s =
     (case sql_select db (net v) (outbox_due (wall v)) (\<lambda>e f. OccurredAt e \<le> OccurredAt f) s of
        (s, Inl err) \<Rightarrow> (s, Inl err)
      | (s, Inr es) \<Rightarrow> (s, Inr (sql_limit limit es)))"

definition Repo_List ::
  "'s outbox_db \<Rightarrow> env \<Rightarrow> int \<Rightarrow> int \<Rightarrow> 's \<Rightarrow> 's \<times> (go_error + outbox_row list)" where
  "Repo_List db v limit offset s =
     (case sql_select db (net v) (\<lambda>_. True)
             (\<lambda>e f. OccurredAt f < OccurredAt e \<or> OccurredAt e = OccurredAt f \<and> ID f \<le> ID e) s of
        (s, Inl err) \<Rightarrow> (s, Inl err)
      | (s, Inr es) \<Rightarrow> (s, Inr (sql_limit limit (drop (nat offset) es))))"

definition Repo_MarkSent :: "'s outbox_db \<Rightarrow> env \<Rightarrow> nat \<Rightarrow> 's \<Rightarrow> 's \<times> go_error option" where
  "Repo_MarkSent db v i s =
     (case sql_update db (net v) (\<lambda>e. ID e = i) (\<lambda>e. e\<lparr>Status := 1, SentAt := Some (wall v)\<rparr>) s of
        (s, Inl err) \<Rightarrow> (s, Some err)
      | (s, Inr _) \<Rightarrow> (s, None))"

text \<open>The assignments of a single-table UPDATE are evaluated from left to right in MySQL: the status
  is decided by the old count of retries, the next retry time by the new one.\<close>

definition failed_row :: "go_time \<Rightarrow> outbox_row \<Rightarrow> outbox_row" where
  "failed_row now e =
     (let e = e\<lparr>Status := if RetryCount e \<ge> 5 then 2 else 0\<rparr>;
          e = e\<lparr>RetryCount := RetryCount e + 1\<rparr>
      in e\<lparr>NextRetryAt := Some (now + 2 ^ nat (min (RetryCount e) 5) * 10 * second)\<rparr>)"

definition Repo_MarkFailed :: "'s outbox_db \<Rightarrow> env \<Rightarrow> nat \<Rightarrow> 's \<Rightarrow> 's \<times> go_error option" where
  "Repo_MarkFailed db v i s =
     (case sql_update db (net v) (\<lambda>e. ID e = i) (failed_row (server v)) s of
        (s, Inl err) \<Rightarrow> (s, Some err)
      | (s, Inr _) \<Rightarrow> (s, None))"

section \<open>Service\<close>

text \<open>\<open>uuid\<close> is what the UUID generator returns; \<open>clock\<close> is the service's \<^verbatim>\<open>now\<close>, when it has one.\<close>

definition newEventID :: "string \<Rightarrow> string" where
  "newEventID uuid = filter (\<lambda>c. c \<noteq> CHR ''-'') uuid"

definition normalizeLimit :: "int \<Rightarrow> int" where
  "normalizeLimit limit = (if limit \<le> 0 \<or> limit > 100 then 50 else limit)"

definition BuildOutbox ::
  "(rat \<Rightarrow> string) \<Rightarrow> string \<Rightarrow> go_time option \<Rightarrow> go_time \<Rightarrow> publish_input \<Rightarrow> go_error + outbox_row" where
  "BuildOutbox ff uuid clock time_now inp =
     (let inp = inp\<lparr>in_EventID := TrimSpace (in_EventID inp), in_EventType := TrimSpace (in_EventType inp),
            in_Source := TrimSpace (in_Source inp)\<rparr>
      in if in_TenantID inp = 0 \<or> in_EventType inp = [] \<or> in_Source inp = [] \<or> length (in_EventID inp) > 32
         then Inl ErrInvalidInput
         else case Marshal ff (in_Actor inp) of
                None \<Rightarrow> Inl ErrInvalidInput
              | Some actor \<Rightarrow>
                  (case Marshal ff (in_Payload inp) of
                     None \<Rightarrow> Inl ErrInvalidInput
                   | Some payload \<Rightarrow>
                       (let eventID = in_EventID inp;
                            eventID = (if eventID = [] then newEventID uuid else eventID);
                            now = (case clock of Some t \<Rightarrow> t | None \<Rightarrow> time_now);
                            e = \<lparr>ID = 0, EventID = eventID, TenantID = in_TenantID inp, EventType = in_EventType inp, Version = 1,
                              Actor = actor, CorrelationID = None, Source = in_Source inp, Payload = payload, Status = 0,
                              RetryCount = 0, NextRetryAt = None, OccurredAt = now, SentAt = None\<rparr>;
                            correlationID = TrimSpace (in_CorrelationID inp)
                        in Inr (if correlationID \<noteq> [] then e\<lparr>CorrelationID := Some correlationID\<rparr> else e))))"

definition Publish ::
  "(rat \<Rightarrow> string) \<Rightarrow> (string \<Rightarrow> string) \<Rightarrow> 's outbox_db \<Rightarrow> env \<Rightarrow> string \<Rightarrow> go_time option \<Rightarrow> publish_input \<Rightarrow> 's \<Rightarrow>
     's \<times> (go_error + outbox_row)" where
  "Publish ff lower db v uuid clock inp s =
     (case BuildOutbox ff uuid clock (wall v) inp of
        Inl err \<Rightarrow> (s, Inl err)
      | Inr e \<Rightarrow> InsertOutbox lower db v e s)"

definition Service_IsProcessed ::
  "(string \<Rightarrow> string) \<Rightarrow> 's processed_db \<Rightarrow> env \<Rightarrow> string \<Rightarrow> string \<Rightarrow> 's \<Rightarrow> 's \<times> (go_error + bool)" where
  "Service_IsProcessed coll db v consumerName eventID s =
     (if TrimSpace consumerName = [] \<or> TrimSpace eventID = [] then (s, Inl ErrInvalidInput)
      else Repo_IsProcessed coll db v consumerName eventID s)"

definition Pending :: "'s outbox_db \<Rightarrow> env \<Rightarrow> int \<Rightarrow> 's \<Rightarrow> 's \<times> (go_error + outbox_row list)" where
  "Pending db v limit s = FetchPending db v (normalizeLimit limit) s"

definition Service_List :: "'s outbox_db \<Rightarrow> env \<Rightarrow> int \<Rightarrow> int \<Rightarrow> 's \<Rightarrow> 's \<times> (go_error + outbox_row list)" where
  "Service_List db v limit offset s =
     (let offset = (if offset < 0 then 0 else offset) in Repo_List db v (normalizeLimit limit) offset s)"

definition Service_MarkSent :: "'s outbox_db \<Rightarrow> env \<Rightarrow> nat \<Rightarrow> 's \<Rightarrow> 's \<times> go_error option" where
  "Service_MarkSent db v i s = (if i = 0 then (s, Some ErrInvalidInput) else Repo_MarkSent db v i s)"

definition Service_MarkFailed :: "'s outbox_db \<Rightarrow> env \<Rightarrow> nat \<Rightarrow> 's \<Rightarrow> 's \<times> go_error option" where
  "Service_MarkFailed db v i s = (if i = 0 then (s, Some ErrInvalidInput) else Repo_MarkFailed db v i s)"

definition Service_MarkProcessed ::
  "(string \<Rightarrow> string) \<Rightarrow> (string \<Rightarrow> string) \<Rightarrow> 's processed_db \<Rightarrow> env \<Rightarrow> env \<Rightarrow> go_time option \<Rightarrow> string \<Rightarrow> outbox_row option \<Rightarrow>
     's \<Rightarrow> 's \<times> go_error option" where
  "Service_MarkProcessed coll lower db v1 v2 clock consumerName event s =
     (let consumerName = TrimSpace consumerName
      in case event of
           None \<Rightarrow> (s, Some ErrInvalidInput)
         | Some event \<Rightarrow>
             if consumerName = [] \<or> EventID event = [] \<or> TenantID event = 0 then (s, Some ErrInvalidInput)
             else case Repo_IsProcessed coll db v1 consumerName (EventID event) s of
                    (s, Inl err) \<Rightarrow> (s, Some err)
                  | (s, Inr processed) \<Rightarrow>
                      if processed then (s, None)
                      else let now = (case clock of Some t \<Rightarrow> t | None \<Rightarrow> wall v2)
                           in Repo_MarkProcessed lower db v2 \<lparr>ConsumerName = consumerName, ProcessedEventID = EventID event,
                                ProcessedTenantID = TenantID event, ProcessedAt = now\<rparr> s)"

section \<open>The outbox table\<close>

text \<open>Everything the code does to the table, in any order, with any clocks and any losses on the way.\<close>

inductive outbox_step :: "(rat \<Rightarrow> string) \<Rightarrow> (string \<Rightarrow> string) \<Rightarrow> 's outbox_db \<Rightarrow> 's \<Rightarrow> 's \<Rightarrow> bool" for ff lower db where
  publish: "outbox_step ff lower db s (fst (Publish ff lower db v uuid clock inp s))"
| insert_tx: "BuildOutbox ff uuid clock now inp = Inr e \<Longrightarrow> outbox_step ff lower db s (fst (InsertOutboxTx lower db v e s))"
| sent: "outbox_step ff lower db s (fst (Service_MarkSent db v i s))"
| failed: "outbox_step ff lower db s (fst (Service_MarkFailed db v i s))"

text \<open>What holds of every row, and of the table.\<close>

definition outbox_row_ok :: "outbox_row \<Rightarrow> bool" where
  "outbox_row_ok e \<longleftrightarrow> TenantID e \<noteq> 0 \<and> EventType e \<noteq> [] \<and> Source e \<noteq> [] \<and> Version e = 1 \<and> 0 \<le> RetryCount e \<and>
     (Status e = 0 \<or> Status e = 1 \<and> SentAt e \<noteq> None \<or> Status e = 2 \<and> 6 \<le> RetryCount e)"

definition outbox_inv :: "(string \<Rightarrow> string) \<Rightarrow> outbox_row multiset \<Rightarrow> bool" where
  "outbox_inv coll R \<longleftrightarrow> (\<forall>e \<in># R. outbox_row_ok e \<and> 0 < ID e) \<and>
     (\<exists>es. mset es = R \<and> distinct (map (\<lambda>e. coll (EventID e)) es) \<and> distinct (map ID es))"

lemma BuildOutbox_ok:
  assumes "BuildOutbox ff uuid clock now inp = Inr e"
  shows "outbox_row_ok e" and "EventID e = (if TrimSpace (in_EventID inp) = [] then newEventID uuid else TrimSpace (in_EventID inp))"
    and "RetryCount e = 0"
  using assms by (auto simp: BuildOutbox_def outbox_row_ok_def Let_def split: if_splits option.splits)

lemma outbox_inv_insert:
  assumes "outbox_inv coll R" and "outbox_row_ok e" and "\<forall>q \<in># R. \<not> outbox_clash coll q e" and "0 < i" and "\<forall>q \<in># R. ID q \<noteq> i"
  shows "outbox_inv coll (add_mset (outbox_with_id i e) R)"
proof -
  obtain es where "mset es = R" "distinct (map (\<lambda>e. coll (EventID e)) es)" "distinct (map ID es)"
    using assms(1) by (auto simp: outbox_inv_def)
  with assms(3-5) have "mset (outbox_with_id i e # es) = add_mset (outbox_with_id i e) R"
    "distinct (map (\<lambda>e. coll (EventID e)) (outbox_with_id i e # es))" "distinct (map ID (outbox_with_id i e # es))"
    by (auto simp: outbox_with_id_def outbox_clash_def)
  moreover have "\<forall>q \<in># add_mset (outbox_with_id i e) R. outbox_row_ok q \<and> 0 < ID q"
    using assms(1,2,4) by (auto simp: outbox_inv_def outbox_with_id_def outbox_row_ok_def)
  ultimately show ?thesis unfolding outbox_inv_def by blast
qed

lemma outbox_inv_update:
  assumes "outbox_inv coll R" and "\<And>e. EventID (f e) = EventID e \<and> ID (f e) = ID e" and "\<And>e. outbox_row_ok e \<Longrightarrow> outbox_row_ok (f e)"
  shows "outbox_inv coll (image_mset (\<lambda>e. if P e then f e else e) R)"
proof -
  obtain es where es: "mset es = R" "distinct (map (\<lambda>e. coll (EventID e)) es)" "distinct (map ID es)"
    using assms(1) by (auto simp: outbox_inv_def)
  define g where "g = (\<lambda>e. if P e then f e else e)"
  have g: "coll (EventID (g e)) = coll (EventID e)" "ID (g e) = ID e" for e using assms(2) by (simp_all add: g_def)
  have "mset (map g es) = image_mset g R" using es(1) by simp
  moreover have "distinct (map (\<lambda>e. coll (EventID e)) (map g es))" "distinct (map ID (map g es))"
    using es(2,3) by (simp_all add: comp_def g)
  moreover have "\<forall>e \<in># image_mset g R. outbox_row_ok e \<and> 0 < ID e"
    using assms(1-3) by (auto simp: outbox_inv_def g_def)
  ultimately show ?thesis unfolding outbox_inv_def g_def [symmetric] by blast
qed

lemma failed_row_ok: "outbox_row_ok e \<Longrightarrow> outbox_row_ok (failed_row now e)"
  by (auto simp: outbox_row_ok_def failed_row_def Let_def)


locale outbox_table = sql_table db rows outbox_fits "outbox_clash coll" "isDuplicateKey lower" ID outbox_with_id
  for db :: "'s outbox_db" and rows coll lower
begin

lemma InsertOutbox_cases:
  obtains (lost) e' where "InsertOutbox lower db v e s = (s, Inl e')" "net v \<noteq> Delivered"
  | (fail) s' e' where "InsertOutbox lower db v e s = (s', Inl e')" "rows s' = rows s"
      "outbox_fits e \<Longrightarrow> net v = Delivered \<Longrightarrow> e' = ErrDuplicateEvent \<and> (\<exists>q \<in># rows s. outbox_clash coll q e)"
  | (new) s' i res where "InsertOutbox lower db v e s = (s', res)" "rows s' = add_mset (outbox_with_id i e) (rows s)" "0 < i"
      "\<forall>q \<in># rows s. ID q \<noteq> i" "\<forall>q \<in># rows s. \<not> outbox_clash coll q e" "net v = Delivered \<Longrightarrow> res = Inr (outbox_with_id i e)"
proof (cases rule: INSERT_cases [of e s])
  case (fail e' s')
  show ?thesis
  proof (cases "net v")
    case Delivered
    then have "InsertOutbox lower db v e s = (s', Inl (if isDuplicateKey lower e' then ErrDuplicateEvent else e'))"
      by (simp add: InsertOutbox_def sql_call_defs fail(1))
    then show ?thesis by (rule that(2)) (use fail(2,3) in auto)
  next
    case (RequestLost x)
    show ?thesis by (rule that(1)) (simp_all add: InsertOutbox_def sql_call_defs RequestLost)
  next
    case (ReplyLost x)
    then have "InsertOutbox lower db v e s = (s', Inl (if isDuplicateKey lower x then ErrDuplicateEvent else x))"
      by (simp add: InsertOutbox_def sql_call_defs fail(1))
    then show ?thesis by (rule that(2)) (use fail(2) ReplyLost in auto)
  qed
next
  case (new i s')
  show ?thesis
  proof (cases "net v")
    case Delivered
    then have "InsertOutbox lower db v e s = (s', Inr (outbox_with_id i e))"
      by (simp add: InsertOutbox_def sql_call_defs new(1))
    then show ?thesis by (rule that(3)) (use new in auto)
  next
    case (RequestLost x)
    show ?thesis by (rule that(1)) (simp_all add: InsertOutbox_def sql_call_defs RequestLost)
  next
    case (ReplyLost x)
    then have "InsertOutbox lower db v e s = (s', Inl (if isDuplicateKey lower x then ErrDuplicateEvent else x))"
      by (simp add: InsertOutbox_def sql_call_defs new(1))
    then show ?thesis by (rule that(3)) (use new ReplyLost in auto)
  qed
qed

lemma InsertOutboxTx_eq: "InsertOutboxTx lower db v e s = InsertOutbox lower db v e s"
  by (simp add: InsertOutboxTx_def InsertOutbox_def)

lemma insert_inv:
  assumes "outbox_inv coll (rows s)" and "outbox_row_ok e"
  shows "outbox_inv coll (rows (fst (InsertOutbox lower db v e s)))"
proof (cases rule: InsertOutbox_cases [of v e s])
  case (new s' i res)
  with outbox_inv_insert [OF assms new(5,3,4)] show ?thesis by simp
qed (use assms in simp_all)

lemma update_inv:
  assumes "outbox_inv coll (rows s)" and "\<And>e. EventID (f e) = EventID e \<and> ID (f e) = ID e"
    and "\<And>e. outbox_row_ok e \<Longrightarrow> outbox_row_ok (f e)"
  shows "outbox_inv coll (rows (fst (sql_update db l P f s)))"
proof -
  have "outbox_inv coll (rows (fst (UPDATE db P f s)))"
    by (cases rule: UPDATE_cases [of P f s]) (use outbox_inv_update [OF assms, of P] assms(1) in simp_all)
  with assms(1) show ?thesis by (cases l) (simp_all add: sql_call_defs)
qed

lemma mark_sent_inv:
  "outbox_inv coll (rows s) \<Longrightarrow> outbox_inv coll (rows (fst (Service_MarkSent db v i s)))"
proof -
  assume inv: "outbox_inv coll (rows s)"
  have "fst (Repo_MarkSent db v i s) = fst (sql_update db (net v) (\<lambda>e. ID e = i) (\<lambda>e. e\<lparr>Status := 1, SentAt := Some (wall v)\<rparr>) s)"
    by (simp add: Repo_MarkSent_def split: prod.splits sum.splits)
  moreover have "outbox_inv coll (rows (fst (sql_update db (net v) (\<lambda>e. ID e = i) (\<lambda>e. e\<lparr>Status := 1, SentAt := Some (wall v)\<rparr>) s)))"
    by (rule update_inv [OF inv]) (simp_all add: outbox_row_ok_def)
  ultimately show ?thesis using inv by (simp add: Service_MarkSent_def)
qed

lemma fst_MarkFailed:
  "fst (Repo_MarkFailed db v i s) = fst (sql_update db (net v) (\<lambda>e. ID e = i) (failed_row (server v)) s)"
  by (simp add: Repo_MarkFailed_def split: prod.splits sum.splits)

lemma mark_failed_inv:
  "outbox_inv coll (rows s) \<Longrightarrow> outbox_inv coll (rows (fst (Service_MarkFailed db v i s)))"
proof -
  assume inv: "outbox_inv coll (rows s)"
  have "outbox_inv coll (rows (fst (sql_update db (net v) (\<lambda>e. ID e = i) (failed_row (server v)) s)))"
    by (rule update_inv [OF inv]) (simp_all add: failed_row_ok, simp_all add: failed_row_def Let_def)
  with inv show ?thesis by (simp add: Service_MarkFailed_def fst_MarkFailed)
qed

lemma step_inv: "outbox_step ff lower db s s' \<Longrightarrow> outbox_inv coll (rows s) \<Longrightarrow> outbox_inv coll (rows s')"
proof (induction rule: outbox_step.induct)
  case (publish s v uuid clock inp)
  then show ?case
    by (cases "BuildOutbox ff uuid clock (wall v) inp") (simp_all add: Publish_def insert_inv BuildOutbox_ok)
next
  case (insert_tx uuid clock now inp e s v)
  from insert_inv [OF insert_tx(2) BuildOutbox_ok(1) [OF insert_tx(1)]] show ?case by (simp add: InsertOutboxTx_eq)
qed (rule mark_sent_inv mark_failed_inv; assumption)+

lemma reachable_inv:
  assumes "(outbox_step ff lower db)\<^sup>*\<^sup>* s0 s" and "rows s0 = {#}"
  shows "outbox_inv coll (rows s)"
  using assms
proof (induction rule: rtranclp_induct)
  case (step s s')
  then show ?case using step_inv [OF step.hyps(2)] by simp
qed (simp add: outbox_inv_def)

end

text \<open>The database is the only assumption of the lemmas above; a list of rows satisfies it.\<close>

lemma duplicate_entry_found: "isDuplicateKey lower duplicate_entry"
  by (simp add: isDuplicateKey_def duplicate_entry_def ToLower_def is_ascii_def lower_char_def)

lemma data_too_long_other: "\<not> isDuplicateKey lower data_too_long"
  by (simp add: isDuplicateKey_def data_too_long_def ToLower_def is_ascii_def lower_char_def)

abbreviation mini_outbox :: "(outbox_row list, outbox_row) sql" where
  "mini_outbox \<equiv> mini_sql outbox_fits (outbox_clash id) ID outbox_with_id"

interpretation mini_outbox: outbox_table mini_outbox mset id id
  unfolding outbox_table_def by (rule mini_sql_table [OF duplicate_entry_found data_too_long_other])

lemma outbox_tableI:
  "sql_table db rows outbox_fits (outbox_clash coll) (isDuplicateKey lower) ID outbox_with_id \<Longrightarrow> outbox_table db rows coll lower"
  by (simp add: outbox_table_def)


definition sample_env :: env where
  "sample_env = \<lparr>net = Delivered, wall = 100, server = 100\<rparr>"

definition sample_input :: publish_input where
  "sample_input = \<lparr>in_EventID = ''ev1'', in_TenantID = 7, in_EventType = ''order.paid'', in_Source = ''shop'', in_CorrelationID = [],
     in_Actor = VNil, in_Payload = VNil\<rparr>"

definition sample_row :: outbox_row where
  "sample_row = \<lparr>ID = 0, EventID = ''ev1'', TenantID = 7, EventType = ''order.paid'', Version = 1, Actor = ''null'',
     CorrelationID = None, Source = ''shop'', Payload = ''null'', Status = 0, RetryCount = 0, NextRetryAt = None,
     OccurredAt = 50, SentAt = None\<rparr>"

lemma sample_build: "BuildOutbox ff uuid (Some 50) now sample_input = Inr sample_row"
  by (simp add: BuildOutbox_def sample_input_def sample_row_def go_string_simps is_graphic_def)

lemma Valid_null: "Valid ''null''"
  by code_simp

lemma sample_fits: "outbox_fits sample_row"
  by (simp add: outbox_fits_def sample_row_def RuneCount_def range_runes_all_ascii is_ascii_def Valid_null)



section \<open>Publishing again\<close>

context outbox_table
begin

abbreviation copies :: "string \<Rightarrow> 's \<Rightarrow> nat" where
  "copies i s \<equiv> size {#q \<in># rows s. coll (EventID q) = coll i#}"

lemma insert_copies:
  assumes "outbox_fits e" and "net v = Delivered"
  shows "copies (EventID e) (fst (InsertOutbox lower db v e s)) = max 1 (copies (EventID e) s) \<and>
    (if copies (EventID e) s = 0 then \<exists>i. snd (InsertOutbox lower db v e s) = Inr (outbox_with_id i e)
     else snd (InsertOutbox lower db v e s) = Inl ErrDuplicateEvent)"
proof (cases rule: InsertOutbox_cases [of v e s])
  case (lost e')
  with assms(2) show ?thesis by simp
next
  case (fail s' e')
  from fail(3) [OF assms] obtain q where q: "e' = ErrDuplicateEvent" "q \<in># rows s" "coll (EventID q) = coll (EventID e)"
    by (auto simp: outbox_clash_def)
  then have "q \<in># {#q \<in># rows s. coll (EventID q) = coll (EventID e)#}" by simp
  then have "0 < copies (EventID e) s" by (metis gr0I size_eq_0_iff_empty empty_iff set_mset_empty)
  with fail(1,2) q show ?thesis by (auto simp: max_def)
next
  case (new s' i res)
  then have "{#q \<in># rows s. coll (EventID q) = coll (EventID e)#} = {#}" by (auto simp: filter_mset_eq_conv outbox_clash_def)
  then have "copies (EventID e) s = 0" by simp
  moreover have "copies (EventID e) s' = Suc (copies (EventID e) s)" using new(2) by (simp add: outbox_with_id_def)
  ultimately show ?thesis using new(1,6) assms(2) by auto
qed

lemma insert_copies_le:
  assumes "copies (EventID e) s \<le> 1"
  shows "copies (EventID e) (fst (InsertOutbox lower db v e s)) \<le> 1"
proof (cases rule: InsertOutbox_cases [of v e s])
  case (new s' i res)
  then have "{#q \<in># rows s. coll (EventID q) = coll (EventID e)#} = {#}" by (auto simp: filter_mset_eq_conv outbox_clash_def)
  then show ?thesis using new(1,2) by (simp add: outbox_with_id_def)
qed (use assms in simp_all)

end

text \<open>C22: Publishing an event again after a first attempt with an unknown outcome is safe. If the caller names the event, then whatever became of
  the first attempt (stored, never arrived, or stored with the reply lost), after the second there is exactly one row with that id, and the caller
  sees success or \<^verbatim>\<open>ErrDuplicateEvent\<close>; after a first attempt that reported success it is the latter.\<close>
theorem publish_retry_once:
  assumes "sql_table db rows outbox_fits (outbox_clash coll) (isDuplicateKey lower) ID outbox_with_id"
    and "BuildOutbox ff uuid1 clock1 (wall v1) inp = Inr e1" and "BuildOutbox ff uuid2 clock2 (wall v2) inp = Inr e2"
    and "TrimSpace (in_EventID inp) \<noteq> []" and "outbox_fits e2" and "net v2 = Delivered"
    and "size {#q \<in># rows s. coll (EventID q) = coll (EventID e2)#} \<le> 1"
    and "Publish ff lower db v1 uuid1 clock1 inp s = (s1, r1)" and "Publish ff lower db v2 uuid2 clock2 inp s1 = (s2, r2)"
  shows "size {#q \<in># rows s2. coll (EventID q) = coll (EventID e2)#} = 1 \<and>
    (r2 = Inl ErrDuplicateEvent \<or> (\<exists>i. r2 = Inr (outbox_with_id i e2))) \<and>
    (is_ok r1 \<longrightarrow> r2 = Inl ErrDuplicateEvent)"
proof -
  note T = outbox_tableI [OF assms(1)]
  have same: "EventID e1 = EventID e2" using BuildOutbox_ok(2) [OF assms(2)] BuildOutbox_ok(2) [OF assms(3)] assms(4) by simp
  have 1: "InsertOutbox lower db v1 e1 s = (s1, r1)" and 2: "InsertOutbox lower db v2 e2 s1 = (s2, r2)"
    using assms(2,3,8,9) by (simp_all add: Publish_def)
  have c1: "size {#q \<in># rows s1. coll (EventID q) = coll (EventID e2)#} \<le> 1"
    using outbox_table.insert_copies_le [OF T, of e1 s v1] assms(7) 1 same by simp
  have "size {#q \<in># rows s1. coll (EventID q) = coll (EventID e2)#} \<noteq> 0" if "is_ok r1"
    using that
  proof (cases rule: outbox_table.InsertOutbox_cases [OF T, of v1 e1 s])
    case (3 s' i res)
    then have "outbox_with_id i e1 \<in># {#q \<in># rows s1. coll (EventID q) = coll (EventID e2)#}"
      using 1 same by (simp add: outbox_with_id_def)
    then show ?thesis by auto
  qed (use 1 in auto)
  with outbox_table.insert_copies [OF T assms(5,6), of s1] 2 c1 show ?thesis
    by (auto split: if_splits)
qed

theorem publish_retry_once_witness:
  "size {#q \<in># mset [sample_row\<lparr>ID := 1\<rparr>]. id (EventID q) = id (EventID sample_row)#} = 1"
proof -
  define lost where "lost = sample_env\<lparr>net := ReplyLost (ErrorNew ''timeout'')\<rparr>"
  have "Publish (\<lambda>_. []) id mini_outbox lost ''u'' (Some 50) sample_input [] = ([sample_row\<lparr>ID := 1\<rparr>], Inl (ErrorNew ''timeout''))"
    by (simp add: Publish_def sample_build InsertOutbox_def sql_call_defs sample_env_def mini_sql_def mini_insert_def sample_fits
      outbox_with_id_def Let_def lost_def isDuplicateKey_def ToLower_def is_ascii_def lower_char_def)
  moreover have "Publish (\<lambda>_. []) id mini_outbox sample_env ''u'' (Some 50) sample_input [sample_row\<lparr>ID := 1\<rparr>] =
      ([sample_row\<lparr>ID := 1\<rparr>], Inl ErrDuplicateEvent)"
    by (simp add: Publish_def sample_build InsertOutbox_def sql_call_defs sample_env_def mini_sql_def mini_insert_def sample_fits
      outbox_clash_def duplicate_entry_found)
  ultimately show ?thesis
    using publish_retry_once [OF mini_outbox.sql_table_axioms sample_build [of "\<lambda>_. []" "''u''" "wall lost"]
      sample_build [of "\<lambda>_. []" "''u''" "wall sample_env"], of "[]"]
    by (simp add: sample_fits sample_env_def sample_input_def go_string_simps is_graphic_def)
qed

section \<open>Fetching\<close>

text \<open>A batch of pending events holds at most the limit (at most a hundred) of the rows that are due, oldest first, and
  no due row that is left out is older than one that is returned: events are never overtaken by newer ones.\<close>
theorem pending_oldest_first:
  assumes "sql_table db rows outbox_fits (outbox_clash coll) (isDuplicateKey lower) ID outbox_with_id"
    and "Pending db v limit s = (s', Inr es)"
  shows "length es \<le> 100 \<and> (1 \<le> limit \<and> limit \<le> 100 \<longrightarrow> length es \<le> nat limit) \<and> sorted_wrt (\<lambda>e f. OccurredAt e \<le> OccurredAt f) es \<and>
    (\<exists>left. mset es + left = {#e \<in># rows s. outbox_due (wall v) e#} \<and> (left \<noteq> {#} \<longrightarrow> int (length es) = normalizeLimit limit) \<and>
       (\<forall>e \<in> set es. \<forall>f \<in># left. OccurredAt e \<le> OccurredAt f))"
proof -
  note T = outbox_tableI [OF assms(1), unfolded outbox_table_def]
  define n where "n = nat (normalizeLimit limit)"
  define all where "all = SELECT db (outbox_due (wall v)) (\<lambda>e f. OccurredAt e \<le> OccurredAt f) s"
  have n: "n \<le> 100" "1 \<le> limit \<and> limit \<le> 100 \<longrightarrow> n = nat limit" "int n = normalizeLimit limit"
    by (auto simp: n_def normalizeLimit_def)
  have es: "es = take n all"
    using assms(2) n(3) by (cases "net v") (auto simp: Pending_def FetchPending_def sql_call_defs sql_limit_def all_def n_def)
  have m: "mset all = {#e \<in># rows s. outbox_due (wall v) e#}" unfolding all_def by (rule sql_table.SELECT_rows [OF T])
  have "sorted_wrt (\<lambda>e f. OccurredAt e \<le> OccurredAt f) all"
    unfolding all_def by (rule sql_table.SELECT_sorted [OF T]) (auto simp: totalp_on_def transp_on_def reflp_on_def)
  then have "sorted_wrt (\<lambda>e f. OccurredAt e \<le> OccurredAt f) (take n all @ drop n all)" by simp
  then have so: "sorted_wrt (\<lambda>e f. OccurredAt e \<le> OccurredAt f) es" "\<forall>e \<in> set es. \<forall>f \<in> set (drop n all). OccurredAt e \<le> OccurredAt f"
    unfolding sorted_wrt_append es by blast+
  have "mset es + mset (drop n all) = mset all" unfolding es mset_append [symmetric] by simp
  with m so n es show ?thesis by (intro conjI exI [of _ "mset (drop n all)"]) auto
qed

theorem pending_oldest_first_witness:
  "\<exists>left. mset [sample_row\<lparr>ID := 1\<rparr>] + left = {#e \<in># mset [sample_row\<lparr>ID := 1\<rparr>]. outbox_due 100 e#}"
proof -
  have "Pending mini_outbox sample_env 10 [sample_row\<lparr>ID := 1\<rparr>] = ([sample_row\<lparr>ID := 1\<rparr>], Inr [sample_row\<lparr>ID := 1\<rparr>])"
    by (simp add: Pending_def FetchPending_def sql_call_defs sample_env_def sample_row_def mini_sql_def outbox_due_def sql_limit_def normalizeLimit_def)
  from pending_oldest_first [OF mini_outbox.sql_table_axioms this] obtain left where
    "mset [sample_row\<lparr>ID := 1\<rparr>] + left = {#e \<in># mset [sample_row\<lparr>ID := 1\<rparr>]. outbox_due (wall sample_env) e#}" by blast
  then show ?thesis by (intro exI [of _ left]) (simp only: sample_env_def env.simps)
qed

section \<open>Failing\<close>

lemma failed_rows:
  assumes "RetryCount e = 0" and "ts \<noteq> []"
  shows "foldl (\<lambda>e t. failed_row t e) e ts = e\<lparr>Status := if length ts < 6 then 0 else 2, RetryCount := int (length ts),
    NextRetryAt := Some (last ts + 10 * second * 2 ^ min (length ts) 5)\<rparr>"
  using assms(2)
proof (induction ts rule: rev_induct)
  case (snoc t ts)
  show ?case
  proof (cases "ts = []")
    case True
    with assms(1) show ?thesis by (simp add: failed_row_def)
  next
    case False
    have "nat (min (int (length ts) + 1) 5) = min (Suc (length ts)) 5" by (simp add: min_def nat_add_distrib)
    then show ?thesis unfolding foldl_append snoc.IH [OF False] by (simp add: failed_row_def Let_def)
  qed
qed simp

fun mark_failed_all :: "'s outbox_db \<Rightarrow> nat \<Rightarrow> env list \<Rightarrow> 's \<Rightarrow> 's" where
  "mark_failed_all db i [] s = s"
| "mark_failed_all db i (v # vs) s = mark_failed_all db i vs (fst (Service_MarkFailed db v i s))"

lemma mset_take_le: "mset (take n xs) \<subseteq># mset xs"
  by (metis append_take_drop_id mset_append mset_subset_eq_add_left)

context outbox_table
begin

lemma mark_failed_rows:
  assumes "0 < i" and "\<forall>v \<in> set vs. net v = Delivered"
  shows "rows (mark_failed_all db i vs s) =
    image_mset (\<lambda>e. if ID e = i then foldl (\<lambda>e t. failed_row t e) e (map server vs) else e) (rows s)"
  using assms(2)
proof (induction vs arbitrary: s)
  case (Cons v vs)
  have id: "ID (failed_row t e) = ID e" for t e by (simp add: failed_row_def Let_def)
  have "rows (fst (UPDATE db (\<lambda>e. ID e = i) (failed_row (server v)) s)) =
      image_mset (\<lambda>e. if ID e = i then failed_row (server v) e else e) (rows s)"
    by (rule UPDATE_total) (simp add: outbox_fits_def failed_row_def Let_def)
  then have "rows (fst (Service_MarkFailed db v i s)) = image_mset (\<lambda>e. if ID e = i then failed_row (server v) e else e) (rows s)"
    using Cons.prems assms(1) by (simp add: Service_MarkFailed_def fst_MarkFailed sql_call_defs)
  with Cons show ?case by (simp add: multiset.map_comp comp_def id) (intro image_mset_cong, simp add: id)
next
  case Nil
  have "(\<lambda>e :: outbox_row. if ID e = i then foldl (\<lambda>e t. failed_row t e) e (map server ([] :: env list)) else e) = (\<lambda>e. e)" by (rule ext) simp
  then show ?case by (simp only: mark_failed_all.simps multiset.map_ident)
qed

end

text \<open>C23: The retry schedule. A new event that is reported failed \<open>k\<close> times in a row is pending again after each of the first five failures, due 10 s, doubled
  \<open>min k 5\<close> times, after the last one; from the sixth failure on it is given up, and no fetch at any later time returns it.\<close>
theorem failure_schedule:
  assumes "sql_table db rows outbox_fits (outbox_clash coll) (isDuplicateKey lower) ID outbox_with_id"
    and "e \<in># rows s" and "0 < ID e" and "RetryCount e = 0" and "vs \<noteq> []" and "\<forall>v \<in> set vs. net v = Delivered"
    and "\<forall>f \<in># rows s. ID f = ID e \<longrightarrow> f = e"
  shows "\<exists>f \<in># rows (mark_failed_all db (ID e) vs s). ID f = ID e \<and> RetryCount f = int (length vs) \<and>
      (if length vs < 6 then Status f = 0 \<and> NextRetryAt f = Some (server (last vs) + 10 * second * 2 ^ min (length vs) 5)
       else \<forall>v limit s' es. Pending db v limit (mark_failed_all db (ID e) vs s) = (s', Inr es) \<longrightarrow> (\<forall>g \<in> set es. ID g \<noteq> ID e))"
proof -
  note T = outbox_tableI [OF assms(1)]
  let ?t = "mark_failed_all db (ID e) vs s"
  define f where "f = e\<lparr>Status := if length vs < 6 then 0 else 2, RetryCount := int (length vs),
    NextRetryAt := Some (server (last vs) + 10 * second * 2 ^ min (length vs) 5)\<rparr>"
  have f: "foldl (\<lambda>e t. failed_row t e) e (map server vs) = f"
    using failed_rows [OF assms(4), of "map server vs"] assms(5) by (simp add: f_def last_map)
  note rows = outbox_table.mark_failed_rows [OF T assms(3,6), of s]
  have mem: "f \<in># rows ?t" using assms(2) f unfolding rows by (auto simp: image_iff intro!: bexI [of _ e])
  have only: "g = f" if "g \<in># rows ?t" "ID g = ID e" for g
    using that assms(7) f unfolding rows by (auto split: if_splits)
  have "ID g \<noteq> ID e" if "\<not> length vs < 6" "Pending db v limit ?t = (s', Inr es)" "g \<in> set es" for v limit s' es g
  proof
    assume "ID g = ID e"
    have "mset es \<subseteq># {#e \<in># rows ?t. outbox_due (wall v) e#}"
      using that(2) sql_table.SELECT_rows [OF assms(1), of "outbox_due (wall v)" "\<lambda>e f. OccurredAt e \<le> OccurredAt f" ?t]
      by (cases "net v") (auto simp: Pending_def FetchPending_def sql_call_defs sql_limit_def mset_take_le dest: sym)
    with that(3) have "g \<in># rows ?t" "outbox_due (wall v) g" by (auto dest: mset_subset_eqD)
    with only [of g] \<open>ID g = ID e\<close> that(1) show False by (simp add: f_def outbox_due_def)
  qed
  then show ?thesis using mem by (intro bexI [of _ f]) (auto simp: f_def)
qed

theorem failure_schedule_witness:
  "\<exists>f \<in># mset (mark_failed_all mini_outbox 1 [sample_env, sample_env] [sample_row\<lparr>ID := 1\<rparr>]).
     ID f = 1 \<and> RetryCount f = 2 \<and> NextRetryAt f = Some (100 + 40 * second)"
  using failure_schedule [OF mini_outbox.sql_table_axioms, of "sample_row\<lparr>ID := 1\<rparr>" "[sample_row\<lparr>ID := 1\<rparr>]" "[sample_env, sample_env]"]
  by (auto simp: sample_row_def sample_env_def simp del: mark_failed_all.simps)

section \<open>Consumers\<close>

text \<open>The records of a consumer and an event.\<close>

definition records :: "(string \<Rightarrow> string) \<Rightarrow> string \<Rightarrow> string \<Rightarrow> event_processed multiset \<Rightarrow> event_processed multiset" where
  "records coll c i R = {#p \<in># R. coll (ConsumerName p) = coll c \<and> coll (ProcessedEventID p) = coll i#}"

lemma records_add:
  "records coll c i (add_mset p R) =
     (if coll (ConsumerName p) = coll c \<and> coll (ProcessedEventID p) = coll i then add_mset p (records coll c i R) else records coll c i R)"
  by (simp add: records_def)

lemma records_clash:
  "records coll (ConsumerName p) (ProcessedEventID p) R = {#} \<longleftrightarrow> (\<forall>q \<in># R. \<not> processed_clash coll q p)"
  by (auto simp: records_def processed_clash_def filter_mset_eq_conv)

locale processed_table = sql_table db rows processed_fits "processed_clash coll" "isDuplicateKey lower" "\<lambda>_. 0" "\<lambda>_ p. p"
  for db :: "'s processed_db" and rows coll lower
begin

lemma IsProcessed_delivered:
  "net v = Delivered \<Longrightarrow> Repo_IsProcessed coll db v c i s = (s, Inr (records coll c i (rows s) \<noteq> {#}))"
  unfolding records_def SELECT_rows [of "\<lambda>p. coll (ConsumerName p) = coll c \<and> coll (ProcessedEventID p) = coll i" "\<lambda>_ _. True" s, symmetric]
  by (simp add: Repo_IsProcessed_def sql_call_defs)

lemma IsProcessed_same: "fst (Repo_IsProcessed coll db v c i s) = s"
  by (cases "net v") (simp_all add: Repo_IsProcessed_def sql_call_defs)

lemma MarkProcessed_cases:
  obtains (kept) s' e where "Repo_MarkProcessed lower db v p s = (s', e)" "rows s' = rows s"
      "net v = Delivered \<Longrightarrow> processed_fits p \<Longrightarrow> e = None \<and> records coll (ConsumerName p) (ProcessedEventID p) (rows s) \<noteq> {#}"
  | (new) s' e where "Repo_MarkProcessed lower db v p s = (s', e)" "rows s' = add_mset p (rows s)"
      "records coll (ConsumerName p) (ProcessedEventID p) (rows s) = {#}"
proof (cases rule: INSERT_cases [of p s])
  case (fail x s')
  have clash: "records coll (ConsumerName p) (ProcessedEventID p) (rows s) \<noteq> {#}" if "processed_fits p"
    unfolding records_clash using fail(3) that by blast
  show ?thesis
  proof (cases "net v")
    case Delivered
    show ?thesis
      by (rule that(1) [of s' "if isDuplicateKey lower x then None else Some x"])
        (use fail clash Delivered in \<open>auto simp: Repo_MarkProcessed_def sql_call_defs\<close>)
  next
    case (RequestLost y)
    show ?thesis
      by (rule that(1) [of s "if isDuplicateKey lower y then None else Some y"])
        (simp_all add: RequestLost Repo_MarkProcessed_def sql_call_defs)
  next
    case (ReplyLost y)
    show ?thesis
      by (rule that(1) [of s' "if isDuplicateKey lower y then None else Some y"])
        (simp_all add: fail ReplyLost Repo_MarkProcessed_def sql_call_defs)
  qed
next
  case (new i s')
  have none: "records coll (ConsumerName p) (ProcessedEventID p) (rows s) = {#}" unfolding records_clash by (rule new(6))
  show ?thesis
  proof (cases "net v")
    case Delivered
    show ?thesis by (rule that(2) [of s' None]) (simp_all add: new none Delivered Repo_MarkProcessed_def sql_call_defs)
  next
    case (RequestLost y)
    show ?thesis
      by (rule that(1) [of s "if isDuplicateKey lower y then None else Some y"])
        (simp_all add: RequestLost Repo_MarkProcessed_def sql_call_defs)
  next
    case (ReplyLost y)
    show ?thesis
      by (rule that(2) [of s' "if isDuplicateKey lower y then None else Some y"])
        (simp_all add: new none ReplyLost Repo_MarkProcessed_def sql_call_defs)
  qed
qed

text \<open>The service either leaves the table alone, reporting an error or an existing record, or stores the record.\<close>

lemma Service_MarkProcessed_cases:
  assumes "Service_MarkProcessed coll lower db v1 v2 clock c (Some event) s = (s', err)"
  obtains (kept) "s' = s" "err = None \<Longrightarrow> Repo_IsProcessed coll db v1 (TrimSpace c) (EventID event) s = (s, Inr True)"
  | (mark) p where "Repo_MarkProcessed lower db v2 p s = (s', err)" "ConsumerName p = TrimSpace c" "ProcessedEventID p = EventID event"
proof -
  obtain r where r: "Repo_IsProcessed coll db v1 (TrimSpace c) (EventID event) s = (s, r)"
    using IsProcessed_same by (metis prod.collapse)
  show ?thesis
  proof (cases "TrimSpace c = [] \<or> EventID event = [] \<or> TenantID event = 0 \<or> r \<noteq> Inr False")
    case True
    have "s' = s \<and> (err = None \<longrightarrow> r = Inr True)"
    proof (cases r)
      case (Inr b)
      with True assms r show ?thesis by (cases b) (auto simp: Service_MarkProcessed_def Let_def split: if_splits)
    qed (use assms r in \<open>auto simp: Service_MarkProcessed_def Let_def split: if_splits\<close>)
    with r show ?thesis by (intro that(1)) simp_all
  next
    case False
    show ?thesis
      by (rule that(2) [of "\<lparr>ConsumerName = TrimSpace c, ProcessedEventID = EventID event, ProcessedTenantID = TenantID event,
          ProcessedAt = (case clock of Some t \<Rightarrow> t | None \<Rightarrow> wall v2)\<rparr>"])
        (use False assms r in \<open>simp_all add: Service_MarkProcessed_def Let_def\<close>)
  qed
qed

end

abbreviation mini_processed :: "(event_processed list, event_processed) sql" where
  "mini_processed \<equiv> mini_sql processed_fits (processed_clash id) (\<lambda>_. 0) (\<lambda>_ p. p)"

interpretation mini_processed: processed_table mini_processed mset id id
  unfolding processed_table_def by (rule mini_sql_table [OF duplicate_entry_found data_too_long_other])

lemma processed_tableI:
  "sql_table db rows processed_fits (processed_clash coll) (isDuplicateKey lower) (\<lambda>_. 0) (\<lambda>_ p. p) \<Longrightarrow> processed_table db rows coll lower"
  by (simp add: processed_table_def)

text \<open>Recording an event as processed is idempotent. From a table with at most one record for the consumer and the event, whatever the network loses there is at most
  one afterwards; and once the call has returned without an error over a network that delivers, there is one, so that asking again
  with the trimmed consumer name answers yes.\<close>
theorem mark_processed_once:
  assumes "sql_table db rows processed_fits (processed_clash coll) (isDuplicateKey lower) (\<lambda>_. 0) (\<lambda>_ p. p)"
    and "Service_MarkProcessed coll lower db v1 v2 clock c (Some event) s = (s', err)"
    and "size (records coll (TrimSpace c) (EventID event) (rows s)) \<le> 1"
    and "RuneCount (TrimSpace c) \<le> 64" and "RuneCount (EventID event) \<le> 32"
  shows "size (records coll (TrimSpace c) (EventID event) (rows s')) \<le> 1 \<and>
    (err = None \<and> net v1 = Delivered \<and> net v2 = Delivered \<and> net v3 = Delivered \<longrightarrow>
       Repo_IsProcessed coll db v3 (TrimSpace c) (EventID event) s' = (s', Inr True))"
proof -
  note T = processed_tableI [OF assms(1)]
  note I = processed_table.IsProcessed_delivered [OF T]
  show ?thesis
  proof (cases rule: processed_table.Service_MarkProcessed_cases [OF T assms(2)])
    case 1
    with assms(3) I [of v1 "TrimSpace c" "EventID event" s] I [of v3 "TrimSpace c" "EventID event" s] show ?thesis by auto
  next
    case (2 p)
    note mark = 2
    have fits: "processed_fits p" using mark assms(4,5) by (simp add: processed_fits_def)
    show ?thesis
    proof (cases rule: processed_table.MarkProcessed_cases [OF T, of v2 p s])
      case (1 t e)
      with mark fits assms(3) I [of v3 "TrimSpace c" "EventID event" s'] show ?thesis by auto
    next
      case (2 t e)
      with mark I [of v3 "TrimSpace c" "EventID event" s'] show ?thesis by (simp add: records_add)
    qed
  qed
qed

lemma sample_trim: "TrimSpace '' billing '' = ''billing''"
  by code_simp

lemma sample_mark:
  "Service_MarkProcessed id id mini_processed sample_env sample_env (Some 60) '' billing '' (Some sample_row) [] =
     ([\<lparr>ConsumerName = ''billing'', ProcessedEventID = ''ev1'', ProcessedTenantID = 7, ProcessedAt = 60\<rparr>], None)"
  by (simp add: Service_MarkProcessed_def sample_trim sample_row_def Repo_IsProcessed_def Repo_MarkProcessed_def sql_call_defs sample_env_def
    mini_sql_def mini_insert_def processed_fits_def RuneCount_def range_runes_all_ascii is_ascii_def Let_def)

theorem mark_processed_once_witness:
  "Repo_IsProcessed id mini_processed sample_env ''billing'' ''ev1''
     (fst (Service_MarkProcessed id id mini_processed sample_env sample_env (Some 60) '' billing '' (Some sample_row) [])) =
   (fst (Service_MarkProcessed id id mini_processed sample_env sample_env (Some 60) '' billing '' (Some sample_row) []), Inr True)"
  using mark_processed_once [OF mini_processed.sql_table_axioms sample_mark, of sample_env] sample_mark
  by (simp add: sample_trim sample_row_def sample_env_def RuneCount_def range_runes_all_ascii is_ascii_def records_def)

text \<open>\<^verbatim>\<open>MarkProcessed\<close> stores the trimmed consumer name but \<^verbatim>\<open>IsProcessed\<close> looks up the name as given. Under a collation that distinguishes
  the two, a consumer whose name has white space around it is told that an event it has just recorded is not processed.\<close>
theorem is_processed_untrimmed:
  assumes "sql_table db rows processed_fits (processed_clash coll) (isDuplicateKey lower) (\<lambda>_. 0) (\<lambda>_ p. p)"
    and "Service_MarkProcessed coll lower db v1 v2 clock c (Some event) s = (s', None)" and "net v3 = Delivered"
    and "TrimSpace (EventID event) \<noteq> []" and "coll c \<noteq> coll (TrimSpace c)"
    and "records coll c (EventID event) (rows s) = {#}"
  shows "Service_IsProcessed coll db v3 c (EventID event) s' = (s', Inr False)"
proof -
  note T = processed_tableI [OF assms(1)]
  have "records coll c (EventID event) (rows s') = {#}"
  proof (cases rule: processed_table.Service_MarkProcessed_cases [OF T assms(2)])
    case (2 p)
    note mark = 2
    show ?thesis
      by (cases rule: processed_table.MarkProcessed_cases [OF T, of v2 p s]) (use mark assms(5,6) in \<open>simp_all add: records_add\<close>)
  qed (use assms(6) in simp)
  moreover have "TrimSpace c \<noteq> []" using assms(2) by (auto simp: Service_MarkProcessed_def)
  ultimately show ?thesis using assms(3,4) by (simp add: Service_IsProcessed_def processed_table.IsProcessed_delivered [OF T])
qed

theorem is_processed_untrimmed_witness:
  "snd (Service_IsProcessed id mini_processed sample_env '' billing '' ''ev1''
     (fst (Service_MarkProcessed id id mini_processed sample_env sample_env (Some 60) '' billing '' (Some sample_row) []))) = Inr False"
  using is_processed_untrimmed [OF mini_processed.sql_table_axioms sample_mark, of sample_env] sample_mark
  by (simp add: sample_trim sample_row_def sample_env_def records_def go_string_simps is_graphic_def)

end
