(* ===== verification/Auth.thy ===== *)
theory Auth
  imports Go_Time Go_Strings Go_Strconv
begin

text \<open>
  The \<^verbatim>\<open>auth\<close> package: platform, tenant and step-up tokens. The JWT library is not part of the repository; it is
  the parameter \<open>lib\<close> of the token service. A token's claims travel as one JSON object, so the payload has every
  field any of the claim types has, with the zero value where a token does not carry it; each claim
  type is the part of the payload it names. The locale \<open>jwt_library\<close> states what the library documents.
\<close>

section \<open>Secrets\<close>

definition ErrInvalidToken :: go_error where
  "ErrInvalidToken = ErrorNew ''auth: invalid or expired token''"

definition ErrWrongType :: go_error where
  "ErrWrongType = ErrorNew ''auth: token type mismatch''"

definition ErrInvalidStepUp :: go_error where
  "ErrInvalidStepUp = ErrorNew ''auth: invalid step-up token request''"

definition DefaultAudience :: string where
  "DefaultAudience = ''synapse''"

definition knownBadSecrets :: "string list" where
  "knownBadSecrets = [
     ''your_production_jwt_secret_key_here'',
     ''dev_jwt_secret_key_please_change_in_production'',
     ''dev_jwt_secret_key_please_change_in_production_32chars'',
     ''test_jwt_secret_key_32chars_for_testing'',
     ''change_me'', ''secret'', ''jwt_secret'', ''default_secret'']"

abbreviation minSecretLen :: nat where
  "minSecretLen \<equiv> 32"

abbreviation MaxStepUpTTL :: duration where
  "MaxStepUpTTL \<equiv> 5 * minute"

definition ValidateSecretStrength :: "(string \<Rightarrow> string) \<Rightarrow> string \<Rightarrow> go_error option" where
  "ValidateSecretStrength lower secret =
     (if length secret < minSecretLen then Some (ErrorNew ''JWT secret must be at least %d characters (got %d)'')
      else let low = ToLower lower secret
           in if list_ex (\<lambda>bad. low = ToLower lower bad) knownBadSecrets
              then Some (ErrorNew ''JWT secret matches known placeholder %q; set a unique production secret'')
              else None)"

section \<open>Claims\<close>

record registered_claims =
  Issuer :: string
  Audience :: "string list"
  IssuedAt :: "go_time option"
  ClaimsExpiresAt :: "go_time option"

definition no_claims :: registered_claims where
  "no_claims = \<lparr>Issuer = [], Audience = [], IssuedAt = None, ClaimsExpiresAt = None\<rparr>"

record platform_claims =
  PlatformPrincipalID :: nat
  PlatformPrincipalType :: string
  PlatformRoleCodes :: "string list"
  PlatformTokenVersion :: int
  PlatformTokenType :: string
  PlatformRegistered :: registered_claims

record tenant_claims =
  TenantID :: nat
  TenantCode :: string
  PrincipalID :: nat
  PrincipalType :: string
  RoleCodes :: "string list"
  TokenVersion :: int
  TokenType :: string
  ActorPrincipalID :: "nat option"
  Registered :: registered_claims

record step_up_claims =
  StepUpPrincipalID :: nat
  Scope :: string
  StepUpTokenType :: string
  StepUpRegistered :: registered_claims

text \<open>The payload, and the encoding and decoding of the claim types.\<close>

record payload =
  p_tenant_id :: nat
  p_tenant_code :: string
  p_principal_id :: nat
  p_principal_type :: string
  p_role_codes :: "string list"
  p_token_version :: int
  p_token_type :: string
  p_actor :: "nat option"
  p_scope :: string
  p_registered :: registered_claims

definition empty_payload :: payload where
  "empty_payload = \<lparr>p_tenant_id = 0, p_tenant_code = [], p_principal_id = 0, p_principal_type = [], p_role_codes = [],
     p_token_version = 0, p_token_type = [], p_actor = None, p_scope = [], p_registered = no_claims\<rparr>"

definition of_platform :: "platform_claims \<Rightarrow> payload" where
  "of_platform c = empty_payload\<lparr>p_principal_id := PlatformPrincipalID c, p_principal_type := PlatformPrincipalType c,
     p_role_codes := PlatformRoleCodes c, p_token_version := PlatformTokenVersion c, p_token_type := PlatformTokenType c,
     p_registered := PlatformRegistered c\<rparr>"

definition to_platform :: "payload \<Rightarrow> platform_claims" where
  "to_platform p = \<lparr>PlatformPrincipalID = p_principal_id p, PlatformPrincipalType = p_principal_type p,
     PlatformRoleCodes = p_role_codes p, PlatformTokenVersion = p_token_version p, PlatformTokenType = p_token_type p,
     PlatformRegistered = p_registered p\<rparr>"

definition of_tenant :: "tenant_claims \<Rightarrow> payload" where
  "of_tenant c = empty_payload\<lparr>p_tenant_id := TenantID c, p_tenant_code := TenantCode c, p_principal_id := PrincipalID c,
     p_principal_type := PrincipalType c, p_role_codes := RoleCodes c, p_token_version := TokenVersion c,
     p_token_type := TokenType c, p_actor := ActorPrincipalID c, p_registered := Registered c\<rparr>"

definition to_tenant :: "payload \<Rightarrow> tenant_claims" where
  "to_tenant p = \<lparr>TenantID = p_tenant_id p, TenantCode = p_tenant_code p, PrincipalID = p_principal_id p,
     PrincipalType = p_principal_type p, RoleCodes = p_role_codes p, TokenVersion = p_token_version p,
     TokenType = p_token_type p, ActorPrincipalID = p_actor p, Registered = p_registered p\<rparr>"

definition of_step_up :: "step_up_claims \<Rightarrow> payload" where
  "of_step_up c = empty_payload\<lparr>p_principal_id := StepUpPrincipalID c, p_scope := Scope c, p_token_type := StepUpTokenType c,
     p_registered := StepUpRegistered c\<rparr>"

definition to_step_up :: "payload \<Rightarrow> step_up_claims" where
  "to_step_up p = \<lparr>StepUpPrincipalID = p_principal_id p, Scope = p_scope p, StepUpTokenType = p_token_type p,
     StepUpRegistered = p_registered p\<rparr>"

section \<open>The JWT library\<close>

text \<open>A signing method is HMAC or another one; a key function may refuse a method.\<close>

datatype signing_method = HMAC string | OtherMethod string

abbreviation HS256 :: signing_method where
  "HS256 \<equiv> HMAC ''HS256''"

record jwt =
  SignedString :: "signing_method \<Rightarrow> string \<Rightarrow> payload \<Rightarrow> go_error + string"
  ParseWithClaims :: "go_time \<Rightarrow> (signing_method \<Rightarrow> go_error + string) \<Rightarrow> string \<Rightarrow> go_error + payload"
  NewNumericDate :: "go_time \<Rightarrow> go_time"

definition unexpired :: "go_time \<Rightarrow> payload \<Rightarrow> bool" where
  "unexpired now p = (case ClaimsExpiresAt (p_registered p) of None \<Rightarrow> True | Some e \<Rightarrow> now < e)"

text \<open>\<open>authentic m k t p\<close>: the token text \<open>t\<close> carries \<open>p\<close> with a signature that verifies under method \<open>m\<close> and key \<open>k\<close>.\<close>

locale jwt_library =
  fixes lib :: jwt
    and authentic :: "signing_method \<Rightarrow> string \<Rightarrow> string \<Rightarrow> payload \<Rightarrow> bool"
  assumes sign: "k \<noteq> [] \<Longrightarrow> \<exists>t. SignedString lib HS256 k p = Inr t \<and> authentic HS256 k t p"
    and authentic_payload: "authentic m k t p \<Longrightarrow> authentic m' k' t p' \<Longrightarrow> m' = m \<and> p' = p"
    and parse: "authentic m k t p \<Longrightarrow> keyf m = Inr k \<Longrightarrow> unexpired now p \<Longrightarrow> ParseWithClaims lib now keyf t = Inr p"
    and parse_only: "ParseWithClaims lib now keyf t = Inr p \<Longrightarrow>
      unexpired now p \<and> (\<exists>m k. keyf m = Inr k \<and> authentic m k t p)"
    and numeric_date: "NewNumericDate lib d \<le> d \<and> d - second < NewNumericDate lib d"

section \<open>Token service\<close>

record token_service =
  secret :: string
  issuer :: string
  svc_audience :: string
  platTTL :: duration
  tenTTL :: duration

definition NewTokenServiceWithAudience ::
  "(string \<Rightarrow> string) \<Rightarrow> string \<Rightarrow> string \<Rightarrow> string \<Rightarrow> int \<Rightarrow> int \<Rightarrow> go_error + token_service" where
  "NewTokenServiceWithAudience lower key iss audience platTTLSec tenTTLSec =
     (case ValidateSecretStrength lower key of
        Some err \<Rightarrow> Inl err
      | None \<Rightarrow>
          (let audience = TrimSpace audience
           in if audience = [] then Inl (ErrorNew ''auth: audience is required'')
              else Inr \<lparr>secret = key, issuer = iss, svc_audience = audience, platTTL = wrap64 (platTTLSec * second),
                     tenTTL = wrap64 (tenTTLSec * second)\<rparr>))"

definition NewTokenService :: "(string \<Rightarrow> string) \<Rightarrow> string \<Rightarrow> string \<Rightarrow> int \<Rightarrow> int \<Rightarrow> go_error + token_service" where
  "NewTokenService lower key iss platTTLSec tenTTLSec =
     NewTokenServiceWithAudience lower key iss DefaultAudience platTTLSec tenTTLSec"

definition keyFunc :: "token_service \<Rightarrow> signing_method \<Rightarrow> go_error + string" where
  "keyFunc s m = (case m of HMAC _ \<Rightarrow> Inr (secret s) | OtherMethod _ \<Rightarrow> Inl (ErrorNew ''unexpected signing method: %v''))"

definition checkAudienceCompat :: "string list \<Rightarrow> string \<Rightarrow> go_error option" where
  "checkAudienceCompat aud expected = (if list_ex (\<lambda>candidate. candidate = expected) aud then None else Some ErrInvalidToken)"

text \<open>\<open>now\<close> is what \<^verbatim>\<open>currentTime\<close> returns.\<close>

definition issued_claims :: "jwt \<Rightarrow> token_service \<Rightarrow> go_time \<Rightarrow> duration \<Rightarrow> registered_claims" where
  "issued_claims lib s now ttl = \<lparr>Issuer = issuer s, Audience = [svc_audience s], IssuedAt = Some (NewNumericDate lib now),
     ClaimsExpiresAt = Some (NewNumericDate lib (Add now ttl))\<rparr>"

definition platform_claims_for :: "jwt \<Rightarrow> token_service \<Rightarrow> go_time \<Rightarrow> nat \<Rightarrow> string list \<Rightarrow> int \<Rightarrow> platform_claims" where
  "platform_claims_for lib s now principalID roleCodes tokenVersion =
     \<lparr>PlatformPrincipalID = principalID, PlatformPrincipalType = ''platform_admin'', PlatformRoleCodes = roleCodes,
      PlatformTokenVersion = tokenVersion, PlatformTokenType = ''platform'', PlatformRegistered = issued_claims lib s now (platTTL s)\<rparr>"

definition IssuePlatformToken :: "jwt \<Rightarrow> token_service \<Rightarrow> go_time \<Rightarrow> nat \<Rightarrow> string list \<Rightarrow> int \<Rightarrow> go_error + string" where
  "IssuePlatformToken lib s now principalID roleCodes tokenVersion =
     SignedString lib HS256 (secret s) (of_platform (platform_claims_for lib s now principalID roleCodes tokenVersion))"

definition tenant_claims_for ::
  "jwt \<Rightarrow> token_service \<Rightarrow> go_time \<Rightarrow> nat \<Rightarrow> string \<Rightarrow> nat \<Rightarrow> string \<Rightarrow> string list \<Rightarrow> int \<Rightarrow> nat option \<Rightarrow> tenant_claims" where
  "tenant_claims_for lib s now tenantID tenantCode principalID principalType roleCodes tokenVersion actor =
     \<lparr>TenantID = tenantID, TenantCode = tenantCode, PrincipalID = principalID, PrincipalType = principalType,
      RoleCodes = roleCodes, TokenVersion = tokenVersion, TokenType = ''tenant'', ActorPrincipalID = actor,
      Registered = issued_claims lib s now (tenTTL s)\<rparr>"

definition IssueTenantToken ::
  "jwt \<Rightarrow> token_service \<Rightarrow> go_time \<Rightarrow> nat \<Rightarrow> string \<Rightarrow> nat \<Rightarrow> string \<Rightarrow> string list \<Rightarrow> int \<Rightarrow> nat option \<Rightarrow> go_error + string" where
  "IssueTenantToken lib s now tenantID tenantCode principalID principalType roleCodes tokenVersion actor =
     SignedString lib HS256 (secret s)
       (of_tenant (tenant_claims_for lib s now tenantID tenantCode principalID principalType roleCodes tokenVersion actor))"

definition ParsePlatformToken :: "jwt \<Rightarrow> token_service \<Rightarrow> go_time \<Rightarrow> string \<Rightarrow> go_error + platform_claims" where
  "ParsePlatformToken lib s now tokenStr =
     (case ParseWithClaims lib now (keyFunc s) tokenStr of
        Inl _ \<Rightarrow> Inl ErrInvalidToken
      | Inr p \<Rightarrow>
          (let claims = to_platform p
           in if PlatformTokenType claims \<noteq> ''platform'' \<or> PlatformPrincipalID claims = 0 \<or> PlatformPrincipalType claims \<noteq> ''platform_admin''
              then Inl ErrWrongType
              else case checkAudienceCompat (Audience (PlatformRegistered claims)) (svc_audience s) of
                     Some err \<Rightarrow> Inl err
                   | None \<Rightarrow> Inr claims))"

definition ParseTenantToken :: "jwt \<Rightarrow> token_service \<Rightarrow> go_time \<Rightarrow> string \<Rightarrow> go_error + tenant_claims" where
  "ParseTenantToken lib s now tokenStr =
     (case ParseWithClaims lib now (keyFunc s) tokenStr of
        Inl _ \<Rightarrow> Inl ErrInvalidToken
      | Inr p \<Rightarrow>
          (let claims = to_tenant p
           in if TokenType claims \<noteq> ''tenant'' \<or> TenantID claims = 0 \<or> PrincipalID claims = 0 then Inl ErrWrongType
              else case checkAudienceCompat (Audience (Registered claims)) (svc_audience s) of
                     Some err \<Rightarrow> Inl err
                   | None \<Rightarrow> Inr claims))"

definition step_up_claims_for :: "jwt \<Rightarrow> token_service \<Rightarrow> go_time \<Rightarrow> nat \<Rightarrow> string \<Rightarrow> duration \<Rightarrow> step_up_claims" where
  "step_up_claims_for lib s now principalID scope ttl =
     \<lparr>StepUpPrincipalID = principalID, Scope = scope, StepUpTokenType = ''step_up'', StepUpRegistered = issued_claims lib s now ttl\<rparr>"

definition IssueStepUpToken :: "jwt \<Rightarrow> token_service \<Rightarrow> go_time \<Rightarrow> nat \<Rightarrow> string \<Rightarrow> duration \<Rightarrow> go_error + string" where
  "IssueStepUpToken lib s now principalID scope ttl =
     (let scope = TrimSpace scope
      in if principalID = 0 \<or> scope = [] \<or> ttl \<le> 0 \<or> ttl > MaxStepUpTTL then Inl ErrInvalidStepUp
         else SignedString lib HS256 (secret s) (of_step_up (step_up_claims_for lib s now principalID scope ttl)))"

definition ParseStepUpToken :: "jwt \<Rightarrow> token_service \<Rightarrow> go_time \<Rightarrow> string \<Rightarrow> go_error + step_up_claims" where
  "ParseStepUpToken lib s now tokenStr =
     (case ParseWithClaims lib now (keyFunc s) tokenStr of
        Inl _ \<Rightarrow> Inl ErrInvalidToken
      | Inr p \<Rightarrow>
          (let claims = to_step_up p
           in if StepUpTokenType claims \<noteq> ''step_up'' \<or> StepUpPrincipalID claims = 0 \<or> Scope claims = [] then Inl ErrWrongType
              else case checkAudienceCompat (Audience (StepUpRegistered claims)) (svc_audience s) of
                     Some err \<Rightarrow> Inl err
                   | None \<Rightarrow> Inr claims))"

text \<open>\<open>now\<close> is the clock \<^verbatim>\<open>time.Until\<close> reads.\<close>

definition IsExpiringSoon :: "go_time \<Rightarrow> registered_claims \<Rightarrow> duration \<Rightarrow> bool" where
  "IsExpiringSoon now claims threshold =
     (case ClaimsExpiresAt claims of None \<Rightarrow> False | Some e \<Rightarrow> Sub e now < threshold)"

text \<open>The self-test issues at one instant and parses at a later one.\<close>

definition SelfTest :: "jwt \<Rightarrow> token_service \<Rightarrow> go_time \<Rightarrow> go_time \<Rightarrow> go_error option" where
  "SelfTest lib s now1 now2 =
     (case IssuePlatformToken lib s now1 999999 [''_selftest''] 0 of
        Inl err \<Rightarrow> Some (Errorf ''auth: SelfTest sign failed: %w'' err)
      | Inr tok \<Rightarrow>
          (case ParsePlatformToken lib s now2 tok of
             Inl err \<Rightarrow> Some (Errorf ''auth: SelfTest parse failed: %w'' err)
           | Inr claims \<Rightarrow>
               if PlatformPrincipalID claims \<noteq> 999999 then Some (ErrorNew ''auth: SelfTest principal_id mismatch: got %d'')
               else None))"

section \<open>What the parsers accept\<close>

lemma platform_payload [simp]: "to_platform (of_platform c) = c"
  by (simp add: to_platform_def of_platform_def empty_payload_def)

lemma tenant_payload [simp]: "to_tenant (of_tenant c) = c"
  by (simp add: to_tenant_def of_tenant_def empty_payload_def)

lemma step_up_payload [simp]: "to_step_up (of_step_up c) = c"
  by (simp add: to_step_up_def of_step_up_def empty_payload_def)

lemma registered_payload [simp]:
  "p_registered (of_platform c) = PlatformRegistered c" "p_registered (of_tenant d) = Registered d"
  "p_registered (of_step_up e) = StepUpRegistered e"
  by (simp_all add: of_platform_def of_tenant_def of_step_up_def)

lemma checkAudience [simp]:
  "checkAudienceCompat aud x = None \<longleftrightarrow> x \<in> set aud"
  "checkAudienceCompat aud x = Some e \<longleftrightarrow> e = ErrInvalidToken \<and> x \<notin> set aud"
  by (auto simp: checkAudienceCompat_def list_ex_iff)

lemma ParsePlatformToken_Inr:
  "ParsePlatformToken lib s now t = Inr c \<longleftrightarrow>
     (\<exists>p. ParseWithClaims lib now (keyFunc s) t = Inr p \<and> c = to_platform p \<and> p_token_type p = ''platform'' \<and> p_principal_id p \<noteq> 0 \<and>
        p_principal_type p = ''platform_admin'' \<and> svc_audience s \<in> set (Audience (p_registered p)))"
  by (auto simp: ParsePlatformToken_def Let_def to_platform_def split: sum.splits option.splits)

lemma ParseTenantToken_Inr:
  "ParseTenantToken lib s now t = Inr c \<longleftrightarrow>
     (\<exists>p. ParseWithClaims lib now (keyFunc s) t = Inr p \<and> c = to_tenant p \<and> p_token_type p = ''tenant'' \<and> p_tenant_id p \<noteq> 0 \<and>
        p_principal_id p \<noteq> 0 \<and> svc_audience s \<in> set (Audience (p_registered p)))"
  by (auto simp: ParseTenantToken_def Let_def to_tenant_def split: sum.splits option.splits)

lemma ParseStepUpToken_Inr:
  "ParseStepUpToken lib s now t = Inr c \<longleftrightarrow>
     (\<exists>p. ParseWithClaims lib now (keyFunc s) t = Inr p \<and> c = to_step_up p \<and> p_token_type p = ''step_up'' \<and> p_principal_id p \<noteq> 0 \<and>
        p_scope p \<noteq> [] \<and> svc_audience s \<in> set (Audience (p_registered p)))"
  by (auto simp: ParseStepUpToken_def Let_def to_step_up_def split: sum.splits option.splits)


context jwt_library
begin

lemma parse_signed:
  assumes "SignedString lib HS256 (secret s) p = Inr t" and "secret s \<noteq> []"
  shows "unexpired now p \<Longrightarrow> ParseWithClaims lib now (keyFunc s') t = Inr p' \<Longrightarrow> p' = p"
    and "unexpired now p \<Longrightarrow> secret s' = secret s \<Longrightarrow> ParseWithClaims lib now (keyFunc s') t = Inr p"
    and "ParseWithClaims lib now (keyFunc s') t = Inr p' \<Longrightarrow> p' = p \<and> unexpired now p"
proof -
  have auth: "authentic HS256 (secret s) t p" using sign [OF assms(2), of p] assms(1) by auto
  show *: "ParseWithClaims lib now (keyFunc s') t = Inr p' \<Longrightarrow> p' = p \<and> unexpired now p" for p'
    using parse_only [of now "keyFunc s'" t p'] authentic_payload [OF auth] by blast
  then show "unexpired now p \<Longrightarrow> ParseWithClaims lib now (keyFunc s') t = Inr p' \<Longrightarrow> p' = p" by blast
  show "unexpired now p \<Longrightarrow> secret s' = secret s \<Longrightarrow> ParseWithClaims lib now (keyFunc s') t = Inr p"
    using parse [OF auth, of "keyFunc s'" now] by (simp add: keyFunc_def)
qed

lemma issued_unexpired:
  "p_registered p = issued_claims lib s now0 ttl \<Longrightarrow> unexpired now p \<longleftrightarrow> now < NewNumericDate lib (now0 + ttl)"
  by (simp add: unexpired_def issued_claims_def time_defs)

lemma platform_accepted:
  assumes "IssuePlatformToken lib s now0 i roles v = Inr t" and "secret s \<noteq> []" and "i \<noteq> 0"
    and "now < NewNumericDate lib (now0 + platTTL s)"
  shows "ParsePlatformToken lib s now t = Inr (platform_claims_for lib s now0 i roles v)"
proof -
  let ?c = "platform_claims_for lib s now0 i roles v"
  have "unexpired now (of_platform ?c)"
    using assms(4) issued_unexpired [of "of_platform ?c" s now0 "platTTL s" now] by (simp add: platform_claims_for_def)
  then have "ParseWithClaims lib now (keyFunc s) t = Inr (of_platform ?c)"
    using parse_signed(2) assms(1,2) unfolding IssuePlatformToken_def by blast
  with assms(3) show ?thesis
    unfolding ParsePlatformToken_Inr
    by (intro exI [of _ "of_platform ?c"]) (simp add: platform_claims_for_def of_platform_def to_platform_def empty_payload_def issued_claims_def)
qed

lemma tenant_accepted:
  assumes "IssueTenantToken lib s now0 i code pr ty roles v actor = Inr t" and "secret s \<noteq> []" and "i \<noteq> 0" and "pr \<noteq> 0"
    and "now < NewNumericDate lib (now0 + tenTTL s)"
  shows "ParseTenantToken lib s now t = Inr (tenant_claims_for lib s now0 i code pr ty roles v actor)"
proof -
  let ?c = "tenant_claims_for lib s now0 i code pr ty roles v actor"
  have "unexpired now (of_tenant ?c)"
    using assms(5) issued_unexpired [of "of_tenant ?c" s now0 "tenTTL s" now] by (simp add: tenant_claims_for_def)
  then have "ParseWithClaims lib now (keyFunc s) t = Inr (of_tenant ?c)"
    using parse_signed(2) assms(1,2) unfolding IssueTenantToken_def by blast
  with assms(3,4) show ?thesis
    unfolding ParseTenantToken_Inr
    by (intro exI [of _ "of_tenant ?c"]) (simp add: tenant_claims_for_def of_tenant_def to_tenant_def empty_payload_def issued_claims_def)
qed

lemma step_up_Inr:
  assumes "IssueStepUpToken lib s now0 i scope ttl = Inr t"
  shows "SignedString lib HS256 (secret s) (of_step_up (step_up_claims_for lib s now0 i (TrimSpace scope) ttl)) = Inr t"
    and "i \<noteq> 0" "TrimSpace scope \<noteq> []" "0 < ttl" "ttl \<le> MaxStepUpTTL"
  using assms by (auto simp: IssueStepUpToken_def Let_def split: if_splits)

lemma step_up_window:
  assumes "IssueStepUpToken lib s now0 i scope ttl = Inr t" and "secret s \<noteq> []"
  shows "ParseStepUpToken lib s now t =
    (if now < NewNumericDate lib (now0 + ttl) then Inr (step_up_claims_for lib s now0 i (TrimSpace scope) ttl) else Inl ErrInvalidToken)"
proof -
  let ?c = "step_up_claims_for lib s now0 i (TrimSpace scope) ttl"
  note issue = step_up_Inr [OF assms(1)]
  have un: "unexpired now (of_step_up ?c) \<longleftrightarrow> now < NewNumericDate lib (now0 + ttl)"
    using issued_unexpired [of "of_step_up ?c" s now0 ttl now] by (simp add: step_up_claims_for_def)
  show ?thesis
  proof (cases "now < NewNumericDate lib (now0 + ttl)")
    case True
    then have "ParseWithClaims lib now (keyFunc s) t = Inr (of_step_up ?c)"
      using parse_signed(2) [OF issue(1) assms(2)] un by blast
    with issue True have "ParseStepUpToken lib s now t = Inr ?c"
      unfolding ParseStepUpToken_Inr
      by (intro exI [of _ "of_step_up ?c"]) (simp add: step_up_claims_for_def of_step_up_def to_step_up_def empty_payload_def issued_claims_def)
    with True show ?thesis by simp
  next
    case False
    then have "ParseWithClaims lib now (keyFunc s) t \<noteq> Inr p" for p
      using parse_signed(3) [OF issue(1) assms(2)] un by blast
    with False show ?thesis by (auto simp: ParseStepUpToken_def split: sum.splits)
  qed
qed

end

section \<open>A library that keeps the promises\<close>

text \<open>Tokens that list the key and the claims, each part in hexadecimal and followed by a full stop.\<close>

definition enc_list :: "string list \<Rightarrow> string" where
  "enc_list xs = concat (map (\<lambda>x. EncodeToString x @ ''.'') xs)"

definition dec_list :: "string \<Rightarrow> string list" where
  "dec_list t = map (\<lambda>x. case DecodeString x of None \<Rightarrow> [] | Some y \<Rightarrow> y) (butlast (SplitByte CHR ''.'' t))"

definition enc_int :: "int \<Rightarrow> string" where
  "enc_int i = (if i < 0 then ''-'' else ''+'') @ FormatUint (nat \<bar>i\<bar>)"

definition dec_int :: "string \<Rightarrow> int" where
  "dec_int s = (if hd s = CHR ''-'' then - int (decimal_value 0 (tl s)) else int (decimal_value 0 (tl s)))"

definition enc_opt :: "int option \<Rightarrow> string" where
  "enc_opt x = (case x of None \<Rightarrow> [] | Some i \<Rightarrow> enc_int i)"

definition dec_opt :: "string \<Rightarrow> int option" where
  "dec_opt s = (if s = [] then None else Some (dec_int s))"

definition mini_token :: "string \<Rightarrow> payload \<Rightarrow> string" where
  "mini_token k p = enc_list [k, FormatUint (p_tenant_id p), p_tenant_code p, FormatUint (p_principal_id p), p_principal_type p,
     enc_list (p_role_codes p), enc_int (p_token_version p), p_token_type p, enc_opt (map_option int (p_actor p)), p_scope p,
     Issuer (p_registered p), enc_list (Audience (p_registered p)), enc_opt (IssuedAt (p_registered p)),
     enc_opt (ClaimsExpiresAt (p_registered p))]"

definition mini_read :: "string \<Rightarrow> string \<times> payload" where
  "mini_read t =
     (let f = dec_list t
      in (f ! 0, \<lparr>p_tenant_id = decimal_value 0 (f ! 1), p_tenant_code = f ! 2, p_principal_id = decimal_value 0 (f ! 3),
        p_principal_type = f ! 4, p_role_codes = dec_list (f ! 5), p_token_version = dec_int (f ! 6), p_token_type = f ! 7,
        p_actor = map_option nat (dec_opt (f ! 8)), p_scope = f ! 9,
        p_registered = \<lparr>Issuer = f ! 10, Audience = dec_list (f ! 11), IssuedAt = dec_opt (f ! 12), ClaimsExpiresAt = dec_opt (f ! 13)\<rparr>\<rparr>))"

definition mini_jwt :: jwt where
  "mini_jwt = \<lparr>SignedString = (\<lambda>m k p. Inr (mini_token k p)),
     ParseWithClaims = (\<lambda>now keyf t.
       case keyf HS256 of
         Inl e \<Rightarrow> Inl e
       | Inr k \<Rightarrow> (case mini_read t of (k', p) \<Rightarrow>
                    if k' = k \<and> t = mini_token k p \<and> unexpired now p then Inr p else Inl (ErrorNew ''token is invalid''))),
     NewNumericDate = (\<lambda>t. t div second * second)\<rparr>"

lemma no_stop: "CHR ''.'' \<notin> set (EncodeToString x)"
proof (induction x)
  case (Cons c x)
  have "hex_digit d \<noteq> CHR ''.''" if "d < 16" for d
  proof
    assume "hex_digit d = CHR ''.''"
    then have "hex_val (CHR ''.'') = Some d" using hex_val_hex_digit [OF that] by simp
    then show False by (simp add: hex_val_def)
  qed
  moreover have "byte_of c div 16 < 16" using byte_of_less [of c] by linarith
  ultimately have "hex_digit (byte_of c div 16) \<noteq> CHR ''.''" "hex_digit (byte_of c mod 16) \<noteq> CHR ''.''" by simp_all
  with Cons show ?case by (simp add: eq_commute)
qed simp

lemma dec_enc_list [simp]: "dec_list (enc_list xs) = xs"
proof (induction xs)
  case (Cons x xs)
  have "SplitByte CHR ''.'' (EncodeToString x @ CHR ''.'' # enc_list xs) = EncodeToString x # SplitByte CHR ''.'' (enc_list xs)"
    by (rule SplitByte_append) (rule no_stop)
  then have "dec_list (enc_list (x # xs)) = x # dec_list (enc_list xs)"
    by (simp add: dec_list_def enc_list_def DecodeString_EncodeToString)
  with Cons show ?case by simp
qed (simp add: dec_list_def enc_list_def)

lemma dec_enc_int [simp]: "dec_int (enc_int i) = i"
  by (simp add: dec_int_def enc_int_def)

lemma enc_int_not_Nil [simp]: "enc_int i \<noteq> []"
  by (simp add: enc_int_def)

lemma dec_enc_opt [simp]: "dec_opt (enc_opt x) = x"
  by (cases x) (simp_all add: dec_opt_def enc_opt_def)

lemma mini_read_token [simp]: "mini_read (mini_token k p) = (k, p)"
  by (simp add: mini_read_def mini_token_def Let_def option.map_comp comp_def option.map_ident)

interpretation mini_jwt: jwt_library mini_jwt "\<lambda>m k t p. m = HS256 \<and> t = mini_token k p"
proof (unfold_locales, goal_cases)
  case (2 m k t p m' k' p')
  then show ?case by (metis mini_read_token prod.inject)
next
  case (5 d)
  show ?case
    using mult_div_mod_eq [of second d] pos_mod_bound [of second d] pos_mod_sign [of second d]
    by (simp add: mini_jwt_def) linarith
qed (auto simp: mini_jwt_def split: sum.splits prod.splits if_splits)

section \<open>Properties\<close>

definition sample_service :: token_service where
  "sample_service = \<lparr>secret = ''k'', issuer = ''iss'', svc_audience = ''synapse'', platTTL = 60 * second, tenTTL = 60 * second\<rparr>"





text \<open>A step-up token opens a window of at most five minutes. It is accepted exactly before its expiry, for the principal and the trimmed
  scope it was issued for, never later than the requested lifetime after issuing, and a service with another audience that shares the secret never accepts it.\<close>
theorem step_up_token_window:
  assumes "jwt_library lib authentic" and "secret s \<noteq> []" and "IssueStepUpToken lib s now0 pr scope ttl = Inr t"
    and "secret s' = secret s" and "svc_audience s' \<noteq> svc_audience s"
  shows "(case ParseStepUpToken lib s now t of
      Inr c \<Rightarrow> StepUpPrincipalID c = pr \<and> Scope c = TrimSpace scope \<and> now < now0 + ttl \<and> ttl \<le> 5 * minute
    | Inl e \<Rightarrow> e = ErrInvalidToken \<and> now0 + ttl - second < now) \<and> \<not> is_ok (ParseStepUpToken lib s' now t)"
proof -
  note issue = jwt_library.step_up_Inr [OF assms(1,3)]
  have date: "NewNumericDate lib (now0 + ttl) \<le> now0 + ttl" "now0 + ttl - second < NewNumericDate lib (now0 + ttl)"
    using jwt_library.numeric_date [OF assms(1)] by blast+
  have "ParseStepUpToken lib s' now t \<noteq> Inr c" for c
  proof
    assume "ParseStepUpToken lib s' now t = Inr c"
    then obtain p where "ParseWithClaims lib now (keyFunc s') t = Inr p" "svc_audience s' \<in> set (Audience (p_registered p))"
      unfolding ParseStepUpToken_Inr by blast
    moreover from this(1) have "p = of_step_up (step_up_claims_for lib s now0 pr (TrimSpace scope) ttl)"
      using jwt_library.parse_signed(3) [OF assms(1) issue(1) assms(2)] by blast
    ultimately show False using assms(5) by (simp add: step_up_claims_for_def issued_claims_def)
  qed
  then show ?thesis using date issue unfolding jwt_library.step_up_window [OF assms(1,3,2)]
    by (auto simp: is_ok_iff step_up_claims_for_def)
qed

theorem step_up_token_window_witness:
  "\<exists>t. IssueStepUpToken mini_jwt sample_service (100 * second) 7 ''wallet'' (60 * second) = Inr t \<and>
     \<not> is_ok (ParseStepUpToken mini_jwt (sample_service\<lparr>svc_audience := ''other''\<rparr>) (120 * second) t)"
proof -
  obtain t where t: "IssueStepUpToken mini_jwt sample_service (100 * second) 7 ''wallet'' (60 * second) = Inr t"
    by (simp add: IssueStepUpToken_def mini_jwt_def go_string_simps is_graphic_def)
  from step_up_token_window [OF mini_jwt.jwt_library_axioms _ t, of "sample_service\<lparr>svc_audience := ''other''\<rparr>" "120 * second"] t
  show ?thesis by (auto simp: sample_service_def)
qed

text \<open>The self-test passes whenever platform tokens live for at least a second and it takes no longer.\<close>

lemma SelfTest_passes:
  assumes "jwt_library lib authentic" and "secret s \<noteq> []" and "now2 < NewNumericDate lib (now1 + platTTL s)"
  shows "SelfTest lib s now1 now2 = None"
proof -
  obtain t where t: "IssuePlatformToken lib s now1 999999 [''_selftest''] 0 = Inr t"
    using jwt_library.sign [OF assms(1,2)] unfolding IssuePlatformToken_def by blast
  from jwt_library.platform_accepted [OF assms(1) t assms(2) _ assms(3)] t show ?thesis
    by (simp add: SelfTest_def platform_claims_for_def)
qed

end
