(* ===== verification/Gin_Context.thy ===== *)
theory Gin_Context
  imports Auth Go_Json
begin

text \<open>
  What the HTTP code sees of a request, and the small packages around it: \<^verbatim>\<open>obs/context.go\<close>,
  \<^verbatim>\<open>tenant/tenant.go\<close>, \<^verbatim>\<open>resp\<close>, \<^verbatim>\<open>bizerr\<close> and \<^verbatim>\<open>ginutil/ginutil.go\<close>.

  Gin is not part of the repository. A request is the record of what Gin's accessors return for it
  (headers, route and query parameters, the client address, the values set by earlier handlers). A handler is a
  function from the request and a state to the new state and the response; a middleware takes the rest
  of the chain, which \<^verbatim>\<open>c.Next()\<close> runs, as an argument. Aborting is answering without calling it.
\<close>

section \<open>Requests, responses, handlers\<close>

text \<open>Values stored in a request: the claims are pointers and may be nil.\<close>

datatype ctx_value =
    CPlatform "platform_claims option"
  | CTenant "tenant_claims option"
  | CString string
  | CUint64 nat
  | CInt64 int
  | CInt int
  | CFloat64 float64
  | CNil
  | COther

text \<open>Keys of a \<^verbatim>\<open>context.Context\<close>: each package has its own key type.\<close>

datatype ctx_key = ObsKey string | TenantKey | MiddlewareKey string

type_synonym go_ctx = "ctx_key \<Rightarrow> ctx_value option"

record gin_context =
  Method :: string
  URLPath :: string
  Header_In :: "string \<Rightarrow> string"
  Param :: "string \<Rightarrow> string"
  Query :: "string \<Rightarrow> string option"
  ClientIP :: string
  Body :: "go_error + string"
  Keys :: "string \<Rightarrow> ctx_value option"
  Ctx :: go_ctx
  Header_Out :: "string \<Rightarrow> string option"

datatype resp_body = NoBody | JSONBody "(string \<times> go_value) list" | DataBody string string

record response =
  status :: int
  headers :: "string \<Rightarrow> string option"
  content :: resp_body

type_synonym 's handler = "gin_context \<Rightarrow> 's \<Rightarrow> 's \<times> response"

definition gin_JSON :: "gin_context \<Rightarrow> int \<Rightarrow> (string \<times> go_value) list \<Rightarrow> response" where
  "gin_JSON c code fs = \<lparr>status = code, headers = Header_Out c, content = JSONBody fs\<rparr>"

definition gin_Set :: "gin_context \<Rightarrow> string \<Rightarrow> ctx_value \<Rightarrow> gin_context" where
  "gin_Set c k v = c\<lparr>Keys := (Keys c)(k \<mapsto> v)\<rparr>"

text \<open>\<^verbatim>\<open>c.Header\<close>: an empty value removes the header.\<close>

definition gin_Header :: "gin_context \<Rightarrow> string \<Rightarrow> string \<Rightarrow> gin_context" where
  "gin_Header c k v = c\<lparr>Header_Out := (Header_Out c)(k := if v = [] then None else Some v)\<rparr>"

definition gin_GetString :: "gin_context \<Rightarrow> string \<Rightarrow> string" where
  "gin_GetString c k = (case Keys c k of Some (CString s) \<Rightarrow> s | _ \<Rightarrow> [])"

section \<open>obs/context.go\<close>

definition WithRequestID :: "go_ctx \<Rightarrow> string \<Rightarrow> go_ctx" where
  "WithRequestID ctx i = ctx(ObsKey ''request_id'' \<mapsto> CString i)"

definition obs_RequestIDFromContext :: "go_ctx \<Rightarrow> string option" where
  "obs_RequestIDFromContext ctx =
     (case ctx (ObsKey ''request_id'') of Some (CString v) \<Rightarrow> if v = [] then None else Some v | _ \<Rightarrow> None)"

definition WithTenantID :: "go_ctx \<Rightarrow> nat \<Rightarrow> go_ctx" where
  "WithTenantID ctx i = ctx(ObsKey ''tenant_id'' \<mapsto> CUint64 i)"

definition obs_TenantIDFromContext :: "go_ctx \<Rightarrow> nat option" where
  "obs_TenantIDFromContext ctx = (case ctx (ObsKey ''tenant_id'') of Some (CUint64 v) \<Rightarrow> Some v | _ \<Rightarrow> None)"

definition WithPrincipalID :: "go_ctx \<Rightarrow> nat \<Rightarrow> go_ctx" where
  "WithPrincipalID ctx i = ctx(ObsKey ''principal_id'' \<mapsto> CUint64 i)"

definition PrincipalIDFromContext :: "go_ctx \<Rightarrow> nat option" where
  "PrincipalIDFromContext ctx = (case ctx (ObsKey ''principal_id'') of Some (CUint64 v) \<Rightarrow> Some v | _ \<Rightarrow> None)"

text \<open>The hand-written conversion: digits are written into a buffer from the end.\<close>

fun uint64_loop :: "nat \<Rightarrow> string \<Rightarrow> string" where
  "uint64_loop v buf = (if v > 0 then uint64_loop (v div 10) (char_of (48 + v mod 10) # buf) else buf)"

declare uint64_loop.simps [simp del]

definition uint64ToString :: "nat \<Rightarrow> string" where
  "uint64ToString v = (if v = 0 then ''0'' else uint64_loop v [])"

definition RequestMetadataFromContext :: "go_ctx \<Rightarrow> string \<Rightarrow> string option" where
  "RequestMetadataFromContext ctx =
     (let m = Map.empty;
          m = (case obs_RequestIDFromContext ctx of Some rid \<Rightarrow> m(''request_id'' \<mapsto> rid) | None \<Rightarrow> m);
          m = (case obs_TenantIDFromContext ctx of Some tid \<Rightarrow> m(''tenant_id'' \<mapsto> uint64ToString tid) | None \<Rightarrow> m)
      in case PrincipalIDFromContext ctx of Some pid \<Rightarrow> m(''principal_id'' \<mapsto> uint64ToString pid) | None \<Rightarrow> m)"

lemma uint64_loop_digits: "0 < v \<Longrightarrow> uint64_loop v buf = FormatUint v @ buf"
proof (induction v buf rule: uint64_loop.induct)
  case (1 v buf)
  show ?case
  proof (cases "v < 10")
    case True
    with 1(2) show ?thesis
      by (subst uint64_loop.simps) (simp add: uint64_loop.simps [of 0] digit_char_def FormatUint.simps [of v])
  next
    case False
    then have "0 < v div 10" by (simp add: div_greater_zero_iff)
    from 1(1) [OF 1(2) this] 1(2) False show ?thesis
      by (subst uint64_loop.simps) (simp add: digit_char_def FormatUint.simps [of v])
  qed
qed

lemma uint64ToString_FormatUint: "uint64ToString v = FormatUint v"
  by (simp add: uint64ToString_def uint64_loop_digits FormatUint.simps [of 0] digit_char_def char_of_def bit_0)

section \<open>resp and bizerr\<close>

abbreviation CodeSuccess :: int where "CodeSuccess \<equiv> 0"
abbreviation CodeBadRequest :: int where "CodeBadRequest \<equiv> 1001"
abbreviation CodeNotFound :: int where "CodeNotFound \<equiv> 1002"
abbreviation CodeConflict :: int where "CodeConflict \<equiv> 1003"
abbreviation CodeInternal :: int where "CodeInternal \<equiv> 5001"
abbreviation CodeUnauthorized :: int where "CodeUnauthorized \<equiv> 2001"
abbreviation CodeTokenExpired :: int where "CodeTokenExpired \<equiv> 2002"
abbreviation CodeForbidden :: int where "CodeForbidden \<equiv> 2003"

text \<open>The envelope as it is serialised: the trace id is left out when it is empty.\<close>

definition Response :: "int \<Rightarrow> string \<Rightarrow> go_value \<Rightarrow> string \<Rightarrow> (string \<times> go_value) list" where
  "Response code message data trace_id =
     [(''code'', VInt code), (''message'', VString message), (''data'', data)] @
     (if trace_id = [] then [] else [(''trace_id'', VString trace_id)])"

definition resp_Success :: "gin_context \<Rightarrow> go_value \<Rightarrow> response" where
  "resp_Success c data = gin_JSON c 200 (Response CodeSuccess ''success'' data (gin_GetString c ''trace_id''))"

definition SuccessPage :: "gin_context \<Rightarrow> go_value \<Rightarrow> int \<Rightarrow> int \<Rightarrow> int \<Rightarrow> response" where
  "SuccessPage c lst n page pageSize =
     gin_JSON c 200 (Response CodeSuccess ''success''
       (VMap [(''list'', lst), (''total'', VInt n), (''page'', VInt page), (''page_size'', VInt pageSize)])
       (gin_GetString c ''trace_id''))"

definition resp_Error :: "gin_context \<Rightarrow> int \<Rightarrow> int \<Rightarrow> string \<Rightarrow> response" where
  "resp_Error c httpStatus code message = gin_JSON c httpStatus (Response code message VNil (gin_GetString c ''trace_id''))"

definition InternalError :: "gin_context \<Rightarrow> response" where
  "InternalError c = gin_JSON c 500 (Response CodeInternal ''internal server error'' VNil (gin_GetString c ''trace_id''))"

definition Created :: "gin_context \<Rightarrow> go_value \<Rightarrow> response" where
  "Created c data = gin_JSON c 201 (Response CodeSuccess ''created'' data (gin_GetString c ''trace_id''))"

record page_params =
  Page :: int
  PageSize :: int

text \<open>\<^verbatim>\<open>strconv.Atoi\<close>; on an error its value is used all the same.\<close>

definition DefaultQuery :: "gin_context \<Rightarrow> string \<Rightarrow> string \<Rightarrow> string" where
  "DefaultQuery c k d = (case Query c k of None \<Rightarrow> d | Some v \<Rightarrow> v)"

definition ParsePageParams :: "gin_context \<Rightarrow> page_params" where
  "ParsePageParams c =
     (let page = fst (ParseInt (DefaultQuery c ''page'' ''1''));
          pageSize = fst (ParseInt (DefaultQuery c ''page_size'' ''20''));
          page = (if page < 1 then 1 else page);
          pageSize = (if pageSize < 1 \<or> pageSize > 100 then 20 else pageSize)
      in \<lparr>Page = page, PageSize = pageSize\<rparr>)"

lemma ParsePageParams_bounds:
  "1 \<le> Page (ParsePageParams c) \<and> 1 \<le> PageSize (ParsePageParams c) \<and> PageSize (ParsePageParams c) \<le> 100"
  by (simp add: ParsePageParams_def Let_def)

text \<open>An error of a service: a business error, possibly wrapped, or another one.\<close>

record biz_error =
  Code :: int
  Message :: string

datatype svc_error = Biz biz_error | Wrapped string svc_error | Other go_error

fun errors_As :: "svc_error \<Rightarrow> biz_error option" where
  "errors_As (Biz e) = Some e"
| "errors_As (Wrapped m e) = errors_As e"
| "errors_As (Other e) = None"

definition bizerr_New :: "int \<Rightarrow> string \<Rightarrow> biz_error" where
  "bizerr_New code msg = \<lparr>Code = code, Message = msg\<rparr>"

definition BadRequest :: "string \<Rightarrow> biz_error" where
  "BadRequest msg = bizerr_New CodeBadRequest msg"

definition NotFound :: "string \<Rightarrow> biz_error" where
  "NotFound msg = bizerr_New CodeNotFound msg"

definition Unauthorized :: "string \<Rightarrow> biz_error" where
  "Unauthorized msg = bizerr_New CodeUnauthorized msg"

definition Forbidden :: "string \<Rightarrow> biz_error" where
  "Forbidden msg = bizerr_New CodeForbidden msg"

definition HTTPStatus :: "int \<Rightarrow> int" where
  "HTTPStatus code =
     (if code = CodeSuccess then 200
      else if code = CodeUnauthorized \<or> code = CodeTokenExpired then 401
      else if code = CodeForbidden then 403
      else if code = CodeNotFound then 404
      else if code = CodeConflict then 409
      else if code = CodeInternal then 500
      else 400)"

text \<open>\<open>None\<close> when there is no error: nothing is written.\<close>

definition HandleError :: "gin_context \<Rightarrow> svc_error option \<Rightarrow> response option" where
  "HandleError c err =
     (case err of
        None \<Rightarrow> None
      | Some e \<Rightarrow>
          (case errors_As e of
             Some b \<Rightarrow> Some (resp_Error c (HTTPStatus (Code b)) (Code b) (Message b))
           | None \<Rightarrow> Some (InternalError c)))"

section \<open>ginutil\<close>

definition ParseParam :: "gin_context \<Rightarrow> string \<Rightarrow> response + int" where
  "ParseParam c name =
     (case ParseInt (Param c name) of
        (_, Some _) \<Rightarrow> Inl (resp_Error c 400 CodeBadRequest (''invalid '' @ name))
      | (i, None) \<Rightarrow> Inr i)"

definition ParseIDParam :: "gin_context \<Rightarrow> response + int" where
  "ParseIDParam c = ParseParam c ''id''"

text \<open>\<open>conv\<close> is what the processor makes of a float64 beyond the range of uint64.\<close>

definition GetUserID :: "(float64 \<Rightarrow> nat) \<Rightarrow> gin_context \<Rightarrow> nat" where
  "GetUserID conv c =
     (case Keys c ''user_id'' of
        Some (CUint64 i) \<Rightarrow> i
      | Some (CInt64 i) \<Rightarrow> if i < 0 then 0 else nat i
      | Some (CInt i) \<Rightarrow> if i < 0 then 0 else nat i
      | Some (CFloat64 x) \<Rightarrow>
          if float_less x (Fin 0) then 0
          else (case x of Fin a \<Rightarrow> if nat \<lfloor>a\<rfloor> \<le> max_uint64 then nat \<lfloor>a\<rfloor> else conv x | _ \<Rightarrow> conv x)
      | _ \<Rightarrow> 0)"

definition GetRole :: "gin_context \<Rightarrow> string" where
  "GetRole c = gin_GetString c ''role''"

section \<open>tenant/tenant.go\<close>

definition InjectToContext :: "go_ctx \<Rightarrow> string \<Rightarrow> go_ctx" where
  "InjectToContext ctx tenantID = ctx(TenantKey \<mapsto> CString tenantID)"

definition FromContext :: "go_ctx \<Rightarrow> string" where
  "FromContext ctx = (case ctx TenantKey of Some (CString v) \<Rightarrow> v | _ \<Rightarrow> [])"

definition FromGinContext :: "gin_context \<Rightarrow> string \<Rightarrow> string" where
  "FromGinContext c key = gin_GetString c key"

definition tenant_Middleware :: "string \<Rightarrow> 's handler \<Rightarrow> 's handler" where
  "tenant_Middleware ginContextKey next_handler c s =
     (let tenantID = gin_GetString c ginContextKey
      in if tenantID = [] then (s, resp_Error c 400 CodeBadRequest ''missing tenant context'')
         else next_handler (c\<lparr>Ctx := InjectToContext (Ctx c) tenantID\<rparr>) s)"

lemma FromContext_Inject [simp]: "FromContext (InjectToContext ctx t) = t"
  by (simp add: FromContext_def InjectToContext_def)

end
