(* ===== verification/Http_Middleware.thy ===== *)
theory Http_Middleware
  imports Gin_Context Redis_Interface LRU_Cache
begin

text \<open>
  The \<^verbatim>\<open>middleware\<close> package: request ids, tenant and platform tokens, feature and tenant status gates
  (\<^verbatim>\<open>platform.go\<close>), permissions (\<^verbatim>\<open>permission.go\<close>), roles (\<^verbatim>\<open>role.go\<close>), CORS (\<^verbatim>\<open>cors.go\<close>) and the Redis rate
  limits (\<^verbatim>\<open>auth.go\<close>). A gate that either answers or lets the request through is given as a
  function to \<open>response option\<close>, and the middleware as its use.
\<close>

section \<open>platform.go\<close>

definition ErrTenantNotInContext :: go_error where
  "ErrTenantNotInContext = ErrorNew ''middleware: tenant id not in context''"

definition ErrTenantGone :: go_error where
  "ErrTenantGone = ErrorNew ''tenant: gone''"

abbreviation HeaderTokenExpiringSoon :: string where
  "HeaderTokenExpiringSoon \<equiv> ''X-Token-Expiring-Soon''"

abbreviation DefaultExpiryWarnThreshold :: duration where
  "DefaultExpiryWarnThreshold \<equiv> 30 * minute"

abbreviation tenantCtxKey :: string where
  "tenantCtxKey \<equiv> ''synapse.tenant_id''"

abbreviation requestIDCtxKey :: string where
  "requestIDCtxKey \<equiv> ''synapse.request_id''"

definition Auth_passthrough :: "'s handler \<Rightarrow> 's handler" where
  "Auth_passthrough next_handler c s = next_handler c s"

definition TenantContext :: "'s handler \<Rightarrow> 's handler" where
  "TenantContext next_handler c s =
     (let tid = Header_In c ''X-Tenant-ID''
      in if tid \<noteq> []
         then next_handler (gin_Set (c\<lparr>Ctx := (Ctx c)(MiddlewareKey tenantCtxKey \<mapsto> CString tid)\<rparr>) tenantCtxKey (CString tid)) s
         else next_handler c s)"

definition TenantIDFromContext :: "go_ctx \<Rightarrow> go_error + string" where
  "TenantIDFromContext ctx =
     (case ctx (MiddlewareKey tenantCtxKey) of
        Some (CString v) \<Rightarrow> if v = [] then Inl ErrTenantNotInContext else Inr v
      | _ \<Rightarrow> Inl ErrTenantNotInContext)"

text \<open>\<open>uuid\<close> is what the UUID generator returns.\<close>

definition RequestID :: "string \<Rightarrow> 's handler \<Rightarrow> 's handler" where
  "RequestID uuid next_handler c s =
     (let rid = Header_In c ''X-Request-ID'';
          rid = (if rid = [] then uuid else rid);
          ctx = (Ctx c)(MiddlewareKey requestIDCtxKey \<mapsto> CString rid);
          ctx = WithRequestID ctx rid
      in next_handler (gin_Header (c\<lparr>Ctx := ctx\<rparr>) ''X-Request-ID'' rid) s)"

definition RequestIDFromContext :: "go_ctx \<Rightarrow> string" where
  "RequestIDFromContext ctx =
     (case obs_RequestIDFromContext ctx of
        Some rid \<Rightarrow> rid
      | None \<Rightarrow> (case ctx (MiddlewareKey requestIDCtxKey) of Some (CString v) \<Rightarrow> v | _ \<Rightarrow> []))"

definition BearerToken :: "string \<Rightarrow> string" where
  "BearerToken header =
     (let parts = Fields header
      in if length parts \<noteq> 2 \<or> \<not> EqualFold (parts ! 0) ''Bearer'' then [] else parts ! 1)"

definition error_body :: "string \<Rightarrow> (string \<times> go_value) list" where
  "error_body msg = [(''error'', VString msg)]"

text \<open>A lookup of the current token version, when one is configured; \<open>now\<close> is the clock. The token
  service is nil when it is \<open>None\<close>.\<close>

type_synonym 's version_lookup = "nat \<Rightarrow> 's \<Rightarrow> go_error + int"

definition expiry_threshold :: "duration list \<Rightarrow> duration" where
  "expiry_threshold expiryWarn =
     (if length expiryWarn > 0 \<and> expiryWarn ! 0 > 0 then expiryWarn ! 0 else DefaultExpiryWarnThreshold)"

definition check_version :: "'s version_lookup option \<Rightarrow> nat \<Rightarrow> int \<Rightarrow> gin_context \<Rightarrow> 's \<Rightarrow> response option" where
  "check_version tokenVersion principalID version c s =
     (case tokenVersion of
        None \<Rightarrow> None
      | Some lookup \<Rightarrow>
          (case lookup principalID s of
             Inl _ \<Rightarrow> Some (gin_JSON c 401 (error_body ''token validation unavailable''))
           | Inr current \<Rightarrow> if version \<noteq> current then Some (gin_JSON c 401 (error_body ''token revoked'')) else None))"

definition PlatformToken ::
  "jwt \<Rightarrow> token_service option \<Rightarrow> go_time \<Rightarrow> 's version_lookup option \<Rightarrow> duration list \<Rightarrow> 's handler \<Rightarrow> 's handler" where
  "PlatformToken lib tokenSvc now tokenVersion expiryWarn next_handler c s =
     (let threshold = expiry_threshold expiryWarn;
          tok = BearerToken (Header_In c ''Authorization'')
      in case tokenSvc of
           None \<Rightarrow> (s, gin_JSON c 401 (error_body ''platform token required''))
         | Some svc \<Rightarrow>
             if tok = [] then (s, gin_JSON c 401 (error_body ''platform token required''))
             else case ParsePlatformToken lib svc now tok of
                    Inl _ \<Rightarrow> (s, gin_JSON c 401 (error_body ''invalid platform token''))
                  | Inr claims \<Rightarrow>
                      (case check_version tokenVersion (PlatformPrincipalID claims) (PlatformTokenVersion claims) c s of
                         Some r \<Rightarrow> (s, r)
                       | None \<Rightarrow>
                           (let c = c\<lparr>Ctx := WithPrincipalID (Ctx c) (PlatformPrincipalID claims)\<rparr>;
                                c = gin_Set c ''platform_claims'' (CPlatform (Some claims));
                                c = (if IsExpiringSoon now (PlatformRegistered claims) threshold
                                     then gin_Header c HeaderTokenExpiringSoon ''true'' else c)
                            in next_handler c s)))"

definition TenantToken ::
  "jwt \<Rightarrow> token_service option \<Rightarrow> go_time \<Rightarrow> 's version_lookup option \<Rightarrow> duration list \<Rightarrow> 's handler \<Rightarrow> 's handler" where
  "TenantToken lib tokenSvc now tokenVersion expiryWarn next_handler c s =
     (let threshold = expiry_threshold expiryWarn;
          tok = BearerToken (Header_In c ''Authorization'')
      in case tokenSvc of
           None \<Rightarrow> (s, gin_JSON c 401 (error_body ''tenant token required''))
         | Some svc \<Rightarrow>
             if tok = [] then (s, gin_JSON c 401 (error_body ''tenant token required''))
             else case ParseTenantToken lib svc now tok of
                    Inl _ \<Rightarrow> (s, gin_JSON c 401 (error_body ''invalid tenant token''))
                  | Inr claims \<Rightarrow>
                      (case check_version tokenVersion (PrincipalID claims) (TokenVersion claims) c s of
                         Some r \<Rightarrow> (s, r)
                       | None \<Rightarrow>
                           (let c = c\<lparr>Ctx := WithPrincipalID (WithTenantID (Ctx c) (TenantID claims)) (PrincipalID claims)\<rparr>;
                                c = gin_Set c ''tenant_claims'' (CTenant (Some claims));
                                c = (if IsExpiringSoon now (Registered claims) threshold
                                     then gin_Header c HeaderTokenExpiringSoon ''true'' else c)
                            in next_handler c s)))"

definition PlatformPrincipal :: "gin_context \<Rightarrow> nat \<times> string" where
  "PlatformPrincipal c =
     (case Keys c ''platform_claims'' of
        Some (CPlatform (Some claims)) \<Rightarrow> (PlatformPrincipalID claims, PlatformPrincipalType claims)
      | _ \<Rightarrow> (0, []))"

text \<open>\<^verbatim>\<open>v != nil\<close> on an interface value: a nil pointer of a claims type is not nil.\<close>

definition has_platform :: "gin_context \<Rightarrow> bool" where
  "has_platform c = (case Keys c ''platform_claims'' of None \<Rightarrow> False | Some v \<Rightarrow> v \<noteq> CNil)"

definition tenant_of :: "gin_context \<Rightarrow> tenant_claims option" where
  "tenant_of c = (case Keys c ''tenant_claims'' of Some (CTenant (Some claims)) \<Rightarrow> Some claims | _ \<Rightarrow> None)"

definition feature_gate ::
  "(nat \<Rightarrow> string \<Rightarrow> 's \<Rightarrow> go_error + bool) option \<Rightarrow> string \<Rightarrow> gin_context \<Rightarrow> 's \<Rightarrow> response option" where
  "feature_gate svc featureCode c s =
     (if has_platform c then None
      else case tenant_of c of
             None \<Rightarrow> Some (gin_JSON c 401 (error_body ''tenant token required''))
           | Some claims \<Rightarrow>
               if TenantID claims = 0 then Some (gin_JSON c 401 (error_body ''tenant token required''))
               else case svc of
                      None \<Rightarrow> Some (gin_JSON c 500 (error_body ''feature check unavailable''))
                    | Some isEnabled \<Rightarrow>
                        (case isEnabled (TenantID claims) featureCode s of
                           Inl _ \<Rightarrow> Some (gin_JSON c 500 (error_body ''feature check failed''))
                         | Inr enabled \<Rightarrow>
                             if \<not> enabled then Some (gin_JSON c 403 [(''error'', VString ''feature_disabled''), (''feature_code'', VString featureCode)])
                             else None))"

definition RequireFeature ::
  "(nat \<Rightarrow> string \<Rightarrow> 's \<Rightarrow> go_error + bool) option \<Rightarrow> string \<Rightarrow> 's handler \<Rightarrow> 's handler" where
  "RequireFeature svc featureCode next_handler c s =
     (case feature_gate svc featureCode c s of Some r \<Rightarrow> (s, r) | None \<Rightarrow> next_handler c s)"

text \<open>The cache is optional; the state is the cache's and the rest of the world.\<close>

record 'c status_cache =
  sc_Get :: "go_time \<Rightarrow> 'c \<Rightarrow> nat \<Rightarrow> int option \<times> 'c"
  sc_Set :: "go_time \<Rightarrow> 'c \<Rightarrow> nat \<Rightarrow> int \<Rightarrow> 'c"

type_synonym 's status_lookup = "nat \<Rightarrow> 's \<Rightarrow> go_error + int"

definition lookupStatus ::
  "'s status_lookup \<Rightarrow> 'c status_cache option \<Rightarrow> go_time \<Rightarrow> nat \<Rightarrow> 'c \<times> 's \<Rightarrow> 'c \<times> (go_error + int)" where
  "lookupStatus lookup sc now tenantID = (\<lambda>(c, s).
     (case sc of
        None \<Rightarrow> (c, lookup tenantID s)
      | Some ops \<Rightarrow>
          (case sc_Get ops now c tenantID of
             (Some v, c) \<Rightarrow> (c, Inr v)
           | (None, c) \<Rightarrow>
               (case lookup tenantID s of
                  Inl err \<Rightarrow> (c, Inl err)
                | Inr st \<Rightarrow> (sc_Set ops now c tenantID st, Inr st)))))"

definition active_gate ::
  "'s status_lookup option \<Rightarrow> 'c status_cache option \<Rightarrow> go_time \<Rightarrow> gin_context \<Rightarrow> 'c \<times> 's \<Rightarrow> 'c \<times> response option" where
  "active_gate lookup sc now c = (\<lambda>(cache, s).
     (if has_platform c then (cache, None)
      else case tenant_of c of
             None \<Rightarrow> (cache, Some (gin_JSON c 401 (error_body ''tenant token required'')))
           | Some claims \<Rightarrow>
               if TenantID claims = 0 then (cache, Some (gin_JSON c 401 (error_body ''tenant token required'')))
               else case lookup of
                      None \<Rightarrow> (cache, Some (gin_JSON c 500 (error_body ''tenant status check unavailable'')))
                    | Some look \<Rightarrow>
                        (case lookupStatus look sc now (TenantID claims) (cache, s) of
                           (cache, Inl err) \<Rightarrow>
                             (cache, Some (if errors_Is err ErrTenantGone then gin_JSON c 403 (error_body ''tenant_gone'')
                                           else gin_JSON c 500 (error_body ''tenant status check failed'')))
                         | (cache, Inr st) \<Rightarrow>
                             (cache, if st \<noteq> 0 then Some (gin_JSON c 403 (error_body ''tenant_suspended'')) else None))))"

definition RequireTenantActive ::
  "'s status_lookup option \<Rightarrow> 'c status_cache option \<Rightarrow> go_time \<Rightarrow> ('c \<times> 's) handler \<Rightarrow> ('c \<times> 's) handler" where
  "RequireTenantActive lookup sc now next_handler c = (\<lambda>(cache, s).
     (case active_gate lookup sc now c (cache, s) of
        (cache, Some r) \<Rightarrow> ((cache, s), r)
      | (cache, None) \<Rightarrow> next_handler c (cache, s)))"

section \<open>permission.go\<close>

definition ParseUintID :: "string \<Rightarrow> nat option" where
  "ParseUintID v = (case ParseUint v of (i, None) \<Rightarrow> if i = 0 then None else Some i | (_, Some _) \<Rightarrow> None)"

definition TenantClaimsForPath :: "gin_context \<Rightarrow> string \<Rightarrow> response + tenant_claims" where
  "TenantClaimsForPath c paramName =
     (let paramName = (if paramName = [] then ''tenant_id'' else paramName)
      in case tenant_of c of
           None \<Rightarrow> Inl (gin_JSON c 401 (error_body ''tenant token required''))
         | Some claims \<Rightarrow>
             (case ParseUintID (Param c paramName) of
                None \<Rightarrow> Inl (gin_JSON c 403 (error_body ''tenant path does not match token''))
              | Some pathTenantID \<Rightarrow>
                  if pathTenantID \<noteq> TenantID claims then Inl (gin_JSON c 403 (error_body ''tenant path does not match token''))
                  else Inr claims))"

definition RequireTenantPermission ::
  "(nat \<Rightarrow> nat \<Rightarrow> string \<Rightarrow> 's \<Rightarrow> go_error + bool) option \<Rightarrow> string \<Rightarrow> string list \<Rightarrow> gin_context \<Rightarrow> 's \<Rightarrow> response + tenant_claims" where
  "RequireTenantPermission authz permCode paramName c s =
     (let name = (if length paramName > 0 \<and> paramName ! 0 \<noteq> [] then paramName ! 0 else ''tenant_id'');
          denied = gin_JSON c 403 [(''error'', VString ''permission denied''), (''permission_code'', VString permCode)]
      in case TenantClaimsForPath c name of
           Inl r \<Rightarrow> Inl r
         | Inr claims \<Rightarrow>
             (case authz of
                None \<Rightarrow> Inl denied
              | Some hasPermission \<Rightarrow>
                  (case hasPermission (TenantID claims) (PrincipalID claims) permCode s of
                     Inl _ \<Rightarrow> Inl (gin_JSON c 500 (error_body ''permission check failed''))
                   | Inr allowed \<Rightarrow> if \<not> allowed then Inl denied else Inr claims)))"

section \<open>role.go, cors.go, requestid.go\<close>

definition RequireRole :: "string list \<Rightarrow> 's handler \<Rightarrow> 's handler" where
  "RequireRole roles next_handler c s =
     (let role = gin_GetString c ''role''
      in if role \<notin> set roles then (s, resp_Error c 403 CodeForbidden ''forbidden'') else next_handler c s)"

definition RequireHeaderSecret :: "string \<Rightarrow> string \<Rightarrow> 's handler \<Rightarrow> 's handler" where
  "RequireHeaderSecret headerName key next_handler c s =
     (let provided = Header_In c headerName
      in if provided = [] \<or> provided \<noteq> key then (s, resp_Error c 403 CodeForbidden ''invalid secret'') else next_handler c s)"

definition CORSMiddleware :: "string \<Rightarrow> 's handler \<Rightarrow> 's handler" where
  "CORSMiddleware origins next_handler c s =
     (let allowedSet = set (map TrimSpace (SplitByte CHR '','' origins));
          origin = Header_In c ''Origin'';
          c = (if origin \<in> allowedSet
               then gin_Header (gin_Header (gin_Header (gin_Header (gin_Header c
                      ''Access-Control-Allow-Origin'' origin)
                      ''Access-Control-Allow-Methods'' ''GET, POST, PUT, PATCH, DELETE, OPTIONS'')
                      ''Access-Control-Allow-Headers'' ''Content-Type, Authorization'')
                      ''Access-Control-Allow-Credentials'' ''true'')
                      ''Access-Control-Max-Age'' ''86400''
               else c)
      in if Method c = ''OPTIONS'' then (s, \<lparr>status = 204, headers = Header_Out c, content = NoBody\<rparr>)
         else next_handler c s)"

definition RequestIDMiddleware :: "string \<Rightarrow> 's handler \<Rightarrow> 's handler" where
  "RequestIDMiddleware uuid next_handler c s =
     (let traceID = Header_In c ''X-Request-ID'';
          traceID = (if traceID = [] then uuid else traceID)
      in next_handler (gin_Header (gin_Set c ''trace_id'' (CString traceID)) ''X-Request-ID'' traceID) s)"

section \<open>auth.go: rate limits\<close>

definition ExtractBearerToken :: "gin_context \<Rightarrow> string option" where
  "ExtractBearerToken c =
     (case IndexByte (Header_In c ''Authorization'') CHR '' '' of
        None \<Rightarrow> None
      | Some i \<Rightarrow> if take i (Header_In c ''Authorization'') \<noteq> ''Bearer'' then None else Some (drop (i + 1) (Header_In c ''Authorization'')))"

definition too_many :: "gin_context \<Rightarrow> string \<Rightarrow> response" where
  "too_many c msg = gin_JSON c 429 [(''code'', VInt 4029), (''message'', VString msg), (''data'', VNil)]"

text \<open>The client sends a time to live in whole seconds, one if it is shorter.\<close>

definition EXPIRE :: "'s redis \<Rightarrow> go_time \<Rightarrow> string \<Rightarrow> duration \<Rightarrow> 's \<Rightarrow> 's \<times> int" where
  "EXPIRE r now key d s = PEXPIRE r now key ((if 0 < d \<and> d < second then 1 else go_div d second) * 1000) s"

text \<open>\<^verbatim>\<open>rdb.Get(ctx, key).Int64()\<close> with the error dropped.\<close>

definition redis_count :: "'s redis \<Rightarrow> link \<Rightarrow> go_time \<Rightarrow> string \<Rightarrow> 's \<Rightarrow> 's \<times> int" where
  "redis_count r l now key s =
     (case client_call l (\<lambda>s. map_prod id Inr (GET r now key s)) s of
        (s, Inl _) \<Rightarrow> (s, 0)
      | (s, Inr None) \<Rightarrow> (s, 0)
      | (s, Inr (Some v)) \<Rightarrow> (s, fst (ParseInt v)))"

text \<open>The two commands of the pipeline travel together.\<close>

definition count_failure :: "'s redis \<Rightarrow> go_time \<Rightarrow> string \<Rightarrow> duration \<Rightarrow> 's \<Rightarrow> 's \<times> (go_error + int)" where
  "count_failure r now key window s =
     (let (s, n) = INCRBY r now key 1 s in (fst (EXPIRE r now key window s), n))"

definition login_key :: "gin_context \<Rightarrow> string" where
  "login_key c = ''login_fail:'' @ ClientIP c"

text \<open>\<open>None\<close> for the client is the nil client; \<open>now'\<close> is the time after the handler.\<close>

definition LoginRateLimit ::
  "'s redis option \<Rightarrow> link \<Rightarrow> go_time \<Rightarrow> link \<Rightarrow> go_time \<Rightarrow> int \<Rightarrow> duration \<Rightarrow> ('s \<times> 'w) handler \<Rightarrow> ('s \<times> 'w) handler" where
  "LoginRateLimit rdb l now l' now' maxAttempts window next_handler c st =
     (case rdb of
        None \<Rightarrow> next_handler c st
      | Some r \<Rightarrow>
          (let (s, w) = st;
               key = login_key c;
               (s, count) = redis_count r l now key s
           in if count \<ge> maxAttempts then ((s, w), too_many c ''too many failed login attempts, please try again later'')
              else let ((s, w), rsp) = next_handler c (s, w)
                   in if status rsp = 401 then ((fst (client_call l' (count_failure r now' key window) s), w), rsp)
                      else if status rsp = 200
                      then ((fst (client_call l' (\<lambda>s. map_prod id Inr (DEL r now' key s)) s), w), rsp)
                      else ((s, w), rsp)))"

definition ip_key :: "gin_context \<Rightarrow> string" where
  "ip_key c = ''ip_rl:'' @ ClientIP c"

definition ip_gate ::
  "'s redis \<Rightarrow> link \<Rightarrow> link \<Rightarrow> go_time \<Rightarrow> int \<Rightarrow> gin_context \<Rightarrow> 's \<Rightarrow> 's \<times> response option" where
  "ip_gate r l l' now rpm c s =
     (let key = ip_key c;
          (s, res) = client_call l (INCRBY r now key 1) s;
          count = (case res of Inl _ \<Rightarrow> 0 | Inr n \<Rightarrow> n);
          s = fst (client_call l' (\<lambda>s. map_prod id Inr (EXPIRE r now key (60 * second) s)) s)
      in (s, if count > rpm then Some (too_many c ''rate limit exceeded'') else None))"

definition IPRateLimit ::
  "'s redis option \<Rightarrow> link \<Rightarrow> link \<Rightarrow> go_time \<Rightarrow> int \<Rightarrow> ('s \<times> 'w) handler \<Rightarrow> ('s \<times> 'w) handler" where
  "IPRateLimit rdb l l' now rpm next_handler c st =
     (case rdb of
        None \<Rightarrow> next_handler c st
      | Some r \<Rightarrow>
          (let (s, w) = st
           in case ip_gate r l l' now rpm c s of
                (s, Some reply) \<Rightarrow> ((s, w), reply)
              | (s, None) \<Rightarrow> next_handler c (s, w)))"

section \<open>Tokens and gates\<close>

lemma check_version_None:
  "check_version tv i v c s = None \<longleftrightarrow> (\<forall>look. tv = Some look \<longrightarrow> look i s = Inr v)"
  by (auto simp: check_version_def split: option.splits sum.splits)

lemma check_version_Some:
  "check_version tv i v c s = Some r \<Longrightarrow> \<exists>m. r = gin_JSON c 401 (error_body m)"
  by (auto simp: check_version_def split: option.splits sum.splits if_splits)

lemma ctx_ids [simp]:
  "obs_TenantIDFromContext (WithPrincipalID (WithTenantID x i) j) = Some i"
  "PrincipalIDFromContext (WithPrincipalID x j) = Some j"
  by (simp_all add: obs_TenantIDFromContext_def WithPrincipalID_def WithTenantID_def PrincipalIDFromContext_def)

lemma gin_simps [simp]:
  "Ctx (gin_Set c k v) = Ctx c" "Ctx (gin_Header c h w) = Ctx c" "Keys (gin_Header c h w) = Keys c"
  "Keys (gin_Set c k v) = (Keys c)(k \<mapsto> v)"
  by (simp_all add: gin_Set_def gin_Header_def)

text \<open>What a handler behind the tenant token check may rely on.\<close>

definition tenant_passed ::
  "jwt \<Rightarrow> token_service option \<Rightarrow> go_time \<Rightarrow> 's version_lookup option \<Rightarrow> gin_context \<Rightarrow> gin_context \<Rightarrow> 's \<Rightarrow> bool" where
  "tenant_passed lib tokenSvc now tokenVersion c c' s \<longleftrightarrow> (\<exists>svc claims. tokenSvc = Some svc \<and>
     ParseTenantToken lib svc now (BearerToken (Header_In c ''Authorization'')) = Inr claims \<and>
     (\<forall>look. tokenVersion = Some look \<longrightarrow> look (PrincipalID claims) s = Inr (TokenVersion claims)) \<and>
     tenant_of c' = Some claims \<and> obs_TenantIDFromContext (Ctx c') = Some (TenantID claims) \<and>
     PrincipalIDFromContext (Ctx c') = Some (PrincipalID claims))"

lemma TenantToken_passes:
  "(\<exists>m. TenantToken lib tokenSvc now tokenVersion warn next_handler c s = (s, gin_JSON c 401 (error_body m))) \<or>
   (\<exists>c'. TenantToken lib tokenSvc now tokenVersion warn next_handler c s = next_handler c' s \<and>
      tenant_passed lib tokenSvc now tokenVersion c c' s)"
proof (cases tokenSvc)
  case (Some svc)
  let ?tok = "BearerToken (Header_In c ''Authorization'')"
  show ?thesis
  proof (cases "ParseTenantToken lib svc now ?tok")
    case (Inl e)
    with Some show ?thesis by (simp add: TenantToken_def Let_def) blast
  next
    case (Inr claims)
    show ?thesis
    proof (cases "check_version tokenVersion (PrincipalID claims) (TokenVersion claims) c s")
      case (Some r)
      with \<open>tokenSvc = Some svc\<close> Inr check_version_Some [OF Some] show ?thesis by (simp add: TenantToken_def Let_def) blast
    next
      case None
      define c1 where "c1 = gin_Set (c\<lparr>Ctx := WithPrincipalID (WithTenantID (Ctx c) (TenantID claims)) (PrincipalID claims)\<rparr>)
        ''tenant_claims'' (CTenant (Some claims))"
      define c2 where "c2 = (if IsExpiringSoon now (Registered claims) (expiry_threshold warn)
        then gin_Header c1 HeaderTokenExpiringSoon ''true'' else c1)"
      have "tenant_of c2 = Some claims" "Ctx c2 = WithPrincipalID (WithTenantID (Ctx c) (TenantID claims)) (PrincipalID claims)"
        by (simp_all add: c2_def c1_def tenant_of_def)
      then have "tenant_passed lib tokenSvc now tokenVersion c c2 s"
        using Some Inr None unfolding tenant_passed_def check_version_None by simp
      moreover have "?tok \<noteq> [] \<Longrightarrow> TenantToken lib tokenSvc now tokenVersion warn next_handler c s = next_handler c2 s"
        using Some Inr None by (simp add: TenantToken_def Let_def c1_def c2_def)
      moreover have "?tok = [] \<Longrightarrow> TenantToken lib tokenSvc now tokenVersion warn next_handler c s =
          (s, gin_JSON c 401 (error_body ''tenant token required''))"
        using Some by (simp add: TenantToken_def Let_def)
      ultimately show ?thesis by blast
    qed
  qed
qed (simp add: TenantToken_def Let_def, blast)

lemma TenantClaimsForPath_Inr:
  "TenantClaimsForPath c name = Inr claims \<Longrightarrow>
     tenant_of c = Some claims \<and> ParseUint (Param c (if name = [] then ''tenant_id'' else name)) = (TenantID claims, None) \<and> TenantID claims \<noteq> 0"
  by (auto simp: TenantClaimsForPath_def ParseUintID_def Let_def split: option.splits prod.splits if_splits)

section \<open>Tenant status through the cache\<close>






section \<open>Counting requests per address\<close>

fun ip_run :: "'s redis \<Rightarrow> int \<Rightarrow> gin_context \<Rightarrow> go_time list \<Rightarrow> 's \<Rightarrow> 's \<times> response option list" where
  "ip_run r rpm c [] s = (s, [])"
| "ip_run r rpm c (t # ts) s =
     (let (s, d) = ip_gate r Delivered Delivered t rpm c s; (s, ds) = ip_run r rpm c ts s in (s, d # ds))"

text \<open>Consecutive requests less than a minute apart.\<close>

fun close_times :: "go_time \<Rightarrow> go_time list \<Rightarrow> bool" where
  "close_times t0 [] = True"
| "close_times t0 (t # ts) = (t0 \<le> t \<and> t < t0 + 60 * second \<and> close_times t ts)"

context redis_server
begin

lemma ip_gate_count:
  assumes "INCRBY r now (ip_key c) 1 s = (s1, Inr n)"
    and "view s1 now (ip_key c) = Some e"
  shows "view (fst (ip_gate r Delivered Delivered now rpm c s)) now (ip_key c) =
      Some (e\<lparr>deadline := Some (now + 60 * second)\<rparr>)"
    and "snd (ip_gate r Delivered Delivered now rpm c s) = (if n > rpm then Some (too_many c ''rate limit exceeded'') else None)"
proof -
  let ?k = "ip_key c"
  have "ip_gate r Delivered Delivered now rpm c s =
      (fst (PEXPIRE r now ?k 60000 s1), if n > rpm then Some (too_many c ''rate limit exceeded'') else None)"
    by (simp add: ip_gate_def client_call_def assms(1) EXPIRE_def go_div_def Let_def)
  moreover have "view (fst (PEXPIRE r now ?k 60000 s1)) now ?k = Some (e\<lparr>deadline := Some (now + 60 * second)\<rparr>)"
    using PEXPIRE_view [of 60000 now ?k s1] assms(2) by simp
  ultimately show "view (fst (ip_gate r Delivered Delivered now rpm c s)) now ?k = Some (e\<lparr>deadline := Some (now + 60 * second)\<rparr>)"
    and "snd (ip_gate r Delivered Delivered now rpm c s) = (if n > rpm then Some (too_many c ''rate limit exceeded'') else None)"
    by (simp_all only: fst_conv snd_conv)
qed

lemma ip_gate_first:
  assumes "view s now (ip_key c) = None"
  shows "view (fst (ip_gate r Delivered Delivered now rpm c s)) now (ip_key c) =
      Some \<lparr>rvalue = FormatInt 1, deadline = Some (now + 60 * second)\<rparr>"
    and "snd (ip_gate r Delivered Delivered now rpm c s) = (if 1 > rpm then Some (too_many c ''rate limit exceeded'') else None)"
proof -
  let ?k = "ip_key c"
  have i: "in_int64 1" by (simp add: in_int64_def)
  have 1: "INCRBY r now ?k 1 s = (fst (INCRBY r now ?k 1 s), Inr 1)"
    using INCRBY_absent [OF assms i] by (metis prod.collapse)
  have 2: "view (fst (INCRBY r now ?k 1 s)) now ?k = Some \<lparr>rvalue = FormatInt 1, deadline = None\<rparr>"
    using INCRBY_absent [OF assms i] by simp
  show "view (fst (ip_gate r Delivered Delivered now rpm c s)) now ?k =
      Some \<lparr>rvalue = FormatInt 1, deadline = Some (now + 60 * second)\<rparr>"
    using ip_gate_count(1) [OF 1 2] by simp
  show "snd (ip_gate r Delivered Delivered now rpm c s) = (if 1 > rpm then Some (too_many c ''rate limit exceeded'') else None)"
    by (rule ip_gate_count(2) [OF 1 2])
qed

lemma ip_gate_next:
  assumes "view s now (ip_key c) = Some \<lparr>rvalue = FormatInt n, deadline = d\<rparr>" and "in_int64 n" and "in_int64 (n + 1)"
  shows "view (fst (ip_gate r Delivered Delivered now rpm c s)) now (ip_key c) =
      Some \<lparr>rvalue = FormatInt (n + 1), deadline = Some (now + 60 * second)\<rparr>"
    and "snd (ip_gate r Delivered Delivered now rpm c s) = (if n + 1 > rpm then Some (too_many c ''rate limit exceeded'') else None)"
proof -
  let ?k = "ip_key c"
  have law: "snd (INCRBY r now ?k 1 s) = Inr (n + 1) \<and>
      view (fst (INCRBY r now ?k 1 s)) now = (view s now)(?k \<mapsto> \<lparr>rvalue = FormatInt (n + 1), deadline = d\<rparr>)"
    using INCRBY_present [OF assms(1) _ assms(2,3)] by simp
  have 1: "INCRBY r now ?k 1 s = (fst (INCRBY r now ?k 1 s), Inr (n + 1))"
    using law by (metis prod.collapse)
  have 2: "view (fst (INCRBY r now ?k 1 s)) now ?k = Some \<lparr>rvalue = FormatInt (n + 1), deadline = d\<rparr>"
    using law by simp
  show "view (fst (ip_gate r Delivered Delivered now rpm c s)) now ?k =
      Some \<lparr>rvalue = FormatInt (n + 1), deadline = Some (now + 60 * second)\<rparr>"
    using ip_gate_count(1) [OF 1 2] by simp
  show "snd (ip_gate r Delivered Delivered now rpm c s) = (if n + 1 > rpm then Some (too_many c ''rate limit exceeded'') else None)"
    by (rule ip_gate_count(2) [OF 1 2])
qed

lemma ip_run_counts:
  assumes "view s t0 (ip_key c) = Some \<lparr>rvalue = FormatInt n, deadline = Some (t0 + 60 * second)\<rparr>"
    and "close_times t0 ts" and "0 \<le> n" and "in_int64 (n + int (length ts))" and "i < length ts"
  shows "snd (ip_run r rpm c ts s) ! i = (if n + int i + 1 > rpm then Some (too_many c ''rate limit exceeded'') else None)"
  using assms
proof (induction ts arbitrary: s t0 n i)
  case (Cons t ts)
  let ?k = "ip_key c"
  have range: "in_int64 n" "in_int64 (n + 1)" "in_int64 (n + 1 + int (length ts))"
    using Cons.prems(3,4) by (auto simp: in_int64_def)
  have "view s t ?k = Some \<lparr>rvalue = FormatInt n, deadline = Some (t0 + 60 * second)\<rparr>"
    by (rule view_stays [OF Cons.prems(1)]) (use Cons.prems(2) in \<open>simp_all add: live_def\<close>)
  note gate = ip_gate_next [OF this range(1,2), of rpm]
  obtain s1 d where g: "ip_gate r Delivered Delivered t rpm c s = (s1, d)" by fastforce
  obtain s2 ds where run: "ip_run r rpm c ts s1 = (s2, ds)" by fastforce
  have d: "d = (if n + 1 > rpm then Some (too_many c ''rate limit exceeded'') else None)" using gate(2) g by simp
  show ?case
  proof (cases i)
    case 0
    then show ?thesis using g run d by simp
  next
    case (Suc j)
    have "snd (ip_run r rpm c ts s1) ! j = (if n + 1 + int j + 1 > rpm then Some (too_many c ''rate limit exceeded'') else None)"
      by (rule Cons.IH [of s1 t]) (use gate(1) g range(3) Cons.prems(2,3,5) Suc in simp_all)
    with g run Suc show ?thesis by (simp add: algebra_simps)
  qed
qed simp

lemma ip_run_absent:
  assumes "view s t (ip_key c) = None" and "close_times t ts" and "in_int64 (1 + int (length ts))" and "i \<le> length ts"
  shows "snd (ip_run r rpm c (t # ts) s) ! i = (if int i + 1 > rpm then Some (too_many c ''rate limit exceeded'') else None)"
proof -
  obtain s1 d where g: "ip_gate r Delivered Delivered t rpm c s = (s1, d)" by fastforce
  obtain s2 ds where run: "ip_run r rpm c ts s1 = (s2, ds)" by fastforce
  note gate = ip_gate_first [OF assms(1), of rpm]
  show ?thesis
  proof (cases i)
    case 0
    then show ?thesis using g run gate(2) by simp
  next
    case (Suc j)
    have "snd (ip_run r rpm c ts s1) ! j = (if 1 + int j + 1 > rpm then Some (too_many c ''rate limit exceeded'') else None)"
      by (rule ip_run_counts [of s1 t]) (use gate(1) g assms Suc in simp_all)
    with g run Suc show ?thesis by (simp add: algebra_simps)
  qed
qed

end

section \<open>Properties\<close>

definition sample_context :: gin_context where
  "sample_context = \<lparr>Method = ''GET'', URLPath = ''/'', Header_In = (\<lambda>_. []), Param = (\<lambda>_. []), Query = (\<lambda>_. None), ClientIP = ''10.0.0.1'',
     Body = Inr [], Keys = Map.empty, Ctx = Map.empty, Header_Out = Map.empty\<rparr>"

text \<open>C26: Behind the tenant token check a handler runs only for a request with a bearer token that parses as a tenant token of the service and whose
  version is the principal's current one; the claims in the request and the tenant and principal ids in its context are those of that token. Every other
  request is answered 401 without touching anything.\<close>
theorem tenant_token_guards:
  "(\<exists>m. TenantToken lib tokenSvc now tokenVersion warn next_handler c s = (s, gin_JSON c 401 (error_body m))) \<or>
   (\<exists>c'. TenantToken lib tokenSvc now tokenVersion warn next_handler c s = next_handler c' s \<and>
      tenant_passed lib tokenSvc now tokenVersion c c' s)"
  by (rule TenantToken_passes)




text \<open>C28: The per-address limit is not a rate over a minute: every request moves the expiry of the counter a minute ahead, so the count is never reset while
  requests are less than a minute apart. The \<open>i\<close>-th request of such a run is rejected as soon as \<open>i\<close> exceeds the limit, however slowly they come.\<close>
theorem ip_limit_never_resets:
  assumes "redis_server r view" and "view s t (ip_key c) = None" and "close_times t ts" and "in_int64 (1 + int (length ts))" and "i \<le> length ts"
  shows "snd (ip_run r rpm c (t # ts) s) ! i = (if int i + 1 > rpm then Some (too_many c ''rate limit exceeded'') else None)"
  by (rule redis_server.ip_run_absent [OF assms])

theorem ip_limit_never_resets_witness:
  "snd (ip_run mini_redis 2 sample_context [0, 59 * second, 118 * second] Map.empty) ! 2 =
     Some (too_many sample_context ''rate limit exceeded'')"
  using ip_limit_never_resets [OF mini.redis_server_axioms, of Map.empty 0 sample_context "[59 * second, 118 * second]" 2 2]
  by (simp add: mini_view_def in_int64_def)

end
