(* ===== verification/Go_Url.thy ===== *)
theory Go_Url
  imports Go_Utf8 Go_Strconv
begin

text \<open>
  \<^verbatim>\<open>net/url\<close>: parsing a URL reference and printing its path, as \<^verbatim>\<open>http.NewRequest\<close> and
  \<^verbatim>\<open>URL.EscapedPath\<close> do. The user and fragment parts only matter through the errors they can cause.
\<close>

section \<open>Escaping\<close>

datatype url_mode = encodePath | encodeHost | encodeZone | encodeUserPassword | encodeFragment

definition is_alnum :: "char \<Rightarrow> bool" where
  "is_alnum c \<longleftrightarrow> (let b = byte_of c in 97 \<le> b \<and> b \<le> 122 \<or> 65 \<le> b \<and> b \<le> 90 \<or> 48 \<le> b \<and> b \<le> 57)"

definition shouldEscape :: "char \<Rightarrow> url_mode \<Rightarrow> bool" where
  "shouldEscape c mode =
     (if is_alnum c then False
      else if (mode = encodeHost \<or> mode = encodeZone) \<and> c \<in> set (''!$&()*+,;=:[]<>'' @ [CHR 0x27, CHR 0x22]) then False
      else if c \<in> set ''-_.~'' then False
      else if c \<in> set ''$&+,/:;=?@''
      then (case mode of
              encodePath \<Rightarrow> c = CHR ''?''
            | encodeUserPassword \<Rightarrow> c \<in> set ''@/?:''
            | encodeFragment \<Rightarrow> False
            | _ \<Rightarrow> True)
      else if mode = encodeFragment \<and> c \<in> set ''!()*'' then False
      else True)"

definition upper_hex :: "nat \<Rightarrow> char" where
  "upper_hex d = (if d < 10 then char_of (48 + d) else char_of (55 + d))"

definition url_escape :: "string \<Rightarrow> url_mode \<Rightarrow> string" where
  "url_escape s mode =
     concat (map (\<lambda>c. if shouldEscape c mode then [CHR ''%'', upper_hex (byte_of c div 16), upper_hex (byte_of c mod 16)] else [c]) s)"

definition hex_byte :: "char \<Rightarrow> char \<Rightarrow> nat option" where
  "hex_byte a b = (case (hex_val a, hex_val b) of (Some x, Some y) \<Rightarrow> Some (16 * x + y) | _ \<Rightarrow> None)"

text \<open>\<open>None\<close> is an error: a broken escape, or a byte that may not stand in a host.\<close>

fun url_unescape :: "string \<Rightarrow> url_mode \<Rightarrow> string option" where
  "url_unescape [] mode = Some []"
| "url_unescape (c # cs) mode =
     (if c = CHR ''%''
      then (case cs of
              a # b # rest \<Rightarrow>
                (case hex_byte a b of
                   None \<Rightarrow> None
                 | Some v \<Rightarrow>
                     if mode = encodeHost \<and> v < 128 \<and> v \<noteq> 0x25 then None
                     else if mode = encodeZone \<and> v \<noteq> 0x25 \<and> v \<noteq> 0x20 \<and> shouldEscape (char_of v) encodeHost then None
                     else map_option (Cons (char_of v)) (url_unescape rest mode))
            | _ \<Rightarrow> None)
      else if (mode = encodeHost \<or> mode = encodeZone) \<and> byte_of c < 128 \<and> shouldEscape c mode then None
      else map_option (Cons c) (url_unescape cs mode))"

section \<open>Parsing\<close>

record url =
  Scheme :: string
  Opaque :: string
  Host :: string
  Path :: string
  RawPath :: string

text \<open>\<^verbatim>\<open>strings.Cut\<close> at the first, and the last index of, a byte.\<close>

definition CutByte :: "string \<Rightarrow> char \<Rightarrow> string \<times> string" where
  "CutByte s c = (case IndexByte s c of None \<Rightarrow> (s, []) | Some i \<Rightarrow> (take i s, drop (i + 1) s))"

definition LastIndexByte :: "string \<Rightarrow> char \<Rightarrow> nat option" where
  "LastIndexByte s c = map_option (\<lambda>i. length s - 1 - i) (IndexByte (rev s) c)"

fun scheme_end :: "nat \<Rightarrow> string \<Rightarrow> (nat option) option" where
  "scheme_end i [] = Some None"
| "scheme_end i (c # cs) =
     (if is_alnum c \<and> \<not> is_digit c then scheme_end (Suc i) cs
      else if is_digit c \<or> c \<in> set ''+-.'' then if i = 0 then Some None else scheme_end (Suc i) cs
      else if c = CHR '':'' then if i = 0 then None else Some (Some i)
      else Some None)"

definition getScheme :: "string \<Rightarrow> (string \<times> string) option" where
  "getScheme raw =
     (case scheme_end 0 raw of
        None \<Rightarrow> None
      | Some None \<Rightarrow> Some ([], raw)
      | Some (Some i) \<Rightarrow> Some (take i raw, drop (i + 1) raw))"

definition validOptionalPort :: "string \<Rightarrow> bool" where
  "validOptionalPort port = (case port of [] \<Rightarrow> True | c # cs \<Rightarrow> c = CHR '':'' \<and> list_all is_digit cs)"

definition validUserinfo :: "string \<Rightarrow> bool" where
  "validUserinfo s = list_all (\<lambda>c. is_alnum c \<or> c \<in> set (''-._:~!$&()*+,;=%@'' @ [CHR 0x27])) s"

fun index_of :: "string \<Rightarrow> string \<Rightarrow> nat option" where
  "index_of [] p = (if p = [] then Some 0 else None)"
| "index_of (c # cs) p = (if HasPrefix (c # cs) p then Some 0 else map_option Suc (index_of cs p))"

definition parseHost :: "string \<Rightarrow> string option" where
  "parseHost host =
     (if HasPrefix host ''[''
      then (case LastIndexByte host CHR '']'' of
              None \<Rightarrow> None
            | Some i \<Rightarrow>
                if \<not> validOptionalPort (drop (i + 1) host) then None
                else case index_of (take i host) ''%25'' of
                       Some z \<Rightarrow>
                         (case (url_unescape (take z host) encodeHost, url_unescape (drop z (take i host)) encodeZone,
                                url_unescape (drop i host) encodeHost) of
                            (Some h1, Some h2, Some h3) \<Rightarrow> Some (h1 @ h2 @ h3)
                          | _ \<Rightarrow> None)
                     | None \<Rightarrow> url_unescape host encodeHost)
      else (case LastIndexByte host CHR '':'' of
              Some i \<Rightarrow> if \<not> validOptionalPort (drop i host) then None else url_unescape host encodeHost
            | None \<Rightarrow> url_unescape host encodeHost))"

definition parseAuthority :: "string \<Rightarrow> string option" where
  "parseAuthority authority =
     (case LastIndexByte authority CHR ''@'' of
        None \<Rightarrow> parseHost authority
      | Some i \<Rightarrow>
          (case parseHost (drop (i + 1) authority) of
             None \<Rightarrow> None
           | Some host \<Rightarrow>
               (let userinfo = take i authority; (name, pass) = CutByte userinfo CHR '':''
                in if \<not> validUserinfo userinfo \<or> url_unescape name encodeUserPassword = None \<or>
                      url_unescape pass encodeUserPassword = None
                   then None else Some host)))"

definition setPath :: "url \<Rightarrow> string \<Rightarrow> url option" where
  "setPath u p =
     (case url_unescape p encodePath of
        None \<Rightarrow> None
      | Some path \<Rightarrow> Some (u\<lparr>Path := path, RawPath := if p = url_escape path encodePath then [] else p\<rparr>))"

definition url_parse_ref :: "string \<Rightarrow> url option" where
  "url_parse_ref raw =
     (let u = \<lparr>Scheme = [], Opaque = [], Host = [], Path = [], RawPath = []\<rparr>
      in if list_ex (\<lambda>c. byte_of c < 0x20 \<or> byte_of c = 0x7F) raw then None
         else if raw = ''*'' then Some (u\<lparr>Path := ''*''\<rparr>)
         else case getScheme raw of
                None \<Rightarrow> None
              | Some (scheme, rest) \<Rightarrow>
                  (let u = u\<lparr>Scheme := map lower_char scheme\<rparr>;
                       rest = fst (CutByte rest CHR ''?'')
                   in if \<not> HasPrefix rest ''/'' \<and> scheme \<noteq> [] then Some (u\<lparr>Opaque := rest\<rparr>)
                      else if \<not> HasPrefix rest ''/'' \<and> CHR '':'' \<in> set (fst (CutByte rest CHR ''/'')) then None
                      else if (scheme \<noteq> [] \<or> \<not> HasPrefix rest ''///'') \<and> HasPrefix rest ''//''
                      then (let authority = drop 2 rest;
                                (authority, rest) = (case IndexByte authority CHR ''/'' of
                                    Some i \<Rightarrow> (take i authority, drop i authority) | None \<Rightarrow> (authority, []))
                            in case parseAuthority authority of None \<Rightarrow> None | Some host \<Rightarrow> setPath (u\<lparr>Host := host\<rparr>) rest)
                      else setPath u rest))"

definition url_Parse :: "string \<Rightarrow> url option" where
  "url_Parse raw =
     (let (u, frag) = CutByte raw CHR ''#''
      in case url_parse_ref u of
           None \<Rightarrow> None
         | Some url \<Rightarrow> if frag \<noteq> [] \<and> url_unescape frag encodeFragment = None then None else Some url)"

definition validEncoded :: "string \<Rightarrow> bool" where
  "validEncoded s = list_all (\<lambda>c. c \<in> set (''!$&()*+,;=:@[]%'' @ [CHR 0x27]) \<or> \<not> shouldEscape c encodePath) s"

definition EscapedPath :: "url \<Rightarrow> string" where
  "EscapedPath u =
     (if RawPath u \<noteq> [] \<and> validEncoded (RawPath u) \<and> url_unescape (RawPath u) encodePath = Some (Path u) then RawPath u
      else if Path u = ''*'' then ''*''
      else url_escape (Path u) encodePath)"

end
