(* ===== verification/Job_Payload.thy ===== *)
theory Job_Payload
  imports Go_Float
begin

text \<open>
  The package \<^verbatim>\<open>jobpayload\<close>: reading an integer out of the untyped payload of a job
  (\<^verbatim>\<open>jobpayload/payload.go\<close>).
\<close>

text \<open>The dynamic types that \<^verbatim>\<open>jobpayload.Int\<close> tells apart; \<^verbatim>\<open>int\<close> has 64 bits, so that the
  conversions between \<^verbatim>\<open>int\<close> and \<^verbatim>\<open>int64\<close> lose nothing.\<close>

datatype payload_value = PInt int | PInt64 int | PFloat64 float64 | PNumber string | POther

definition float_Trunc :: "float64 \<Rightarrow> float64" where
  "float_Trunc x = (case x of Fin a \<Rightarrow> Fin (of_int (float_to_int a)) | _ \<Rightarrow> x)"

text \<open>\<^verbatim>\<open>x == y\<close>: NaN is equal to nothing.\<close>

definition float_eq :: "float64 \<Rightarrow> float64 \<Rightarrow> bool" where
  "float_eq x y \<longleftrightarrow> x \<noteq> NaN \<and> x = y"

text \<open>\<open>conv\<close> is the platform's conversion of floats that are out of range. A nil map is the empty one.\<close>

definition jobpayload_Int :: "(float64 \<Rightarrow> int) \<Rightarrow> (string \<Rightarrow> payload_value option) \<Rightarrow> string \<Rightarrow> int \<Rightarrow> int" where
  "jobpayload_Int conv payload key d =
     (case payload key of
        Some (PInt v) \<Rightarrow> v
      | Some (PInt64 v) \<Rightarrow> if wrap64 v = v then wrap64 v else d
      | Some (PFloat64 v) \<Rightarrow>
          if float_eq (float_Trunc v) v \<and> float_ge v (float_of_int min_int64) \<and> float_ge (float_of_int max_int64) v
          then float_to_int64 conv v else d
      | Some (PNumber t) \<Rightarrow>
          (case ParseInt t of (n, None) \<Rightarrow> if wrap64 n = n then wrap64 n else d | (n, Some _) \<Rightarrow> d)
      | _ \<Rightarrow> d)"

lemma jobpayload_Int_default: "payload key = None \<Longrightarrow> jobpayload_Int conv payload key d = d"
  by (simp add: jobpayload_Int_def)

text \<open>Whatever the payload holds, the result is an \<^verbatim>\<open>int\<close>.\<close>

lemma jobpayload_Int_in_int64:
  assumes "in_int64 d" and "\<And>x. in_int64 (conv x)" and "\<And>v. payload key = Some (PInt v) \<Longrightarrow> in_int64 v"
  shows "in_int64 (jobpayload_Int conv payload key d)"
proof -
  have w: "in_int64 v" if "wrap64 v = v" for v using that in_int64_wrap64 [of v] by simp
  show ?thesis
    using assms
    by (auto simp: jobpayload_Int_def float_to_int64_def w
        split: option.splits payload_value.splits prod.splits float64.splits)
qed

text \<open>The largest \<^verbatim>\<open>int\<close> is not a float: it rounds up to \<open>2^63\<close>, so that the range check lets \<open>2^63\<close> through, and the
  conversion that follows is out of range.\<close>

lemma bit_length_max_int: "bit_length (2 ^ 63 - 1) = 63"
proof (rule ccontr)
  assume "bit_length (2 ^ 63 - 1) \<noteq> 63"
  moreover have "2 ^ (bit_length (2 ^ 63 - 1) - 1) < (2 :: nat) ^ 63" using bit_length_bounds(1) [of "2 ^ 63 - 1"] by simp
  then have "bit_length (2 ^ 63 - 1) - 1 < 63" by (rule nat_power_less_imp_less [rotated]) simp
  ultimately have "bit_length (2 ^ 63 - 1) \<le> 62" by linarith
  then have "(2 :: nat) ^ bit_length (2 ^ 63 - 1) \<le> 2 ^ 62" by (intro power_increasing) simp_all
  with bit_length_bounds(2) [of "2 ^ 63 - 1"] show False by simp
qed

lemma max_int_rounds_up: "float_of_int max_int64 = Fin (2 ^ 63)"
proof -
  have q: "quotient_of (9223372036854775807 / 1024) = (9223372036854775807, 1024)"
    using quotient_of_Fract [of 9223372036854775807 1024] by (simp add: Fract_of_int_quotient normalize_def Let_def gcd_non_0_int)
  have e: "fl_exp 9223372036854775807 = 10"
    using bit_length_max_int by (simp add: fl_exp_def scale2_def bit_length.simps [of "Suc 0"] bit_length.simps [of 0] power_int_def Let_def power_one_over)
  show ?thesis
    by (simp add: float_of_int_def fl_def fl_pos_def e scale2_def power_int_def power_one_over round_rat_def q round_half_even_def)
qed

lemma min_int_exact: "float_of_int min_int64 = Fin (- (2 ^ 63))"
  using fl_two_powi [of 63] by (simp add: float_of_int_def fl_def power_int_def)

lemma jobpayload_Int_two_63:
  assumes "payload key = Some (PFloat64 (Fin (2 ^ 63)))"
  shows "jobpayload_Int conv payload key d = conv (Fin (2 ^ 63))"
proof -
  have "float_to_int (2 ^ 63) = 2 ^ 63" using float_to_int_of_int [of "2 ^ 63"] by simp
  moreover have "\<not> in_int64 (2 ^ 63)" by (simp add: in_int64_def)
  ultimately show ?thesis
    using assms by (simp add: jobpayload_Int_def float_Trunc_def float_eq_def max_int_rounds_up min_int_exact float_to_int64_def)
qed

end
