(* ===== verification/Idempotency.thy ===== *)
theory Idempotency
  imports Gin_Context Sql_Interface Go_Crypto Go_Url Job_Payload "HOL-Library.Code_Target_Nat"
begin

text \<open>
  The \<^verbatim>\<open>idempotency\<close> package: keys and request hashes (\<^verbatim>\<open>idempotency.go\<close>), the records table
  (\<^verbatim>\<open>repo.go\<close>), the record life cycle (\<^verbatim>\<open>service.go\<close>) and the HTTP middleware that replays stored
  responses (\<^verbatim>\<open>middleware.go\<close>). The repository interface of the service is the record \<open>idem_repo\<close>; its laws are the
  locale \<open>idem_repository\<close>, which the table of \<^verbatim>\<open>repo.go\<close> satisfies over any database that keeps the
  promises of \<open>Sql_Interface\<close>.
\<close>

section \<open>idempotency.go\<close>

abbreviation MaxKeyLength :: nat where
  "MaxKeyLength \<equiv> 255"

abbreviation hashPrefix :: string where
  "hashPrefix \<equiv> ''sha256:''"

definition ErrInvalidKey :: go_error where
  "ErrInvalidKey = ErrorNew ''idempotency: invalid key''"

definition ErrInvalidScope :: go_error where
  "ErrInvalidScope = ErrorNew ''idempotency: invalid scope''"

record request_scope =
  scTenantID :: string
  scPrincipalID :: string
  scMethod :: string
  scPath :: string
  scKey :: string

definition NormalizeKey :: "string \<Rightarrow> go_error + string" where
  "NormalizeKey raw =
     (let key = TrimSpace raw
      in if key = [] \<or> length key > MaxKeyLength then Inl ErrInvalidKey
         else if list_ex (\<lambda>r. IsControl r \<or> IsSpace r) (range_runes key) then Inl ErrInvalidKey
         else Inr key)"

definition BodyHash :: "string \<Rightarrow> string" where
  "BodyHash body = hashPrefix @ EncodeToString (Sum256 body)"

text \<open>Reading a stream yields its bytes or an error.\<close>

definition ReaderHash :: "go_error + string \<Rightarrow> go_error + string" where
  "ReaderHash r = (case r of Inl err \<Rightarrow> Inl err | Inr data \<Rightarrow> Inr (hashPrefix @ EncodeToString (Sum256 data)))"

text \<open>What is fed to the hash: each part behind its length and a colon, closed by a zero byte.\<close>

definition hash_input :: "string list \<Rightarrow> string" where
  "hash_input parts = concat (map (\<lambda>part. FormatUint (length part) @ '':'' @ part @ [CHR 0x00]) parts)"

definition HashParts :: "string list \<Rightarrow> string" where
  "HashParts parts = hashPrefix @ EncodeToString (Sum256 (hash_input parts))"

text \<open>\<open>upper\<close> is the part of \<^verbatim>\<open>strings.ToUpper\<close> that lies outside ASCII.\<close>

definition normalizeMethod :: "(string \<Rightarrow> string) \<Rightarrow> string \<Rightarrow> string" where
  "normalizeMethod upper method = ToUpper upper (TrimSpace method)"

definition normalizePath :: "string \<Rightarrow> string" where
  "normalizePath path =
     (let path = TrimSpace path
      in if path = [] then []
         else let path = (case url_Parse path of Some u \<Rightarrow> if EscapedPath u \<noteq> [] then EscapedPath u else path | None \<Rightarrow> path)
              in if \<not> HasPrefix path ''/'' then ''/'' @ path else path)"

definition trimHashPrefix :: "string \<Rightarrow> string" where
  "trimHashPrefix hash = TrimPrefix hash hashPrefix"

definition RequestHash :: "(string \<Rightarrow> string) \<Rightarrow> string \<Rightarrow> string \<Rightarrow> string \<Rightarrow> string" where
  "RequestHash upper method path body = HashParts [normalizeMethod upper method, normalizePath path, BodyHash body]"

definition NormalizeScope :: "(string \<Rightarrow> string) \<Rightarrow> request_scope \<Rightarrow> go_error + request_scope" where
  "NormalizeScope upper scope =
     (case NormalizeKey (scKey scope) of
        Inl err \<Rightarrow> Inl err
      | Inr key \<Rightarrow>
          (let tenantID = TrimSpace (scTenantID scope);
               principalID = TrimSpace (scPrincipalID scope);
               method = normalizeMethod upper (scMethod scope);
               path = normalizePath (scPath scope)
           in if tenantID = [] \<or> principalID = [] \<or> method = [] \<or> path = [] then Inl ErrInvalidScope
              else Inr \<lparr>scTenantID = tenantID, scPrincipalID = principalID, scMethod = method, scPath = path, scKey = key\<rparr>))"

definition StorageKey :: "(string \<Rightarrow> string) \<Rightarrow> request_scope \<Rightarrow> go_error + string" where
  "StorageKey upper scope =
     (case NormalizeScope upper scope of
        Inl err \<Rightarrow> Inl err
      | Inr n \<Rightarrow> Inr (''idem:v1:'' @ trimHashPrefix (HashParts [scTenantID n, scPrincipalID n, scMethod n, scPath n, scKey n])))"

section \<open>Records\<close>

abbreviation StatusInProgress :: string where "StatusInProgress \<equiv> ''in_progress''"
abbreviation StatusCompleted :: string where "StatusCompleted \<equiv> ''completed''"
abbreviation StatusCompletedSensitive :: string where "StatusCompletedSensitive \<equiv> ''completed_sensitive''"

record idem_record =
  ID :: nat
  TenantID :: nat
  PrincipalID :: nat
  Key :: string
  RecMethod :: string
  RecPath :: string
  RecHash :: string
  Status :: string
  ResponseStatus :: "int option"
  ResponseBody :: "string option"
  CreatedAt :: go_time
  UpdatedAt :: go_time
  ExpiresAt :: go_time
  RunningExpiresAt :: "go_time option"

record begin_result =
  resRecord :: idem_record
  Started :: bool
  Replay :: bool
  resStatus :: int
  resBody :: string

definition ErrInvalidInput :: go_error where "ErrInvalidInput = ErrorNew ''idempotency: invalid input''"
definition ErrNotFound :: go_error where "ErrNotFound = ErrorNew ''idempotency: not found''"
definition ErrDuplicate :: go_error where "ErrDuplicate = ErrorNew ''idempotency: duplicate key''"
definition ErrRequestMismatch :: go_error where "ErrRequestMismatch = ErrorNew ''idempotency: request mismatch''"
definition ErrRequestInProcess :: go_error where "ErrRequestInProcess = ErrorNew ''idempotency: request in progress''"
definition ErrSensitiveResponse :: go_error where "ErrSensitiveResponse = ErrorNew ''idempotency: sensitive response, please regenerate''"
definition ErrInternal :: go_error where "ErrInternal = ErrorNew ''idempotency: internal error''"

section \<open>repo.go\<close>

type_synonym 's idem_db = "('s, idem_record) sql"

text \<open>The unique index over the scope, under the collation of the string columns.\<close>

definition same_scope :: "(string \<Rightarrow> string) \<Rightarrow> nat \<Rightarrow> nat \<Rightarrow> string \<Rightarrow> string \<Rightarrow> string \<Rightarrow> idem_record \<Rightarrow> bool" where
  "same_scope coll tenantID principalID method path key rec \<longleftrightarrow>
     TenantID rec = tenantID \<and> PrincipalID rec = principalID \<and> coll (RecMethod rec) = coll method \<and> coll (RecPath rec) = coll path \<and>
     coll (Key rec) = coll key"

definition idem_clash :: "(string \<Rightarrow> string) \<Rightarrow> idem_record \<Rightarrow> idem_record \<Rightarrow> bool" where
  "idem_clash coll q rec \<longleftrightarrow> same_scope coll (TenantID rec) (PrincipalID rec) (RecMethod rec) (RecPath rec) (Key rec) q"

definition idem_fits :: "idem_record \<Rightarrow> bool" where
  "idem_fits rec \<longleftrightarrow> RuneCount (Key rec) \<le> 255 \<and> RuneCount (RecMethod rec) \<le> 16 \<and> RuneCount (RecPath rec) \<le> 255 \<and>
     RuneCount (RecHash rec) \<le> 80 \<and> RuneCount (Status rec) \<le> 32 \<and>
     (case ResponseBody rec of None \<Rightarrow> True | Some b \<Rightarrow> length b < 2 ^ 24)"

definition idem_with_id :: "nat \<Rightarrow> idem_record \<Rightarrow> idem_record" where
  "idem_with_id i rec = rec\<lparr>ID := i\<rparr>"

definition isDuplicateKey :: "(string \<Rightarrow> string) \<Rightarrow> go_error \<Rightarrow> bool" where
  "isDuplicateKey lower err =
     (let msg = ToLower lower (error_text err)
      in Contains msg ''1062'' \<or> Contains msg ''duplicate'' \<or> Contains msg ''unique constraint'')"

definition Repo_Create :: "(string \<Rightarrow> string) \<Rightarrow> 's idem_db \<Rightarrow> link \<Rightarrow> idem_record \<Rightarrow> 's \<Rightarrow> 's \<times> (go_error + idem_record)" where
  "Repo_Create lower db l rec s =
     (case sql_insert db l rec s of
        (s, Inl err) \<Rightarrow> (s, Inl (if isDuplicateKey lower err then ErrDuplicate else err))
      | (s, Inr rec) \<Rightarrow> (s, Inr rec))"

text \<open>\<^verbatim>\<open>First\<close> orders by the primary key.\<close>

definition Repo_Get ::
  "(string \<Rightarrow> string) \<Rightarrow> 's idem_db \<Rightarrow> link \<Rightarrow> nat \<Rightarrow> nat \<Rightarrow> string \<Rightarrow> string \<Rightarrow> string \<Rightarrow> 's \<Rightarrow> 's \<times> (go_error + idem_record option)" where
  "Repo_Get coll db l tenantID principalID method path key s =
     (case sql_select db l (same_scope coll tenantID principalID method path key) (\<lambda>q r. ID q \<le> ID r) s of
        (s, Inl err) \<Rightarrow> (s, Inl err)
      | (s, Inr []) \<Rightarrow> (s, Inl ErrNotFound)
      | (s, Inr (rec # _)) \<Rightarrow> (s, Inr (Some rec)))"

text \<open>GORM writes the time of the update, \<open>now\<close>, into \<^verbatim>\<open>updated_at\<close> as well.\<close>

definition completed :: "go_time \<Rightarrow> string \<Rightarrow> int \<Rightarrow> string \<Rightarrow> idem_record \<Rightarrow> idem_record" where
  "completed now st n body q = q\<lparr>Status := st, ResponseStatus := Some n, ResponseBody := Some body, RunningExpiresAt := None, UpdatedAt := now\<rparr>"

definition Repo_Complete ::
  "'s idem_db \<Rightarrow> link \<Rightarrow> go_time \<Rightarrow> nat \<Rightarrow> string \<Rightarrow> int \<Rightarrow> string \<Rightarrow> 's \<Rightarrow> 's \<times> go_error option" where
  "Repo_Complete db l now i st responseStatus responseBody s =
     (let st = (if st = [] then StatusCompleted else st)
      in case sql_update db l (\<lambda>q. ID q = i) (completed now st responseStatus responseBody) s of
           (s, Inl err) \<Rightarrow> (s, Some err)
         | (s, Inr _) \<Rightarrow> (s, None))"

definition Repo_Restart ::
  "(string \<Rightarrow> string) \<Rightarrow> 's idem_db \<Rightarrow> link \<Rightarrow> nat \<Rightarrow> string \<Rightarrow> go_time \<Rightarrow> go_time \<Rightarrow> 's \<Rightarrow> 's \<times> go_error option" where
  "Repo_Restart coll db l i requestHash runningExpiresAt updatedAt s =
     (case sql_update db l (\<lambda>q. ID q = i \<and> coll (Status q) = coll StatusInProgress)
             (\<lambda>q. q\<lparr>RecHash := requestHash, RunningExpiresAt := Some runningExpiresAt, UpdatedAt := updatedAt\<rparr>) s of
        (s, Inl err) \<Rightarrow> (s, Some err)
      | (s, Inr _) \<Rightarrow> (s, None))"

definition Repo_DeleteExpired :: "'s idem_db \<Rightarrow> link \<Rightarrow> go_time \<Rightarrow> int \<Rightarrow> 's \<Rightarrow> 's \<times> (go_error + int)" where
  "Repo_DeleteExpired db l before limit s =
     (let limit = (if limit \<le> 0 \<or> limit > 10000 then 1000 else limit)
      in sql_delete db l (\<lambda>q. ExpiresAt q < before) (nat limit) s)"

section \<open>service.go\<close>

abbreviation runningTimeout :: duration where
  "runningTimeout \<equiv> 60 * second"

text \<open>The repository the service is given; each call comes with the behaviour of the network.\<close>

record 's idem_repo =
  rCreate :: "link \<Rightarrow> idem_record \<Rightarrow> 's \<Rightarrow> 's \<times> (go_error + idem_record)"
  rGet :: "link \<Rightarrow> nat \<Rightarrow> nat \<Rightarrow> string \<Rightarrow> string \<Rightarrow> string \<Rightarrow> 's \<Rightarrow> 's \<times> (go_error + idem_record option)"
  rComplete :: "link \<Rightarrow> go_time \<Rightarrow> nat \<Rightarrow> string \<Rightarrow> int \<Rightarrow> string \<Rightarrow> 's \<Rightarrow> 's \<times> go_error option"
  rRestart :: "link \<Rightarrow> nat \<Rightarrow> string \<Rightarrow> go_time \<Rightarrow> go_time \<Rightarrow> 's \<Rightarrow> 's \<times> go_error option"
  rDeleteExpired :: "link \<Rightarrow> go_time \<Rightarrow> int \<Rightarrow> 's \<Rightarrow> 's \<times> (go_error + int)"

definition Repo :: "(string \<Rightarrow> string) \<Rightarrow> (string \<Rightarrow> string) \<Rightarrow> 's idem_db \<Rightarrow> 's idem_repo" where
  "Repo coll lower db = \<lparr>rCreate = Repo_Create lower db, rGet = Repo_Get coll db, rComplete = Repo_Complete db,
     rRestart = Repo_Restart coll db, rDeleteExpired = Repo_DeleteExpired db\<rparr>"

record begin_input =
  biTenantID :: nat
  biPrincipalID :: nat
  biKey :: string
  biMethod :: string
  biPath :: string
  biRequestHash :: string

definition is_hex :: "nat \<Rightarrow> bool" where
  "is_hex r \<longleftrightarrow> 48 \<le> r \<and> r \<le> 57 \<or> 97 \<le> r \<and> r \<le> 102 \<or> 65 \<le> r \<and> r \<le> 70"

definition validRequestHash :: "string \<Rightarrow> bool" where
  "validRequestHash hash =
     (let hash = TrimPrefix hash hashPrefix in length hash = 64 \<and> list_all is_hex (range_runes hash))"

text \<open>What surrounds a call of \<^verbatim>\<open>Begin\<close>: the network at each of its statements and the readings of
  the service's clock, one for a new record, one to see whether a running request timed out, one to restart it.\<close>

record begin_env =
  l_get :: link
  l_create :: link
  l_reget :: link
  l_restart :: link
  now_new :: go_time
  now_check :: go_time
  now_restart :: go_time

definition started :: "idem_record \<Rightarrow> begin_result" where
  "started rec = \<lparr>resRecord = rec, Started = True, Replay = False, resStatus = 0, resBody = []\<rparr>"

text \<open>The record is a pointer and may be nil.\<close>

definition decisionForExisting ::
  "'s idem_repo \<Rightarrow> begin_env \<Rightarrow> idem_record option \<Rightarrow> string \<Rightarrow> 's \<Rightarrow> 's \<times> (go_error + begin_result)" where
  "decisionForExisting repo v existing requestHash s =
     (case existing of
        None \<Rightarrow> (s, Inl ErrNotFound)
      | Some rec \<Rightarrow>
          if RecHash rec \<noteq> requestHash then (s, Inl ErrRequestMismatch)
          else if Status rec = StatusCompleted
          then (let st = (case ResponseStatus rec of Some n \<Rightarrow> n | None \<Rightarrow> 200);
                    body = (case ResponseBody rec of Some b \<Rightarrow> b | None \<Rightarrow> [])
                in (s, Inr \<lparr>resRecord = rec, Started = False, Replay = True, resStatus = st, resBody = body\<rparr>))
          else if Status rec = StatusCompletedSensitive then (s, Inl ErrSensitiveResponse)
          else if Status rec = StatusInProgress
          then (case RunningExpiresAt rec of
                  None \<Rightarrow> (s, Inl ErrRequestInProcess)
                | Some e \<Rightarrow>
                    if After (now_check v) e
                    then (let now = now_restart v; running = Add now runningTimeout
                          in case rRestart repo (l_restart v) (ID rec) requestHash running now s of
                               (s, Some err) \<Rightarrow> (s, Inl err)
                             | (s, None) \<Rightarrow> (s, Inr (started (rec\<lparr>UpdatedAt := now, RunningExpiresAt := Some running\<rparr>))))
                    else (s, Inl ErrRequestInProcess))
          else (s, Inl ErrRequestInProcess))"

text \<open>The checks of \<^verbatim>\<open>Begin\<close> on its input, which is returned trimmed.\<close>

definition begin_normalize :: "(string \<Rightarrow> string) \<Rightarrow> begin_input \<Rightarrow> go_error + begin_input" where
  "begin_normalize upper inp =
     (let inp = inp\<lparr>biKey := TrimSpace (biKey inp), biMethod := ToUpper upper (TrimSpace (biMethod inp)),
            biPath := TrimSpace (biPath inp), biRequestHash := TrimSpace (biRequestHash inp)\<rparr>
      in if biTenantID inp = 0 \<or> biPrincipalID inp = 0 \<or> biKey inp = [] \<or> biMethod inp = [] \<or> biPath inp = [] \<or> biRequestHash inp = []
         then Inl ErrInvalidInput
         else if length (biKey inp) > 128 \<or> length (biMethod inp) > 16 \<or> length (biPath inp) > 255 \<or> \<not> validRequestHash (biRequestHash inp)
         then Inl ErrInvalidInput
         else Inr inp)"

definition new_record :: "begin_input \<Rightarrow> go_time \<Rightarrow> duration \<Rightarrow> idem_record" where
  "new_record inp now lifetime = \<lparr>ID = 0, TenantID = biTenantID inp, PrincipalID = biPrincipalID inp, Key = biKey inp, RecMethod = biMethod inp,
     RecPath = biPath inp, RecHash = biRequestHash inp, Status = StatusInProgress, ResponseStatus = None, ResponseBody = None,
     CreatedAt = now, UpdatedAt = now, ExpiresAt = Add now lifetime, RunningExpiresAt = Some (Add now runningTimeout)\<rparr>"

text \<open>\<open>None\<close> is a service without a repository.\<close>

definition Begin ::
  "(string \<Rightarrow> string) \<Rightarrow> 's idem_repo option \<Rightarrow> duration \<Rightarrow> begin_env \<Rightarrow> begin_input \<Rightarrow> 's \<Rightarrow> 's \<times> (go_error + begin_result)" where
  "Begin upper repo lifetime v inp s =
     (case begin_normalize upper inp of
        Inl err \<Rightarrow> (s, Inl err)
      | Inr inp \<Rightarrow>
          (case repo of
             None \<Rightarrow> (s, Inl ErrInternal)
           | Some repo \<Rightarrow>
               (case rGet repo (l_get v) (biTenantID inp) (biPrincipalID inp) (biMethod inp) (biPath inp) (biKey inp) s of
                  (s, Inr existing) \<Rightarrow> decisionForExisting repo v existing (biRequestHash inp) s
                | (s, Inl err) \<Rightarrow>
                    if \<not> errors_Is err ErrNotFound then (s, Inl err)
                    else (let rec = new_record inp (now_new v) lifetime
                          in case rCreate repo (l_create v) rec s of
                               (s, Inr rec) \<Rightarrow> (s, Inr (started rec))
                             | (s, Inl err) \<Rightarrow>
                                 if errors_Is err ErrDuplicate
                                 then (case rGet repo (l_reget v) (biTenantID inp) (biPrincipalID inp) (biMethod inp) (biPath inp) (biKey inp) s of
                                         (s, Inl getErr) \<Rightarrow> (s, Inl getErr)
                                       | (s, Inr existing) \<Rightarrow>
                                           decisionForExisting repo v existing (biRequestHash inp) s)
                                 else (s, Inl err)))))"

definition Service_Complete ::
  "'s idem_repo option \<Rightarrow> link \<Rightarrow> go_time \<Rightarrow> nat \<Rightarrow> int \<Rightarrow> string \<Rightarrow> bool \<Rightarrow> 's \<Rightarrow> 's \<times> go_error option" where
  "Service_Complete repo l now i responseStatus responseBody sensitive s =
     (if i = 0 \<or> responseStatus < 100 \<or> responseStatus > 599 then (s, Some ErrInvalidInput)
      else case repo of
             None \<Rightarrow> (s, Some ErrInternal)
           | Some repo \<Rightarrow>
               (let (st, body) = (if sensitive then (StatusCompletedSensitive, []) else (StatusCompleted, responseBody))
                in rComplete repo l now i st responseStatus body s))"

definition GCJob ::
  "(float64 \<Rightarrow> int) \<Rightarrow> 's idem_repo option \<Rightarrow> link \<Rightarrow> go_time \<Rightarrow> (string \<Rightarrow> payload_value option) \<Rightarrow> 's \<Rightarrow> 's \<times> go_error option" where
  "GCJob conv repo l now payload s =
     (let limit = jobpayload_Int conv payload ''limit'' 1000
      in case repo of
           None \<Rightarrow> (s, Some ErrInternal)
         | Some repo \<Rightarrow>
             (case rDeleteExpired repo l now limit s of (s, Inl err) \<Rightarrow> (s, Some err) | (s, Inr _) \<Rightarrow> (s, None)))"

section \<open>middleware.go\<close>

abbreviation MaxRequestBodyBytes :: nat where
  "MaxRequestBodyBytes \<equiv> 1048576"

definition errRequestBodyTooLarge :: go_error where
  "errRequestBodyTooLarge = ErrorNew ''idempotency: request body too large''"

text \<open>A body is its bytes, or the error met within the bytes that are read.\<close>

definition readBoundedBody :: "go_error + string \<Rightarrow> go_error + string" where
  "readBoundedBody body =
     (case body of
        Inl err \<Rightarrow> Inl err
      | Inr bytes \<Rightarrow>
          (let data = take (MaxRequestBodyBytes + 1) bytes
           in if length data > MaxRequestBodyBytes then Inl errRequestBodyTooLarge else Inr data))"

text \<open>\<^verbatim>\<open>json.Unmarshal\<close> into a struct whose only field is an unsigned integer with the key \<^verbatim>\<open>tenant_id\<close>: keys
  are compared without case, the last one wins, \<^verbatim>\<open>null\<close> changes nothing, any other kind of value is an error.\<close>

fun tenant_members :: "nat \<Rightarrow> (string \<times> json) list \<Rightarrow> nat option" where
  "tenant_members n [] = Some n"
| "tenant_members n ((k, v) # es) =
     (if EqualFold k ''tenant_id''
      then (case v of
              JNum t \<Rightarrow> (case ParseUint t of (m, None) \<Rightarrow> tenant_members m es | (m, Some _) \<Rightarrow> None)
            | JNull \<Rightarrow> tenant_members n es
            | _ \<Rightarrow> None)
      else tenant_members n es)"

definition body_tenant :: "string \<Rightarrow> nat option" where
  "body_tenant body = (case json_parse body of Some (JObj es) \<Rightarrow> tenant_members 0 es | Some JNull \<Rightarrow> Some 0 | _ \<Rightarrow> None)"

definition idempotencyScope :: "gin_context \<Rightarrow> string \<Rightarrow> (nat \<times> nat) option" where
  "idempotencyScope c body =
     (case Keys c ''tenant_claims'' of
        Some (CTenant (Some claims)) \<Rightarrow> Some (tenant_claims.TenantID claims, tenant_claims.PrincipalID claims)
      | _ \<Rightarrow>
          (case Keys c ''platform_claims'' of
             Some (CPlatform (Some claims)) \<Rightarrow>
               if PlatformPrincipalID claims = 0 then None
               else (let tid = fst (ParseUint (Param c ''tenant_id''));
                         tid = (if tid = 0 then fst (ParseUint (case Query c ''tenant_id'' of Some v \<Rightarrow> v | None \<Rightarrow> [])) else tid);
                         tid = (if tid = 0 \<and> length body > 0 then (case body_tenant body of Some n \<Rightarrow> n | None \<Rightarrow> tid) else tid)
                     in if tid = 0 then None else Some (tid, PlatformPrincipalID claims))
           | _ \<Rightarrow> None))"

definition isWriteMethod :: "string \<Rightarrow> bool" where
  "isWriteMethod method \<longleftrightarrow> method = ''POST'' \<or> method = ''PUT'' \<or> method = ''PATCH'' \<or> method = ''DELETE''"

definition writeMiddlewareError :: "gin_context \<Rightarrow> go_error \<Rightarrow> response" where
  "writeMiddlewareError c err =
     (if errors_Is err ErrInvalidInput then gin_JSON c 400 [(''error'', VString (error_text err))]
      else if errors_Is err ErrRequestMismatch \<or> errors_Is err ErrRequestInProcess \<or> errors_Is err ErrSensitiveResponse
      then gin_JSON c 409 [(''error'', VString (error_text err))]
      else gin_JSON c 500 [(''error'', VString ''idempotency operation failed'')])"

text \<open>\<open>render\<close> gives the bytes Gin writes for a body, which \<^verbatim>\<open>responseCapture\<close> copies. \<open>sent\<close> says whether the header of a
  response left before the handlers returned, as it does with the first byte of a body: deleting an entry
  of the header map has no effect after that.\<close>

record mw_env = begin_env +
  l_complete :: link
  now_complete :: go_time

definition mw_input :: "(string \<Rightarrow> string) \<Rightarrow> gin_context \<Rightarrow> string \<Rightarrow> nat \<Rightarrow> nat \<Rightarrow> begin_input" where
  "mw_input upper c body tenantID principalID = \<lparr>biTenantID = tenantID, biPrincipalID = principalID, biKey = Header_In c ''Idempotency-Key'',
     biMethod = Method c, biPath = URLPath c, biRequestHash = RequestHash upper (Method c) (URLPath c) body\<rparr>"

definition Idempotency_Middleware ::
  "(string \<Rightarrow> string) \<Rightarrow> (resp_body \<Rightarrow> string) \<Rightarrow> (response \<Rightarrow> bool) \<Rightarrow> 's idem_repo option \<Rightarrow> duration \<Rightarrow> mw_env \<Rightarrow>
   's handler \<Rightarrow> 's handler" where
  "Idempotency_Middleware upper render sent repo lifetime v next_handler c s =
     (if Header_In c ''Idempotency-Key'' = [] \<or> \<not> isWriteMethod (Method c) then next_handler c s
      else case readBoundedBody (Body c) of
             Inl err \<Rightarrow>
               (s, if errors_Is err errRequestBodyTooLarge then gin_JSON c 413 [(''error'', VString ''request body too large'')]
                   else gin_JSON c 400 [(''error'', VString ''invalid request body'')])
           | Inr body \<Rightarrow>
               (let c = c\<lparr>Body := Inr body\<rparr>
                in case idempotencyScope c body of
                     None \<Rightarrow> next_handler c s
                   | Some (tenantID, principalID) \<Rightarrow>
                       (case Begin upper repo lifetime (begin_env.truncate v) (mw_input upper c body tenantID principalID) s of
                          (s, Inl err) \<Rightarrow> (s, writeMiddlewareError c err)
                        | (s, Inr result) \<Rightarrow>
                            if Replay result
                            then (s, \<lparr>status = resStatus result, headers = Header_Out (gin_Header c ''Idempotency-Replayed'' ''true''),
                                      content = DataBody ''application/json; charset=utf-8'' (resBody result)\<rparr>)
                            else (case next_handler c s of
                                    (s, resp) \<Rightarrow>
                                      (let sensitive = (headers resp ''X-Idempotency-Sensitive'' = Some ''true'');
                                           out = (if sensitive \<and> \<not> sent resp
                                                  then resp\<lparr>headers := (headers resp)(''X-Idempotency-Sensitive'' := None)\<rparr> else resp)
                                       in (fst (Service_Complete repo (l_complete v) (now_complete v) (ID (resRecord result)) (status resp)
                                                 (render (content resp)) sensitive s),
                                           out))))))"

section \<open>Hashes and keys\<close>

text \<open>The framing of the hashed parts is unambiguous: a part is found again by its length.\<close>

lemma digits_before_colon:
  assumes "list_all is_digit u" and "list_all is_digit v" and "u @ CHR '':'' # x = v @ CHR '':'' # y"
  shows "u = v \<and> x = y"
  using assms
proof (induction u arbitrary: v)
  case Nil
  then show ?case by (cases v) (auto simp: is_digit_def)
next
  case (Cons c u)
  then show ?case by (cases v) (auto simp: is_digit_def)
qed

lemma hash_input_Cons: "hash_input (p # ps) = FormatUint (length p) @ CHR '':'' # p @ CHR 0x00 # hash_input ps"
  by (simp add: hash_input_def)

lemma hash_input_inj: "hash_input ps = hash_input qs \<Longrightarrow> ps = qs"
proof (induction ps arbitrary: qs)
  case Nil
  then show ?case by (cases qs) (simp_all add: hash_input_Cons, simp add: hash_input_def)
next
  case (Cons p ps)
  from Cons.prems obtain q qs' where qs: "qs = q # qs'"
    by (cases qs) (simp_all add: hash_input_Cons, simp add: hash_input_def)
  have "FormatUint (length p) = FormatUint (length q) \<and> p @ CHR 0x00 # hash_input ps = q @ CHR 0x00 # hash_input qs'"
    by (rule digits_before_colon) (use Cons.prems FormatUint_digits in \<open>auto simp: qs hash_input_Cons\<close>)
  then have "p = q \<and> hash_input ps = hash_input qs'" using FormatUint_inj by auto
  with Cons.IH qs show ?case by blast
qed

lemma hex_runes: "list_all is_hex (range_runes (EncodeToString m))"
proof -
  have d: "byte_of (hex_digit d) < 128 \<and> is_hex (byte_of (hex_digit d))" if "d < 16" for d
    using that by (auto simp: hex_digit_def is_hex_def)
  have "\<forall>c \<in> set (EncodeToString m). byte_of c < 128 \<and> is_hex (byte_of c)"
  proof (induction m)
    case (Cons c cs)
    have "byte_of c div 16 < 16" using byte_of_less [of c] by linarith
    with Cons show ?case by (simp add: d)
  qed simp
  then show ?thesis by (simp add: range_runes_all_ascii is_ascii_def list_all_iff)
qed

lemma validRequestHash_HashParts: "validRequestHash (HashParts ps)"
  using hex_runes [of "Sum256 (hash_input ps)"] unfolding validRequestHash_def HashParts_def TrimPrefix_append by (simp add: Let_def)

lemma TrimSpace_HashParts: "TrimSpace (HashParts ps) = HashParts ps"
proof (rule TrimSpace_graphic)
  have "EncodeToString (Sum256 (hash_input ps)) \<noteq> []" by (metis length_EncodeToString length_Sum256 list.size(3) mult_is_0 zero_neq_numeral)
  then show "is_graphic (last (HashParts ps))"
    using EncodeToString_graphic [of "Sum256 (hash_input ps)"] by (simp add: HashParts_def list_all_iff)
qed (simp_all add: HashParts_def is_graphic_def)

lemma NormalizeKey_sound:
  assumes "NormalizeKey raw = Inr key"
  shows "key \<noteq> [] \<and> length key \<le> MaxKeyLength \<and> NormalizeKey key = Inr key"
  using assms by (auto simp: NormalizeKey_def Let_def split: if_splits)

section \<open>The records table\<close>

text \<open>What every record looks like: it is either running, or finished with a status code and a body, which is empty
  when the response was declared sensitive.\<close>

definition idem_ok :: "idem_record \<Rightarrow> bool" where
  "idem_ok rec \<longleftrightarrow> 0 < ID rec \<and> 0 < TenantID rec \<and> 0 < PrincipalID rec \<and> validRequestHash (RecHash rec) \<and>
     (Status rec = StatusInProgress \<and> ResponseStatus rec = None \<and> ResponseBody rec = None \<and> RunningExpiresAt rec \<noteq> None \<or>
      (\<exists>n. ResponseStatus rec = Some n \<and> 100 \<le> n \<and> n \<le> 599) \<and>
        (Status rec = StatusCompleted \<and> ResponseBody rec \<noteq> None \<or>
         Status rec = StatusCompletedSensitive \<and> ResponseBody rec = Some []))"

definition scope_of :: "(string \<Rightarrow> string) \<Rightarrow> idem_record \<Rightarrow> nat \<times> nat \<times> string \<times> string \<times> string" where
  "scope_of coll rec = (TenantID rec, PrincipalID rec, coll (RecMethod rec), coll (RecPath rec), coll (Key rec))"

definition idem_inv :: "(string \<Rightarrow> string) \<Rightarrow> idem_record multiset \<Rightarrow> bool" where
  "idem_inv coll R \<longleftrightarrow>
     (\<forall>rec \<in># R. idem_ok rec) \<and> (\<forall>k. size {#rec \<in># R. scope_of coll rec = k#} \<le> 1) \<and> (\<forall>i. size {#rec \<in># R. ID rec = i#} \<le> 1)"

lemma same_scope_scope_of:
  "same_scope coll t p m path key rec \<longleftrightarrow> scope_of coll rec = (t, p, coll m, coll path, coll key)"
  by (auto simp: same_scope_def scope_of_def)

lemma idem_clash_scope_of: "idem_clash coll q rec \<longleftrightarrow> scope_of coll q = scope_of coll rec"
  by (simp add: idem_clash_def same_scope_scope_of) (simp add: scope_of_def)

text \<open>The statements the service sends, one step each: any number of processes run them in any order, and any of them may be lost.\<close>

inductive idem_step :: "(string \<Rightarrow> string) \<Rightarrow> 's idem_repo \<Rightarrow> 's \<Rightarrow> 's \<Rightarrow> bool" for upper repo where
  create: "begin_normalize upper raw = Inr inp \<Longrightarrow> idem_step upper repo s (fst (rCreate repo l (new_record inp now lifetime) s))"
| restart: "validRequestHash h \<Longrightarrow> idem_step upper repo s (fst (rRestart repo l i h running now s))"
| complete: "idem_step upper repo s (fst (Service_Complete (Some repo) l now i st body sensitive s))"
| gc: "idem_step upper repo s (fst (GCJob conv (Some repo) l now payload s))"

lemma size_filter_image:
  assumes "\<And>x. k (g x) = k x"
  shows "size {#x \<in># image_mset g R. k x = v#} = size {#x \<in># R. k x = v#}"
  by (induction R) (simp_all add: assms)

lemma idem_invD:
  assumes "idem_inv coll R"
  shows "rec \<in># R \<Longrightarrow> idem_ok rec" and "size {#rec \<in># R. scope_of coll rec = k#} \<le> 1" and "size {#rec \<in># R. ID rec = i#} \<le> 1"
  using assms unfolding idem_inv_def by blast+

lemma idem_inv_insert:
  assumes "idem_inv coll R" and "idem_ok (idem_with_id i rec)" and "\<forall>q \<in># R. \<not> idem_clash coll q rec" and "\<forall>q \<in># R. ID q \<noteq> i"
  shows "idem_inv coll (add_mset (idem_with_id i rec) R)"
proof -
  have sc: "scope_of coll (idem_with_id i rec) = scope_of coll rec" by (simp add: idem_with_id_def scope_of_def)
  have "{#q \<in># R. scope_of coll q = scope_of coll rec#} = {#}" using assms(3) by (auto simp: idem_clash_scope_of filter_mset_eq_conv)
  moreover have "{#q \<in># R. ID q = i#} = {#}" using assms(4) by (auto simp: filter_mset_eq_conv)
  ultimately show ?thesis using assms(1,2) by (auto simp: idem_inv_def sc) (simp_all add: idem_with_id_def)
qed

lemma idem_inv_update:
  assumes "idem_inv coll R" and "\<And>q. scope_of coll (f q) = scope_of coll q \<and> ID (f q) = ID q" and "\<And>q. idem_ok q \<Longrightarrow> P q \<Longrightarrow> idem_ok (f q)"
  shows "idem_inv coll (image_mset (\<lambda>q. if P q then f q else q) R)"
proof -
  let ?g = "\<lambda>q. if P q then f q else q"
  have "size {#q \<in># image_mset ?g R. scope_of coll q = k#} \<le> 1" for k
  proof -
    have "size {#q \<in># image_mset ?g R. scope_of coll q = k#} = size {#q \<in># R. scope_of coll q = k#}"
      by (rule size_filter_image) (simp add: assms(2))
    with idem_invD(2) [OF assms(1), of k] show ?thesis by linarith
  qed
  moreover have "size {#q \<in># image_mset ?g R. ID q = i#} \<le> 1" for i
  proof -
    have "size {#q \<in># image_mset ?g R. ID q = i#} = size {#q \<in># R. ID q = i#}"
      by (rule size_filter_image) (simp add: assms(2))
    with idem_invD(3) [OF assms(1), of i] show ?thesis by linarith
  qed
  moreover have "\<forall>q \<in># image_mset ?g R. idem_ok q" using idem_invD(1) [OF assms(1)] assms(3) by auto
  ultimately show ?thesis unfolding idem_inv_def by blast
qed

lemma idem_inv_subset:
  assumes "idem_inv coll R" and "S \<subseteq># R"
  shows "idem_inv coll S"
proof -
  have le: "size (filter_mset P S) \<le> size (filter_mset P R)" for P using assms(2) by (intro size_mset_mono multiset_filter_mono)
  have "size {#q \<in># S. scope_of coll q = k#} \<le> 1" for k by (rule order_trans [OF le idem_invD(2) [OF assms(1)]])
  moreover have "size {#q \<in># S. ID q = i#} \<le> 1" for i by (rule order_trans [OF le idem_invD(3) [OF assms(1)]])
  moreover have "\<forall>q \<in># S. idem_ok q" using idem_invD(1) [OF assms(1)] assms(2) by (meson mset_subset_eqD)
  ultimately show ?thesis unfolding idem_inv_def by blast
qed

lemma validRequestHash_length: "validRequestHash h \<Longrightarrow> length h \<le> 71"
  by (auto simp: validRequestHash_def TrimPrefix_def Let_def split: if_splits)

lemma begin_normalize_sound:
  assumes "begin_normalize upper raw = Inr inp"
  shows "0 < biTenantID inp \<and> 0 < biPrincipalID inp \<and> validRequestHash (biRequestHash inp) \<and>
    length (biKey inp) \<le> 128 \<and> length (biMethod inp) \<le> 16 \<and> length (biPath inp) \<le> 255 \<and> length (biRequestHash inp) \<le> 71"
  using assms validRequestHash_length by (auto simp: begin_normalize_def Let_def split: if_splits)

lemma new_record_fits:
  assumes "begin_normalize upper raw = Inr inp"
  shows "idem_fits (new_record inp now lifetime)"
  using begin_normalize_sound [OF assms] RuneCount_le [of "biKey inp"] RuneCount_le [of "biMethod inp"] RuneCount_le [of "biPath inp"]
    RuneCount_le [of "biRequestHash inp"] RuneCount_le [of StatusInProgress]
  by (simp add: idem_fits_def new_record_def)

lemma new_record_ok:
  assumes "begin_normalize upper raw = Inr inp" and "0 < i"
  shows "idem_ok (idem_with_id i (new_record inp now lifetime))"
  using begin_normalize_sound [OF assms(1)] assms(2) by (simp add: idem_ok_def new_record_def idem_with_id_def)

lemma completed_ok:
  "idem_ok q \<Longrightarrow> 100 \<le> n \<Longrightarrow> n \<le> 599 \<Longrightarrow>
     idem_ok (completed now (if sensitive then StatusCompletedSensitive else StatusCompleted) n (if sensitive then [] else body) q)"
  by (simp add: idem_ok_def completed_def)

locale idem_table = sql_table db rows idem_fits "idem_clash coll" "isDuplicateKey lower" ID idem_with_id
  for db :: "'s idem_db" and rows coll lower
begin

lemma create_inv:
  assumes "idem_inv coll (rows s)" and "\<And>i. 0 < i \<Longrightarrow> idem_ok (idem_with_id i rec)"
  shows "idem_inv coll (rows (fst (Repo_Create lower db l rec s)))"
proof -
  have "idem_inv coll (rows (fst (INSERT db rec s)))"
  proof (cases rule: INSERT_cases [of rec s])
    case (new i s')
    with idem_inv_insert [OF assms(1) assms(2) [OF new(2)] new(6,3)] show ?thesis by simp
  qed (use assms in simp_all)
  moreover have "fst (Repo_Create lower db l rec s) = s \<or> fst (Repo_Create lower db l rec s) = fst (INSERT db rec s)"
    by (cases l) (auto simp: Repo_Create_def sql_call_defs split: prod.splits sum.splits)
  ultimately show ?thesis using assms(1) by auto
qed

lemma update_inv:
  assumes "idem_inv coll (rows s)" and "\<And>q. scope_of coll (f q) = scope_of coll q \<and> ID (f q) = ID q" and "\<And>q. idem_ok q \<Longrightarrow> P q \<Longrightarrow> idem_ok (f q)"
  shows "idem_inv coll (rows (fst (sql_update db l P f s)))"
proof -
  have "idem_inv coll (rows (fst (UPDATE db P f s)))"
    by (cases rule: UPDATE_cases [of P f s]) (use idem_inv_update [OF assms] assms(1) in simp_all)
  with assms(1) show ?thesis by (cases l) (simp_all add: sql_call_defs)
qed

lemma fst_Repo_Complete:
  "st \<noteq> [] \<Longrightarrow> fst (Repo_Complete db l now i st n body s) = fst (sql_update db l (\<lambda>q. ID q = i) (completed now st n body) s)"
  by (simp add: Repo_Complete_def Let_def split: prod.splits sum.splits)

lemma complete_inv:
  assumes "idem_inv coll (rows s)"
  shows "idem_inv coll (rows (fst (Service_Complete (Some (Repo coll lower db)) l now i n body sensitive s)))"
proof (cases "i = 0 \<or> n < 100 \<or> n > 599")
  case False
  let ?st = "if sensitive then StatusCompletedSensitive else StatusCompleted" and ?body = "if sensitive then [] else body"
  have "fst (Service_Complete (Some (Repo coll lower db)) l now i n body sensitive s) =
      fst (sql_update db l (\<lambda>q. ID q = i) (completed now ?st n ?body) s)"
    using False by (simp add: Service_Complete_def Repo_def fst_Repo_Complete)
  moreover have "idem_inv coll (rows (fst (sql_update db l (\<lambda>q. ID q = i) (completed now ?st n ?body) s)))"
  proof (rule update_inv [OF assms])
    show "idem_ok (completed now ?st n ?body q)" if "idem_ok q" for q by (rule completed_ok) (use that False in simp_all)
  qed (simp add: completed_def scope_of_def)
  ultimately show ?thesis by simp
qed (use assms in \<open>auto simp: Service_Complete_def\<close>)

lemma restart_inv:
  assumes "idem_inv coll (rows s)" and "validRequestHash h"
  shows "idem_inv coll (rows (fst (Repo_Restart coll db l i h running now s)))"
proof -
  let ?P = "\<lambda>q. ID q = i \<and> coll (Status q) = coll StatusInProgress"
  let ?f = "\<lambda>q. q\<lparr>RecHash := h, RunningExpiresAt := Some running, UpdatedAt := now\<rparr>"
  have "fst (Repo_Restart coll db l i h running now s) = fst (sql_update db l ?P ?f s)"
    by (simp add: Repo_Restart_def split: prod.splits sum.splits)
  moreover have "idem_inv coll (rows (fst (sql_update db l ?P ?f s)))"
    by (rule update_inv [OF assms(1)]) (use assms(2) in \<open>auto simp: scope_of_def idem_ok_def\<close>)
  ultimately show ?thesis by simp
qed

lemma gc_inv:
  assumes "idem_inv coll (rows s)"
  shows "idem_inv coll (rows (fst (GCJob conv (Some (Repo coll lower db)) l now payload s)))"
proof -
  have "fst (GCJob conv (Some (Repo coll lower db)) l now payload s) =
      fst (Repo_DeleteExpired db l now (jobpayload_Int conv payload ''limit'' 1000) s)"
    by (simp add: GCJob_def Repo_def split: prod.splits sum.splits)
  moreover have "idem_inv coll (rows (fst (sql_delete db l P n s)))" for P n
    using idem_inv_subset [OF assms DELETE_subset [of P n s]] assms by (cases l) (simp_all add: sql_call_defs)
  ultimately show ?thesis by (simp add: Repo_DeleteExpired_def Let_def)
qed

lemma step_inv:
  assumes "idem_step upper (Repo coll lower db) s s'" and "idem_inv coll (rows s)"
  shows "idem_inv coll (rows s')"
  using assms(1)
proof cases
  case (create raw inp l now lifetime)
  with create_inv [OF assms(2)] new_record_ok show ?thesis by (simp add: Repo_def)
next
  case (restart h l i running now)
  with restart_inv [OF assms(2)] show ?thesis by (simp add: Repo_def)
qed (simp_all add: complete_inv gc_inv assms(2))

lemma reachable_inv:
  assumes "(idem_step upper (Repo coll lower db))\<^sup>*\<^sup>* s0 s" and "rows s0 = {#}"
  shows "idem_inv coll (rows s)"
  using assms(1)
proof (induction rule: rtranclp_induct)
  case (step s s')
  then show ?case by (blast intro: step_inv)
qed (simp add: idem_inv_def assms(2))

text \<open>Reading changes nothing, so that a call of \<^verbatim>\<open>Begin\<close> is a sequence of the steps above.\<close>

lemma fst_Repo_Get: "fst (Repo_Get coll db l t p m path key s) = s"
  by (cases l) (simp_all add: Repo_Get_def sql_call_defs split: list.splits)

lemma decision_steps:
  assumes "validRequestHash h"
  shows "(idem_step upper (Repo coll lower db))\<^sup>*\<^sup>* s (fst (decisionForExisting (Repo coll lower db) v existing h s))"
proof -
  let ?run = "\<lambda>rec. rRestart (Repo coll lower db) (l_restart v) (ID rec) h (Add (now_restart v) runningTimeout) (now_restart v) s"
  have one: "(idem_step upper (Repo coll lower db))\<^sup>*\<^sup>* s (fst (?run rec))" for rec
    using idem_step.restart [OF assms] by (rule r_into_rtranclp)
  show ?thesis
  proof (cases existing)
    case (Some rec)
    obtain s1 e where run: "?run rec = (s1, e)" by fastforce
    have "fst (decisionForExisting (Repo coll lower db) v existing h s) = s \<or>
        fst (decisionForExisting (Repo coll lower db) v existing h s) = s1"
      using Some run by (simp add: decisionForExisting_def Let_def split: option.split)
    moreover have "(idem_step upper (Repo coll lower db))\<^sup>*\<^sup>* s s1" using one [of rec] unfolding run by simp
    ultimately show ?thesis by (elim disjE) simp_all
  qed (simp add: decisionForExisting_def)
qed

lemma begin_steps:
  "(idem_step upper (Repo coll lower db))\<^sup>*\<^sup>* s (fst (Begin upper (Some (Repo coll lower db)) lifetime v raw s))"
proof (cases "begin_normalize upper raw")
  case (Inr inp)
  note h = begin_normalize_sound [OF Inr]
  let ?repo = "Repo coll lower db"
  obtain r where r: "rGet ?repo (l_get v) (biTenantID inp) (biPrincipalID inp) (biMethod inp) (biPath inp) (biKey inp) s = (s, r)"
    using fst_Repo_Get [of "l_get v"] by (metis Repo_def idem_repo.select_convs(2) prod.collapse)
  obtain s1 c where c: "rCreate ?repo (l_create v) (new_record inp (now_new v) lifetime) s = (s1, c)" by fastforce
  then have one: "(idem_step upper ?repo)\<^sup>*\<^sup>* s s1"
    using idem_step.create [OF Inr, of ?repo s "l_create v" "now_new v" lifetime] by auto
  obtain r2 where r2: "rGet ?repo (l_reget v) (biTenantID inp) (biPrincipalID inp) (biMethod inp) (biPath inp) (biKey inp) s1 = (s1, r2)"
    using fst_Repo_Get [of "l_reget v"] by (metis Repo_def idem_repo.select_convs(2) prod.collapse)
  show ?thesis
  proof (cases r)
    case (Inr existing)
    with \<open>begin_normalize upper raw = Inr inp\<close> r h show ?thesis by (simp add: Begin_def decision_steps)
  next
    case (Inl e)
    have "(idem_step upper ?repo)\<^sup>*\<^sup>* s (fst (decisionForExisting ?repo v existing (biRequestHash inp) s1))" for existing
      using one decision_steps [of "biRequestHash inp" upper s1 v existing] h by (meson rtranclp_trans)
    with Inl Inr r c r2 one show ?thesis by (auto simp: Begin_def Let_def split: sum.splits)
  qed
qed (simp add: Begin_def)

section \<open>The life of a request\<close>

lemma get_delivered:
  assumes "\<And>q. q \<in># rows s \<Longrightarrow> scope_of coll q = (t, p, coll m, coll path, coll key) \<Longrightarrow> q = rec" and "rec \<in># rows s"
    and "scope_of coll rec = (t, p, coll m, coll path, coll key)"
  shows "Repo_Get coll db Delivered t p m path key s = (s, Inr (Some rec))"
proof -
  let ?sel = "SELECT db (same_scope coll t p m path key) (\<lambda>q r. ID q \<le> ID r) s"
  have "rec \<in> set ?sel" using assms(2,3) by (simp add: in_SELECT same_scope_scope_of)
  then obtain q qs where sel: "?sel = q # qs" by (cases ?sel) auto
  then have "q \<in> set ?sel" by simp
  then have "q = rec" using assms(1) by (simp add: in_SELECT same_scope_scope_of)
  with sel show ?thesis by (simp add: Repo_Get_def sql_call_defs)
qed

lemma get_none:
  assumes "\<And>q. q \<in># rows s \<Longrightarrow> scope_of coll q \<noteq> (t, p, coll m, coll path, coll key)"
  shows "Repo_Get coll db Delivered t p m path key s = (s, Inl ErrNotFound)"
proof -
  let ?sel = "SELECT db (same_scope coll t p m path key) (\<lambda>q r. ID q \<le> ID r) s"
  have "?sel = []"
  proof (rule ccontr)
    assume "?sel \<noteq> []"
    then have "hd ?sel \<in> set ?sel" by (rule hd_in_set)
    with assms [of "hd ?sel"] show False unfolding in_SELECT same_scope_scope_of by blast
  qed
  then show ?thesis by (simp add: Repo_Get_def sql_call_defs)
qed

abbreviation begin_scope :: "begin_input \<Rightarrow> nat \<times> nat \<times> string \<times> string \<times> string" where
  "begin_scope inp \<equiv> (biTenantID inp, biPrincipalID inp, coll (biMethod inp), coll (biPath inp), coll (biKey inp))"

lemma begin_new:
  assumes "begin_normalize upper raw = Inr inp" and "l_get v = Delivered" and "l_create v = Delivered"
    and "\<And>q. q \<in># rows s \<Longrightarrow> scope_of coll q \<noteq> begin_scope inp"
  obtains i s' where "Begin upper (Some (Repo coll lower db)) lifetime v raw s = (s', Inr (started (idem_with_id i (new_record inp (now_new v) lifetime))))"
    and "0 < i" and "\<forall>q \<in># rows s. ID q \<noteq> i" and "rows s' = add_mset (idem_with_id i (new_record inp (now_new v) lifetime)) (rows s)"
proof -
  let ?rec = "new_record inp (now_new v) lifetime"
  have "scope_of coll ?rec = begin_scope inp" by (simp add: scope_of_def new_record_def)
  with assms(4) have "\<forall>q \<in># rows s. \<not> idem_clash coll q ?rec" by (auto simp: idem_clash_scope_of)
  from INSERT_new [OF new_record_fits [OF assms(1)] this] obtain i s' where
    i: "INSERT db ?rec s = (s', Inr (idem_with_id i ?rec))" "0 < i" "\<forall>q \<in># rows s. ID q \<noteq> i" "rows s' = add_mset (idem_with_id i ?rec) (rows s)"
    by blast
  have "Begin upper (Some (Repo coll lower db)) lifetime v raw s = (s', Inr (started (idem_with_id i ?rec)))"
    using assms(1-3) get_none [OF assms(4)] i(1) by (simp add: Begin_def Repo_def Repo_Create_def sql_call_defs Let_def ErrNotFound_def)
  with i that show thesis by blast
qed

lemma complete_delivered:
  assumes "rows s = add_mset rec R" and "ID rec = i" and "0 < i" and "\<forall>q \<in># R. ID q \<noteq> i" and "100 \<le> n" "n \<le> 599"
    and "length body < 2 ^ 24"
  shows "rows (fst (Service_Complete (Some (Repo coll lower db)) Delivered now i n body False s)) =
    add_mset (completed now StatusCompleted n body rec) R"
proof -
  have "rows (fst (UPDATE db (\<lambda>q. ID q = i) (completed now StatusCompleted n body) s)) =
      image_mset (\<lambda>q. if ID q = i then completed now StatusCompleted n body q else q) (rows s)"
    by (rule UPDATE_total) (use assms(7) RuneCount_le [of StatusCompleted] in \<open>auto simp: idem_fits_def completed_def\<close>)
  moreover have "image_mset (\<lambda>q. if ID q = i then completed now StatusCompleted n body q else q) R = R"
    using assms(4) by (induction R) auto
  ultimately show ?thesis
    using assms(1-6) by (simp add: Service_Complete_def Repo_def fst_Repo_Complete sql_call_defs)
qed

lemma restart_delivered:
  assumes "validRequestHash h"
  obtains s' where "Repo_Restart coll db Delivered i h running now s = (s', None)"
    and "rows s' = image_mset (\<lambda>q. if ID q = i \<and> coll (Status q) = coll StatusInProgress
      then q\<lparr>RecHash := h, RunningExpiresAt := Some running, UpdatedAt := now\<rparr> else q) (rows s)"
proof -
  let ?P = "\<lambda>q. ID q = i \<and> coll (Status q) = coll StatusInProgress"
  let ?f = "\<lambda>q. q\<lparr>RecHash := h, RunningExpiresAt := Some running, UpdatedAt := now\<rparr>"
  have "RuneCount h \<le> 80" using validRequestHash_length [OF assms] RuneCount_le [of h] by linarith
  then have "\<forall>q \<in># rows s. ?P q \<and> idem_fits q \<longrightarrow> idem_fits (?f q)" by (auto simp: idem_fits_def)
  from UPDATE_rows [OF this] obtain n s' where "UPDATE db ?P ?f s = (s', Inr n)"
    "rows s' = image_mset (\<lambda>q. if ?P q then ?f q else q) (rows s)" by blast
  then show thesis by (intro that [of s']) (simp_all add: Repo_Restart_def sql_call_defs)
qed

lemma begin_replay:
  assumes "begin_normalize upper raw = Inr inp" and "l_get v = Delivered" and "rows s = add_mset rec R"
    and "\<And>q. q \<in># R \<Longrightarrow> scope_of coll q \<noteq> begin_scope inp" and "scope_of coll rec = begin_scope inp"
    and "RecHash rec = biRequestHash inp" and "Status rec = StatusCompleted" and "ResponseStatus rec = Some n" and "ResponseBody rec = Some body"
  shows "Begin upper (Some (Repo coll lower db)) lifetime v raw s =
    (s, Inr \<lparr>resRecord = rec, Started = False, Replay = True, resStatus = n, resBody = body\<rparr>)"
proof -
  have "Repo_Get coll db Delivered (biTenantID inp) (biPrincipalID inp) (biMethod inp) (biPath inp) (biKey inp) s = (s, Inr (Some rec))"
    by (rule get_delivered) (use assms(3-5) in auto)
  with assms(1,2,6-9) show ?thesis by (simp add: Begin_def Repo_def decisionForExisting_def Let_def)
qed

end

lemma duplicate_record_found: "isDuplicateKey lower duplicate_entry"
  by (simp add: isDuplicateKey_def duplicate_entry_def ToLower_def is_ascii_def lower_char_def)

lemma long_record_other: "\<not> isDuplicateKey lower data_too_long"
  by (simp add: isDuplicateKey_def data_too_long_def ToLower_def is_ascii_def lower_char_def)

abbreviation mini_idem :: "(idem_record list, idem_record) sql" where
  "mini_idem \<equiv> mini_sql idem_fits (idem_clash id) ID idem_with_id"

interpretation mini_idem: idem_table mini_idem mset id id
  unfolding idem_table_def by (rule mini_sql_table [OF duplicate_record_found long_record_other])

lemma idem_tableI:
  "sql_table db rows idem_fits (idem_clash coll) (isDuplicateKey lower) ID idem_with_id \<Longrightarrow> idem_table db rows coll lower"
  by (simp add: idem_table_def)

lemma write_method_upper: "isWriteMethod m \<Longrightarrow> ToUpper upper (TrimSpace m) = m \<and> 0 < length m \<and> length m \<le> 16"
  by (auto simp: isWriteMethod_def go_string_simps is_graphic_def ToUpper_def is_ascii_def upper_char_def)

text \<open>What the middleware asks for passes the checks of \<^verbatim>\<open>Begin\<close> when key and path have a length it accepts.\<close>

definition mw_accepts :: "gin_context \<Rightarrow> bool" where
  "mw_accepts c \<longleftrightarrow> isWriteMethod (Method c) \<and> TrimSpace (Header_In c ''Idempotency-Key'') \<noteq> [] \<and>
     length (TrimSpace (Header_In c ''Idempotency-Key'')) \<le> 128 \<and> TrimSpace (URLPath c) \<noteq> [] \<and> length (TrimSpace (URLPath c)) \<le> 255"

lemma mw_normalize:
  assumes "mw_accepts c" and "0 < t" and "0 < p"
  shows "begin_normalize upper (mw_input upper c body t p) = Inr ((mw_input upper c body t p)
    \<lparr>biKey := TrimSpace (Header_In c ''Idempotency-Key''), biPath := TrimSpace (URLPath c)\<rparr>)"
proof -
  let ?h = "RequestHash upper (Method c) (URLPath c) body"
  have "TrimSpace ?h = ?h" and "validRequestHash ?h" by (simp_all add: RequestHash_def TrimSpace_HashParts validRequestHash_HashParts)
  moreover have "?h \<noteq> []" by (simp add: RequestHash_def HashParts_def)
  ultimately show ?thesis
    using assms write_method_upper [of "Method c" upper] by (simp add: begin_normalize_def mw_input_def mw_accepts_def Let_def)
qed

lemma same_body: "Body c = Inr body \<Longrightarrow> c\<lparr>Body := Inr body\<rparr> = c"
  by (cases c) simp

text \<open>The middleware on a request it takes on.\<close>

lemma middleware_run:
  assumes "Header_In c ''Idempotency-Key'' \<noteq> []" and "isWriteMethod (Method c)" and "Body c = Inr body"
    and "length body \<le> MaxRequestBodyBytes" and "idempotencyScope c body = Some (t, p)"
  shows "Idempotency_Middleware upper render sent repo lifetime w g c z =
      (case Begin upper repo lifetime (begin_env.truncate w) (mw_input upper c body t p) z of
         (z, Inl err) \<Rightarrow> (z, writeMiddlewareError c err)
       | (z, Inr result) \<Rightarrow>
           if Replay result
           then (z, \<lparr>status = resStatus result, headers = Header_Out (gin_Header c ''Idempotency-Replayed'' ''true''),
                     content = DataBody ''application/json; charset=utf-8'' (resBody result)\<rparr>)
           else (case g c z of
                   (z, resp) \<Rightarrow>
                     (let sensitive = (headers resp ''X-Idempotency-Sensitive'' = Some ''true'');
                          out = (if sensitive \<and> \<not> sent resp
                                 then resp\<lparr>headers := (headers resp)(''X-Idempotency-Sensitive'' := None)\<rparr> else resp)
                      in (fst (Service_Complete repo (l_complete w) (now_complete w) (ID (resRecord result)) (status resp)
                                (render (content resp)) sensitive z), out))))"
  using assms by (simp add: Idempotency_Middleware_def readBoundedBody_def same_body Let_def)

context idem_table
begin

lemma middleware_twice:
  assumes ok: "mw_accepts c" and body: "Body c = Inr body" "length body \<le> MaxRequestBodyBytes"
    and scope: "idempotencyScope c body = Some (t, p)" "0 < t" "0 < p"
    and free: "\<And>q. q \<in># rows s \<Longrightarrow>
      scope_of coll q \<noteq> (t, p, coll (Method c), coll (TrimSpace (URLPath c)), coll (TrimSpace (Header_In c ''Idempotency-Key'')))"
    and net: "l_get v = Delivered" "l_create v = Delivered" "l_complete v = Delivered" "l_get v' = Delivered"
    and app: "\<And>s1. rows (fst (h c s1)) = rows s1"
    and answer: "\<And>s1. 100 \<le> status (snd (h c s1)) \<and> status (snd (h c s1)) \<le> 599 \<and> length (render (content (snd (h c s1)))) < 2 ^ 24 \<and>
      headers (snd (h c s1)) ''X-Idempotency-Sensitive'' \<noteq> Some ''true''"
  shows "\<exists>s1 s' resp. resp = snd (h c s1) \<and>
    Idempotency_Middleware upper render sent (Some (Repo coll lower db)) lifetime v h c s = (s', resp) \<and>
    Idempotency_Middleware upper render sent (Some (Repo coll lower db)) lifetime v' h' c s' =
      (s', \<lparr>status = status resp, headers = Header_Out (gin_Header c ''Idempotency-Replayed'' ''true''),
             content = DataBody ''application/json; charset=utf-8'' (render (content resp))\<rparr>)"
proof -
  define raw where "raw = mw_input upper c body t p"
  define inp where "inp = raw\<lparr>biKey := TrimSpace (Header_In c ''Idempotency-Key''), biPath := TrimSpace (URLPath c)\<rparr>"
  have norm: "begin_normalize upper raw = Inr inp" unfolding raw_def inp_def by (rule mw_normalize [OF ok scope(2,3)])
  have sc: "begin_scope inp = (t, p, coll (Method c), coll (TrimSpace (URLPath c)), coll (TrimSpace (Header_In c ''Idempotency-Key'')))"
    by (simp add: inp_def raw_def mw_input_def)
  have key: "Header_In c ''Idempotency-Key'' \<noteq> []" "isWriteMethod (Method c)" using ok by (auto simp: mw_accepts_def)
  note run = middleware_run [OF key body scope(1), of upper, folded raw_def]
  let ?rec = "\<lambda>i. idem_with_id i (new_record inp (now_new v) lifetime)"
  obtain i s1 where b: "Begin upper (Some (Repo coll lower db)) lifetime (begin_env.truncate v) raw s = (s1, Inr (started (?rec i)))"
      "0 < i" "\<forall>q \<in># rows s. ID q \<noteq> i" "rows s1 = add_mset (?rec i) (rows s)"
    by (rule begin_new [OF norm, of "begin_env.truncate v" s lifetime]) (use net free sc in \<open>auto simp: begin_env.truncate_def\<close>)
  obtain s2 resp where h: "h c s1 = (s2, resp)" by fastforce
  define s3 where "s3 = fst (Service_Complete (Some (Repo coll lower db)) Delivered (now_complete v) i (status resp) (render (content resp)) False s2)"
  have ans: "100 \<le> status resp" "status resp \<le> 599" "length (render (content resp)) < 2 ^ 24"
      "headers resp ''X-Idempotency-Sensitive'' \<noteq> Some ''true''" and s2: "rows s2 = add_mset (?rec i) (rows s)"
    using answer [of s1] app [of s1] b(4) by (simp_all add: h)
  have first: "Idempotency_Middleware upper render sent (Some (Repo coll lower db)) lifetime v h c s = (s3, resp)"
    using b(1) ans net by (simp add: run h s3_def started_def Let_def idem_with_id_def)
  have id: "ID (?rec i) = i" by (simp add: idem_with_id_def)
  have s3: "rows s3 = add_mset (completed (now_complete v) StatusCompleted (status resp) (render (content resp)) (?rec i)) (rows s)"
    unfolding s3_def by (rule complete_delivered [OF s2 id b(2,3) ans(1-3)])
  have "Begin upper (Some (Repo coll lower db)) lifetime (begin_env.truncate v') raw s3 =
      (s3, Inr \<lparr>resRecord = completed (now_complete v) StatusCompleted (status resp) (render (content resp)) (?rec i),
        Started = False, Replay = True, resStatus = status resp, resBody = render (content resp)\<rparr>)"
    by (rule begin_replay [OF norm _ s3])
      (use net free sc in \<open>auto simp: begin_env.truncate_def completed_def scope_of_def idem_with_id_def new_record_def\<close>)
  then have "Idempotency_Middleware upper render sent (Some (Repo coll lower db)) lifetime v' h' c s3 =
      (s3, \<lparr>status = status resp, headers = Header_Out (gin_Header c ''Idempotency-Replayed'' ''true''),
             content = DataBody ''application/json; charset=utf-8'' (render (content resp))\<rparr>)"
    by (simp add: run)
  with first h show ?thesis by (metis snd_conv)
qed

end

section \<open>Properties\<close>

text \<open>C29: Whatever processes begin, restart, complete and clean up, statement by statement in any order, and whatever requests
  or replies get lost, the table holds at most one record per tenant, principal, method, path and key, and every record
  is either running or finished with a status code; a record of a sensitive response never holds a body.\<close>
theorem idem_invariant:
  assumes "sql_table db rows idem_fits (idem_clash coll) (isDuplicateKey lower) ID idem_with_id"
    and "(idem_step upper (Repo coll lower db))\<^sup>*\<^sup>* s0 s" and "rows s0 = {#}"
  shows "size {#q \<in># rows s. same_scope coll t p m path key q#} \<le> 1 \<and> (\<forall>q \<in># rows s. idem_ok q)"
  using idem_table.reachable_inv [OF idem_tableI [OF assms(1)] assms(2,3)]
  unfolding same_scope_scope_of idem_inv_def by blast

definition sample_begin :: begin_input where
  "sample_begin = \<lparr>biTenantID = 1, biPrincipalID = 2, biKey = ''k1'', biMethod = ''POST'', biPath = ''/orders'',
     biRequestHash = HashParts [''body'']\<rparr>"

lemma sample_begin_normal: "begin_normalize upper sample_begin = Inr sample_begin"
proof -
  have "HashParts [''body''] \<noteq> []" by (simp add: HashParts_def)
  then show ?thesis
    using validRequestHash_HashParts [of "[''body'']"] TrimSpace_HashParts [of "[''body'']"]
    by (simp add: begin_normalize_def sample_begin_def Let_def go_string_simps is_graphic_def ToUpper_def is_ascii_def upper_char_def)
qed

lemma sample_create:
  "fst (rCreate (Repo id id mini_idem) Delivered (new_record sample_begin 10 20) []) = [idem_with_id 1 (new_record sample_begin 10 20)]"
  using new_record_fits [OF sample_begin_normal, of 10 20]
  by (simp add: Repo_def Repo_Create_def sql_call_defs mini_sql_def mini_insert_def Let_def)

theorem idem_invariant_witness:
  "size {#q \<in># {#idem_with_id 1 (new_record sample_begin 10 20)#}. same_scope id 1 2 ''POST'' ''/orders'' ''k1'' q#} \<le> 1 \<and>
   idem_ok (idem_with_id 1 (new_record sample_begin 10 20))"
proof -
  have "(idem_step id (Repo id id mini_idem))\<^sup>*\<^sup>* [] [idem_with_id 1 (new_record sample_begin 10 20)]"
    using idem_step.create [OF sample_begin_normal, of id "Repo id id mini_idem" "[]" Delivered 10 20] unfolding sample_create by (rule r_into_rtranclp)
  from idem_invariant [OF mini_idem.sql_table_axioms this, of 1 2 "''POST''" "''/orders''" "''k1''"] show ?thesis by simp
qed




definition sample_mw_env :: mw_env where
  "sample_mw_env = \<lparr>l_get = Delivered, l_create = Delivered, l_reget = Delivered, l_restart = Delivered, now_new = 10, now_check = 10,
     now_restart = 10, l_complete = Delivered, now_complete = 20\<rparr>"




text \<open>C31: Two requests can both take over a request that timed out. If both have read the record before either restarts it, both
  are told to run: \<^verbatim>\<open>Restart\<close> checks neither the timeout nor whether it changed a row.\<close>
theorem restart_race:
  assumes "sql_table db rows idem_fits (idem_clash coll) (isDuplicateKey lower) ID idem_with_id"
    and "idem_ok rec" and "Status rec = StatusInProgress" and "RunningExpiresAt rec = Some e"
    and "e < now_check v1" and "e < now_check v2" and "l_restart v1 = Delivered" and "l_restart v2 = Delivered"
  shows "\<exists>s1 r1 s2 r2. decisionForExisting (Repo coll lower db) v1 (Some rec) (RecHash rec) s = (s1, Inr r1) \<and>
    decisionForExisting (Repo coll lower db) v2 (Some rec) (RecHash rec) s1 = (s2, Inr r2) \<and>
    Started r1 \<and> Started r2 \<and> ID (resRecord r1) = ID (resRecord r2)"
proof -
  have h: "validRequestHash (RecHash rec)" using assms(2) by (simp add: idem_ok_def)
  have go: "\<exists>s' r. decisionForExisting (Repo coll lower db) v (Some rec) (RecHash rec) z = (s', Inr r) \<and> Started r \<and> ID (resRecord r) = ID rec"
    if "e < now_check v" "l_restart v = Delivered" for v z
  proof -
    obtain s' where "Repo_Restart coll db Delivered (ID rec) (RecHash rec) (Add (now_restart v) runningTimeout) (now_restart v) z = (s', None)"
      by (rule idem_table.restart_delivered [OF idem_tableI [OF assms(1)] h])
    with that assms(3,4) show ?thesis by (simp add: decisionForExisting_def Repo_def Let_def After_def started_def)
  qed
  from go [OF assms(5,7)] go [OF assms(6,8)] show ?thesis by metis
qed

theorem restart_race_witness:
  "\<exists>s1 r1 s2 r2. decisionForExisting (Repo id id mini_idem) (begin_env.truncate sample_mw_env\<lparr>now_check := minute + 11\<rparr>)
      (Some (idem_with_id 1 (new_record sample_begin 10 20))) (HashParts [''body'']) [idem_with_id 1 (new_record sample_begin 10 20)] = (s1, Inr r1) \<and>
    decisionForExisting (Repo id id mini_idem) (begin_env.truncate sample_mw_env\<lparr>now_check := minute + 12\<rparr>)
      (Some (idem_with_id 1 (new_record sample_begin 10 20))) (HashParts [''body'']) s1 = (s2, Inr r2) \<and>
    Started r1 \<and> Started r2 \<and> ID (resRecord r1) = ID (resRecord r2)"
proof -
  let ?rec = "idem_with_id 1 (new_record sample_begin 10 20)"
  have "RecHash ?rec = HashParts [''body'']" "Status ?rec = StatusInProgress" "RunningExpiresAt ?rec = Some (minute + 10)"
    by (simp_all add: idem_with_id_def new_record_def sample_begin_def Add_def)
  then show ?thesis
    using restart_race [OF mini_idem.sql_table_axioms new_record_ok [OF sample_begin_normal], of 1 10 20 "minute + 10"
        "begin_env.truncate sample_mw_env\<lparr>now_check := minute + 11\<rparr>" "begin_env.truncate sample_mw_env\<lparr>now_check := minute + 12\<rparr>" "[?rec]"]
    by (simp add: begin_env.truncate_def sample_mw_env_def)
qed

text \<open>C32: Storage keys do not confuse requests. If two scopes are given the same storage key, their normalised forms agree in all five fields, or
  the two byte strings hashed for them are different and have the same SHA-256 digest: no shifting of bytes between
  adjacent fields produces equal hash inputs.\<close>
theorem storage_key_unambiguous:
  assumes "NormalizeScope upper a = Inr x" and "NormalizeScope upper b = Inr y" and "StorageKey upper a = StorageKey upper b"
  shows "x = y \<or> (let hx = hash_input [scTenantID x, scPrincipalID x, scMethod x, scPath x, scKey x];
                        hy = hash_input [scTenantID y, scPrincipalID y, scMethod y, scPath y, scKey y]
                    in hx \<noteq> hy \<and> Sum256 hx = Sum256 hy)"
proof (cases "hash_input [scTenantID x, scPrincipalID x, scMethod x, scPath x, scKey x] =
    hash_input [scTenantID y, scPrincipalID y, scMethod y, scPath y, scKey y]")
  case True
  from hash_input_inj [OF True] show ?thesis by (cases x, cases y) simp
next
  case False
  have trim: "trimHashPrefix (HashParts ps) = EncodeToString (Sum256 (hash_input ps))" for ps
    unfolding trimHashPrefix_def HashParts_def TrimPrefix_append ..
  have inj: "EncodeToString m = EncodeToString n \<Longrightarrow> m = n" for m n by (metis DecodeString_EncodeToString option.inject)
  show ?thesis using assms False by (auto simp: StorageKey_def trim dest: inj)
qed

theorem storage_key_unambiguous_witness:
  "StorageKey (\<lambda>s. s) (request_scope.make ''7'' ''u1'' ''post'' ''/orders'' ''k'') = StorageKey (\<lambda>s. s) (request_scope.make ''7'' ''u1'' ''POST'' ''/orders'' ''k'') \<and>
   NormalizeScope (\<lambda>s. s) (request_scope.make ''7'' ''u1'' ''post'' ''/orders'' ''k'') =
     NormalizeScope (\<lambda>s. s) (request_scope.make ''7'' ''u1'' ''POST'' ''/orders'' ''k'')"
proof -
  let ?x = "request_scope.make ''7'' ''u1'' ''POST'' (normalizePath ''/orders'') ''k''"
  have path: "normalizePath ''/orders'' \<noteq> []"
    by (simp add: normalizePath_def Let_def go_string_simps is_graphic_def split: option.split)
  have key: "NormalizeKey ''k'' = Inr ''k''" by code_simp
  have meth: "normalizeMethod (\<lambda>s. s) ''post'' = ''POST''" "normalizeMethod (\<lambda>s. s) ''POST'' = ''POST''" by code_simp+
  have a: "NormalizeScope (\<lambda>s. s) (request_scope.make ''7'' ''u1'' m ''/orders'' ''k'') = Inr ?x" if "m = ''post'' \<or> m = ''POST''" for m
    using that path by (auto simp: NormalizeScope_def key meth request_scope.defs Let_def go_string_simps is_graphic_def)
  have "StorageKey (\<lambda>s. s) (request_scope.make ''7'' ''u1'' ''post'' ''/orders'' ''k'') =
      StorageKey (\<lambda>s. s) (request_scope.make ''7'' ''u1'' ''POST'' ''/orders'' ''k'')" by (simp add: StorageKey_def a)
  then show ?thesis using storage_key_unambiguous [OF a [of "''post''"] a [of "''POST''"]] a by simp
qed

end
