(* ===== verification/Rate_Limit.thy ===== *)
theory Rate_Limit
  imports Redis_Interface Go_Json
begin

text \<open>
  The package \<^verbatim>\<open>ratelimit\<close>: limits on requests per minute, tokens per minute and concurrent requests, kept as
  counters in Redis (\<^verbatim>\<open>limiter.go\<close>, \<^verbatim>\<open>limits.go\<close>), the three Lua scripts that change the counters (\<^verbatim>\<open>scripts.go\<close>),
  and the estimate of the tokens of a request from its JSON body (\<^verbatim>\<open>estimator.go\<close>).
\<close>

section \<open>limits.go\<close>

record rate_limits =
  RPM :: int
  TPM :: int
  Concurrency :: int

record check_result =
  Allowed :: bool
  DenyReason :: string
  ConcurrencyAcquired :: bool
  RemainingRequests :: int
  RemainingTokens :: int
  LimitRequests :: int
  LimitTokens :: int
  ResetAt :: go_time
  RetryAfterSeconds :: int
  MinuteKey :: int

record request_identity =
  UserID :: int
  IdTenantID :: int
  APIKeyID :: int
  Model :: string
  AuthType :: string


section \<open>scripts.go\<close>

text \<open>A counter that does not exist counts as zero. The arguments come in triples: limit, increment, time to live in seconds.\<close>

definition lua_counter :: "string option \<Rightarrow> int option" where
  "lua_counter v = lua_tonumber (case v of None \<Rightarrow> ''0'' | Some x \<Rightarrow> x)"

text \<open>The first loop: the index of the counter that would pass its limit, or what remains of each.\<close>

fun lua_check :: "'s redis \<Rightarrow> go_time \<Rightarrow> nat \<Rightarrow> string list \<Rightarrow> string list \<Rightarrow> 's \<Rightarrow> 's \<times> (go_error + nat option \<times> int list)" where
  "lua_check r now i [] args s = (s, Inr (None, []))"
| "lua_check r now i (k # ks) args s =
     (let (s, v) = GET r now k s
      in case (lua_counter v, lua_tonumber (args ! (3 * i)), lua_tonumber (args ! (3 * i + 1))) of
           (Some current, Some limit, Some increment) \<Rightarrow>
             if limit < lua_round (current + increment) then (s, Inr (Some i, []))
             else (case lua_check r now (Suc i) ks args s of
                     (s, Inl err) \<Rightarrow> (s, Inl err)
                   | (s, Inr (denied, rs)) \<Rightarrow> (s, Inr (denied, lua_round (lua_round (limit - current) - increment) # rs)))
         | _ \<Rightarrow> (s, Inl lua_error))"

text \<open>The second loop increments every counter and renews its time to live.\<close>

fun lua_increment :: "'s redis \<Rightarrow> go_time \<Rightarrow> nat \<Rightarrow> string list \<Rightarrow> string list \<Rightarrow> 's \<Rightarrow> 's \<times> (go_error + int list)" where
  "lua_increment r now i [] args s = (s, Inr [])"
| "lua_increment r now i (k # ks) args s =
     (case (lua_tonumber (args ! (3 * i)), lua_tonumber (args ! (3 * i + 1)), lua_tonumber (args ! (3 * i + 2))) of
        (Some limit, Some increment, Some seconds) \<Rightarrow>
          (case INCRBY r now k increment s of
             (s, Inl err) \<Rightarrow> (s, Inl err)
           | (s, Inr new_val) \<Rightarrow>
               (let (s, _) = PEXPIRE r now k (seconds * 1000) s
                in case lua_increment r now (Suc i) ks args s of
                     (s, Inl err) \<Rightarrow> (s, Inl err)
                   | (s, Inr rs) \<Rightarrow> (s, Inr (lua_round (limit - lua_round new_val) # rs))))
      | _ \<Rightarrow> (s, Inl lua_error))"

definition luaCheckAndIncrement :: "'s script" where
  "luaCheckAndIncrement r now keys args s =
     (case lua_check r now 0 keys args s of
        (s, Inl err) \<Rightarrow> (s, Inl err)
      | (s, Inr (Some i, rs)) \<Rightarrow>
          (s, Inr (AArray (map AInt64 ([0, int i] @ rs @ replicate (length keys - length rs) 0))))
      | (s, Inr (None, rs)) \<Rightarrow>
          (case lua_increment r now 0 keys args s of
             (s, Inl err) \<Rightarrow> (s, Inl err)
           | (s, Inr rs) \<Rightarrow> (s, Inr (AArray (map AInt64 ([1, - 1] @ rs))))))"

definition luaConcurrencyAcquire :: "'s script" where
  "luaConcurrencyAcquire r now keys args s =
     (let (s, v) = GET r now (keys ! 0) s
      in case (lua_counter v, lua_tonumber (args ! 0)) of
           (Some current, Some limit) \<Rightarrow>
             if limit \<le> current then (s, Inr (AInt64 0))
             else (case INCRBY r now (keys ! 0) 1 s of
                     (s, Inl err) \<Rightarrow> (s, Inl err)
                   | (s, Inr _) \<Rightarrow>
                       (case lua_tonumber (args ! 1) of
                          None \<Rightarrow> (s, Inl lua_error)
                        | Some seconds \<Rightarrow> (let (s, _) = PEXPIRE r now (keys ! 0) (seconds * 1000) s in (s, Inr (AInt64 1)))))
         | _ \<Rightarrow> (s, Inl lua_error))"

definition luaConcurrencyRelease :: "'s script" where
  "luaConcurrencyRelease r now keys args s =
     (let (s, v) = GET r now (keys ! 0) s
      in case lua_counter v of
           None \<Rightarrow> (s, Inl lua_error)
         | Some current \<Rightarrow>
             if current > 0
             then (case INCRBY r now (keys ! 0) (- 1) s of (s, Inl err) \<Rightarrow> (s, Inl err) | (s, Inr n) \<Rightarrow> (s, Inr (AInt64 n)))
             else (s, Inr (AInt64 0)))"

section \<open>limiter.go\<close>

abbreviation keyTTL :: int where
  "keyTTL \<equiv> 120"

definition KeyPrefix :: "request_identity \<Rightarrow> string" where
  "KeyPrefix identity =
     (if APIKeyID identity > 0 then ''apikey:'' @ FormatInt (APIKeyID identity)
      else if IdTenantID identity > 0 then ''tenant:'' @ FormatInt (IdTenantID identity)
      else ''user:'' @ FormatInt (UserID identity))"

definition rpm_key :: "string \<Rightarrow> int \<Rightarrow> string" where
  "rpm_key p minuteKey = ''rl:rpm:'' @ p @ '':'' @ FormatInt minuteKey"

definition tpm_key :: "string \<Rightarrow> int \<Rightarrow> string" where
  "tpm_key p minuteKey = ''rl:tpm:'' @ p @ '':'' @ FormatInt minuteKey"

definition conc_key :: "string \<Rightarrow> string" where
  "conc_key p = ''rl:conc:'' @ p"

text \<open>The replies of the client: a number, or a list of numbers; strings are parsed.\<close>

definition reply_error :: go_error where
  "reply_error = ErrorNew ''redis: unexpected type for Int64''"

fun toInt64 :: "go_any \<Rightarrow> go_error + int" where
  "toInt64 (AInt64 n) = Inr n"
| "toInt64 (AString t) = (case ParseInt t of (n, None) \<Rightarrow> Inr n | (n, Some _) \<Rightarrow> Inl reply_error)"
| "toInt64 _ = Inl reply_error"

fun toInt64s :: "go_any list \<Rightarrow> go_error + int list" where
  "toInt64s [] = Inr []"
| "toInt64s (v # vs) =
     (case toInt64 v of Inl e \<Rightarrow> Inl e | Inr n \<Rightarrow> (case toInt64s vs of Inl e \<Rightarrow> Inl e | Inr ns \<Rightarrow> Inr (n # ns)))"

definition Int64Slice :: "'s \<times> (go_error + go_any) \<Rightarrow> 's \<times> (go_error + int list)" where
  "Int64Slice reply =
     (case reply of (s, Inl e) \<Rightarrow> (s, Inl e) | (s, Inr (AArray vs)) \<Rightarrow> (s, toInt64s vs) | (s, Inr _) \<Rightarrow> (s, Inl reply_error))"

definition Int64 :: "'s \<times> (go_error + go_any) \<Rightarrow> 's \<times> (go_error + int)" where
  "Int64 reply = (case reply of (s, Inl e) \<Rightarrow> (s, Inl e) | (s, Inr v) \<Rightarrow> (s, toInt64 v))"

text \<open>What surrounds a call: the clock of the process when it starts and when it computes the waiting time,
  the network and the clock of the server at each round trip.\<close>

record rl_env =
  rl_wall :: go_time
  rl_until :: go_time
  l_check :: link
  at_check :: go_time
  l_conc :: link
  at_conc :: go_time
  l_undo :: link
  at_undo :: go_time

definition degraded :: "rate_limits \<Rightarrow> int \<Rightarrow> check_result" where
  "degraded limits minuteKey = \<lparr>Allowed = True, DenyReason = [], ConcurrencyAcquired = False, RemainingRequests = RPM limits,
     RemainingTokens = TPM limits, LimitRequests = RPM limits, LimitTokens = TPM limits, ResetAt = 0, RetryAfterSeconds = 0,
     MinuteKey = minuteKey\<rparr>"

definition denied_window :: "rate_limits \<Rightarrow> int \<Rightarrow> go_time \<Rightarrow> int \<Rightarrow> check_result" where
  "denied_window limits minuteKey now i =
     (let resetAt = time_Unix ((minuteKey + 1) * 60);
          retryAfter = float_to_int (Seconds (Sub resetAt now));
          retryAfter = (if retryAfter < 1 then 1 else retryAfter)
      in \<lparr>Allowed = False, DenyReason = (if i = 1 then ''tpm'' else ''rpm''), ConcurrencyAcquired = False, RemainingRequests = 0,
          RemainingTokens = 0, LimitRequests = RPM limits, LimitTokens = TPM limits, ResetAt = resetAt,
          RetryAfterSeconds = retryAfter, MinuteKey = minuteKey\<rparr>)"

text \<open>Both decrements travel in one pipeline; its outcome is ignored.\<close>

definition undo_increments :: "'s redis \<Rightarrow> link \<Rightarrow> go_time \<Rightarrow> string \<Rightarrow> string \<Rightarrow> int \<Rightarrow> 's \<Rightarrow> 's" where
  "undo_increments r l now rpmKey tpmKey estimatedTokens s =
     fst (client_call l (\<lambda>s. INCRBY r now tpmKey (- estimatedTokens) (fst (INCRBY r now rpmKey (- 1) s))) s)"

definition CheckPreRequest ::
  "'s redis option \<Rightarrow> rl_env \<Rightarrow> request_identity \<Rightarrow> rate_limits \<Rightarrow> int \<Rightarrow> 's \<Rightarrow> 's \<times> check_result" where
  "CheckPreRequest rdb v identity limits estimatedTokens s =
     (case rdb of
        None \<Rightarrow> (s, degraded limits 0)
      | Some r \<Rightarrow>
          (let minuteKey = go_div (Unix (rl_wall v)) 60;
               p = KeyPrefix identity;
               rpmKey = rpm_key p minuteKey;
               tpmKey = tpm_key p minuteKey;
               concKey = conc_key p
           in case Int64Slice (client_call (l_check v) (luaCheckAndIncrement r (at_check v) [rpmKey, tpmKey]
                     [FormatInt (RPM limits), FormatInt 1, FormatInt keyTTL, FormatInt (TPM limits), FormatInt estimatedTokens, FormatInt keyTTL]) s) of
                (s, Inl err) \<Rightarrow> (s, degraded limits minuteKey)
              | (s, Inr result) \<Rightarrow>
                  if result ! 0 \<noteq> 1 then (s, denied_window limits minuteKey (rl_until v) (result ! 1))
                  else (let allowed = \<lparr>Allowed = True, DenyReason = [], ConcurrencyAcquired = False, RemainingRequests = result ! 2,
                              RemainingTokens = result ! 3, LimitRequests = RPM limits, LimitTokens = TPM limits,
                              ResetAt = time_Unix ((minuteKey + 1) * 60), RetryAfterSeconds = 0, MinuteKey = minuteKey\<rparr>
                        in case Int64 (client_call (l_conc v) (luaConcurrencyAcquire r (at_conc v) [concKey]
                                  [FormatInt (Concurrency limits), FormatInt keyTTL]) s) of
                             (s, Inl err) \<Rightarrow> (s, allowed)
                           | (s, Inr concResult) \<Rightarrow>
                               if concResult = 0
                               then (undo_increments r (l_undo v) (at_undo v) rpmKey tpmKey estimatedTokens s,
                                     allowed\<lparr>Allowed := False, DenyReason := ''concurrency'', ResetAt := 0, RetryAfterSeconds := 1\<rparr>)
                               else (s, allowed\<lparr>ConcurrencyAcquired := (concResult = 1)\<rparr>))))"

definition release_slot :: "'s redis \<Rightarrow> link \<Rightarrow> go_time \<Rightarrow> request_identity \<Rightarrow> 's \<Rightarrow> 's" where
  "release_slot r l now identity s = fst (client_call l (luaConcurrencyRelease r now [conc_key (KeyPrefix identity)] []) s)"

definition ReleaseConcurrency :: "'s redis option \<Rightarrow> link \<Rightarrow> go_time \<Rightarrow> request_identity \<Rightarrow> 's \<Rightarrow> 's" where
  "ReleaseConcurrency rdb l now identity s = (case rdb of None \<Rightarrow> s | Some r \<Rightarrow> release_slot r l now identity s)"

text \<open>\<open>l\<close> and \<open>now\<close> belong to the release, \<open>l'\<close> and \<open>now'\<close> to the correction of the token counter.\<close>

definition TrackPostResponse ::
  "'s redis option \<Rightarrow> link \<Rightarrow> go_time \<Rightarrow> link \<Rightarrow> go_time \<Rightarrow> request_identity \<Rightarrow> int \<Rightarrow> int \<Rightarrow> int \<Rightarrow> bool \<Rightarrow> 's \<Rightarrow> 's" where
  "TrackPostResponse rdb l now l' now' identity estimatedTokens actualTokens minuteKey releaseConcurrency s =
     (case rdb of
        None \<Rightarrow> s
      | Some r \<Rightarrow>
          (let s = (if releaseConcurrency then release_slot r l now identity s else s);
               delta = wrap64 (actualTokens - estimatedTokens)
           in if delta \<noteq> 0
              then fst (client_call l' (INCRBY r now' (tpm_key (KeyPrefix identity) minuteKey) delta) s)
              else s))"

section \<open>estimator.go\<close>

text \<open>A document decoded into a value of type \<^verbatim>\<open>any\<close>: of a key that occurs twice the last value counts.
  \<open>parse_number\<close> is \<^verbatim>\<open>strconv.ParseFloat\<close>; \<open>None\<close> is a number out of range, an error of the decoder.\<close>

fun set_entry :: "string \<Rightarrow> 'v \<Rightarrow> (string \<times> 'v) list \<Rightarrow> (string \<times> 'v) list" where
  "set_entry k v [] = [(k, v)]"
| "set_entry k v ((k', v') # es) = (if k = k' then (k, v) # es else (k', v') # set_entry k v es)"

fun any_of :: "(string \<Rightarrow> float64 option) \<Rightarrow> json \<Rightarrow> go_value option"
  and any_elems :: "(string \<Rightarrow> float64 option) \<Rightarrow> json list \<Rightarrow> go_value list option"
  and any_members :: "(string \<Rightarrow> float64 option) \<Rightarrow> (string \<times> json) list \<Rightarrow> (string \<times> go_value) list \<Rightarrow> (string \<times> go_value) list option" where
  "any_of pn JNull = Some VNil"
| "any_of pn (JBool b) = Some (VBool b)"
| "any_of pn (JNum t) = map_option VFloat (pn t)"
| "any_of pn (JStr t) = Some (VString t)"
| "any_of pn (JArr vs) = map_option VSlice (any_elems pn vs)"
| "any_of pn (JObj es) = map_option VMap (any_members pn es [])"
| "any_elems pn [] = Some []"
| "any_elems pn (v # vs) = (case any_of pn v of None \<Rightarrow> None | Some x \<Rightarrow> map_option (Cons x) (any_elems pn vs))"
| "any_members pn [] acc = Some acc"
| "any_members pn ((k, v) # es) acc = (case any_of pn v of None \<Rightarrow> None | Some x \<Rightarrow> any_members pn es (set_entry k x acc))"

text \<open>One message: an object, whose content replaces what the element held before; \<^verbatim>\<open>null\<close> leaves it alone.\<close>

fun message_members :: "(string \<Rightarrow> float64 option) \<Rightarrow> go_value \<Rightarrow> (string \<times> json) list \<Rightarrow> go_value option" where
  "message_members pn c [] = Some c"
| "message_members pn c ((k, v) # es) =
     (if EqualFold k ''content'' then (case any_of pn v of None \<Rightarrow> None | Some x \<Rightarrow> message_members pn x es)
      else message_members pn c es)"

fun message_content :: "(string \<Rightarrow> float64 option) \<Rightarrow> go_value \<Rightarrow> json \<Rightarrow> go_value option" where
  "message_content pn c JNull = Some c"
| "message_content pn c (JObj es) = message_members pn c es"
| "message_content pn c _ = None"

text \<open>A list of messages is decoded over the elements that an earlier occurrence of the key left.\<close>

fun message_list :: "(string \<Rightarrow> float64 option) \<Rightarrow> go_value list \<Rightarrow> json list \<Rightarrow> go_value list option" where
  "message_list pn old [] = Some []"
| "message_list pn old (v # vs) =
     (case message_content pn (case old of [] \<Rightarrow> VNil | c # _ \<Rightarrow> c) v of
        None \<Rightarrow> None
      | Some c \<Rightarrow> map_option (Cons c) (message_list pn (drop 1 old) vs))"

fun request_messages :: "(string \<Rightarrow> float64 option) \<Rightarrow> go_value list \<Rightarrow> (string \<times> json) list \<Rightarrow> go_value list option" where
  "request_messages pn ms [] = Some ms"
| "request_messages pn ms ((k, v) # es) =
     (if EqualFold k ''messages''
      then (case v of
              JArr vs \<Rightarrow> (case message_list pn ms vs of None \<Rightarrow> None | Some ms \<Rightarrow> request_messages pn ms es)
            | JNull \<Rightarrow> request_messages pn [] es
            | _ \<Rightarrow> None)
      else request_messages pn ms es)"

definition content_chars :: "(rat \<Rightarrow> string) \<Rightarrow> go_value \<Rightarrow> nat" where
  "content_chars ff c = (case c of VString t \<Rightarrow> length t | _ \<Rightarrow> (case Marshal ff c of Some b \<Rightarrow> length b | None \<Rightarrow> 0))"

definition maxInputTokenEstimate :: nat where
  "maxInputTokenEstimate = 128000"

definition estimateInputTokens :: "(rat \<Rightarrow> string) \<Rightarrow> (string \<Rightarrow> float64 option) \<Rightarrow> string \<Rightarrow> nat" where
  "estimateInputTokens ff pn body =
     (let messages = (case json_parse body of
                        Some (JObj es) \<Rightarrow> request_messages pn [] es
                      | Some JNull \<Rightarrow> Some []
                      | _ \<Rightarrow> None);
          totalChars = (case messages of Some ms \<Rightarrow> sum_list (map (content_chars ff) ms) | None \<Rightarrow> 0);
          totalChars = (if totalChars = 0 then length body else totalChars);
          tokens = totalChars div 4;
          tokens = (if tokens < 1 then 1 else tokens)
      in if tokens > maxInputTokenEstimate then maxInputTokenEstimate else tokens)"

text \<open>\<^verbatim>\<open>max_tokens\<close>: a pointer, nil unless the body has an integer for it; \<open>None\<close> is an error.\<close>

fun max_tokens_members :: "int option \<Rightarrow> (string \<times> json) list \<Rightarrow> int option option" where
  "max_tokens_members m [] = Some m"
| "max_tokens_members m ((k, v) # es) =
     (if EqualFold k ''max_tokens''
      then (case v of
              JNum t \<Rightarrow> (case ParseInt t of (n, None) \<Rightarrow> max_tokens_members (Some n) es | (n, Some _) \<Rightarrow> None)
            | JNull \<Rightarrow> max_tokens_members None es
            | _ \<Rightarrow> None)
      else max_tokens_members m es)"

definition estimateOutputTokens :: "string \<Rightarrow> int" where
  "estimateOutputTokens body =
     (case (case json_parse body of Some (JObj es) \<Rightarrow> max_tokens_members None es | Some JNull \<Rightarrow> Some None | _ \<Rightarrow> None) of
        Some (Some n) \<Rightarrow> if n > 0 then (if n > 500 then 500 else n) else 500
      | _ \<Rightarrow> 500)"

definition EstimateTotalTokens :: "(rat \<Rightarrow> string) \<Rightarrow> (string \<Rightarrow> float64 option) \<Rightarrow> string \<Rightarrow> int" where
  "EstimateTotalTokens ff pn body = int (estimateInputTokens ff pn body) + estimateOutputTokens body"

section \<open>Counters\<close>

text \<open>The number a key counts; a key that is not there counts zero.\<close>

definition counts :: "redis_entry option \<Rightarrow> int \<Rightarrow> bool" where
  "counts e n \<longleftrightarrow> \<bar>n\<bar> \<le> 2 ^ 52 \<and> (case e of None \<Rightarrow> n = 0 | Some e \<Rightarrow> rvalue e = FormatInt n)"

lemma counts_lua: "counts e n \<Longrightarrow> lua_counter (map_option rvalue e) = Some n"
  using lua_tonumber_FormatInt [of n] lua_tonumber_FormatInt [of 0]
  by (cases e) (auto simp: counts_def lua_counter_def FormatInt_def FormatUint.simps [of 0] digit_char_def char_of_def bit_0)

lemma lua_small: "\<bar>n\<bar> \<le> 2 ^ 52 \<Longrightarrow> lua_tonumber (FormatInt n) = Some n" "\<bar>n\<bar> \<le> 2 ^ 53 \<Longrightarrow> lua_round n = n"
  by (simp_all add: lua_tonumber_FormatInt lua_round_id)

lemma rl_keys_distinct: "rpm_key p m \<noteq> tpm_key p m" "rpm_key p m \<noteq> conc_key q" "tpm_key p m \<noteq> conc_key q"
  by (simp_all add: rpm_key_def tpm_key_def conc_key_def)

definition rl_args :: "int \<Rightarrow> int \<Rightarrow> int \<Rightarrow> string list" where
  "rl_args la lb e = [FormatInt la, FormatInt 1, FormatInt 120, FormatInt lb, FormatInt e, FormatInt 120]"

lemma rl_args_nth: "rl_args la lb e ! 0 = FormatInt la" "rl_args la lb e ! Suc 0 = FormatInt 1" "rl_args la lb e ! 2 = FormatInt 120"
  "rl_args la lb e ! 3 = FormatInt lb" "rl_args la lb e ! 4 = FormatInt e" "rl_args la lb e ! 5 = FormatInt 120"
  "rl_args la lb e ! Suc (Suc 0) = FormatInt 120"
  by (simp_all add: rl_args_def)

context redis_server
begin

lemma incr_counts:
  assumes "counts (view s now k) n" and "\<bar>d\<bar> \<le> 2 ^ 52" and "\<bar>n + d\<bar> \<le> 2 ^ 52"
  shows "snd (INCRBY r now k d s) = Inr (n + d)" and "counts (view (fst (INCRBY r now k d s)) now k) (n + d)"
    and "k' \<noteq> k \<Longrightarrow> view (fst (INCRBY r now k d s)) now k' = view s now k'"
proof -
  have b: "in_int64 d" "in_int64 n" "in_int64 (n + d)" using assms by (auto simp: in_int64_def counts_def)
  have "snd (INCRBY r now k d s) = Inr (n + d) \<and> counts (view (fst (INCRBY r now k d s)) now k) (n + d) \<and>
      (k' \<noteq> k \<longrightarrow> view (fst (INCRBY r now k d s)) now k' = view s now k')"
  proof (cases "view s now k")
    case None
    with assms INCRBY_absent [OF None b(1)] show ?thesis by (simp add: counts_def)
  next
    case (Some e)
    with assms(1) have "rvalue e = FormatInt n" by (simp add: counts_def)
    from INCRBY_present [OF Some this b(2,3)] assms(3) show ?thesis by (simp add: counts_def)
  qed
  then show "snd (INCRBY r now k d s) = Inr (n + d)" "counts (view (fst (INCRBY r now k d s)) now k) (n + d)"
    "k' \<noteq> k \<Longrightarrow> view (fst (INCRBY r now k d s)) now k' = view s now k'" by blast+
qed

lemma expire_counts:
  assumes "0 < ms"
  shows "counts (view (fst (PEXPIRE r now k ms s)) now k') n \<longleftrightarrow> counts (view s now k') n"
  by (cases "view s now k") (auto simp: PEXPIRE_view [OF assms] counts_def)

lemma get_counts:
  assumes "counts (view s now k) n"
  obtains s' x where "GET r now k s = (s', x)" and "lua_counter x = Some n" and "view s' now = view s now"
  using counts_lua [OF assms] GET_value [of now k s] GET_view [of now k s] by (cases "GET r now k s") simp

text \<open>One round of the second loop.\<close>

lemma increment_once:
  assumes "counts (view s now k) n" and "\<bar>d\<bar> \<le> 2 ^ 52" and "\<bar>n + d\<bar> \<le> 2 ^ 52"
  obtains s1 s' z where "INCRBY r now k d s = (s1, Inr (n + d))" and "PEXPIRE r now k 120000 s1 = (s', z)"
    and "counts (view s' now k) (n + d)" and "\<And>k'. k' \<noteq> k \<Longrightarrow> view s' now k' = view s now k'"
proof -
  obtain s1 where i: "INCRBY r now k d s = (s1, Inr (n + d))" using incr_counts(1) [OF assms] by (metis prod.collapse)
  have c: "counts (view s1 now k) (n + d)" and o: "k' \<noteq> k \<Longrightarrow> view s1 now k' = view s now k'" for k'
    using incr_counts(2) [OF assms] incr_counts(3) [OF assms, of k'] by (simp_all add: i)
  obtain s' z where p: "PEXPIRE r now k 120000 s1 = (s', z)" by fastforce
  have "counts (view s' now k) (n + d)" "\<And>k'. k' \<noteq> k \<Longrightarrow> view s' now k' = view s now k'"
    using expire_counts [of 120000 now k s1 k "n + d"] c o PEXPIRE_view [of 120000 now k s1] by (simp_all add: p)
  with i p show thesis by (rule that)
qed

lemma lua_check_two:
  assumes "counts (view s now a) m" and "counts (view s now b) n"
    and "\<bar>la\<bar> \<le> 2 ^ 50" "\<bar>lb\<bar> \<le> 2 ^ 50" "\<bar>e\<bar> \<le> 2 ^ 50" "\<bar>m\<bar> \<le> 2 ^ 50" "\<bar>n\<bar> \<le> 2 ^ 50"
  obtains s' rs where "lua_check r now 0 [a, b] (rl_args la lb e) s =
      (s', Inr (if la < m + 1 then Some 0 else if lb < n + e then Some 1 else None, rs))"
    and "view s' now = view s now" and "length rs \<le> 2"
proof -
  obtain s1 x where g1: "GET r now a s = (s1, x)" "lua_counter x = Some m" "view s1 now = view s now" by (rule get_counts [OF assms(1)])
  with assms(2) have "counts (view s1 now b) n" by simp
  then obtain s2 y where g2: "GET r now b s1 = (s2, y)" "lua_counter y = Some n" "view s2 now = view s1 now" by (rule get_counts)
  have "lua_check r now 0 [a, b] (rl_args la lb e) s =
      (if la < m + 1 then (s1, Inr (Some 0, [])) else if lb < n + e then (s2, Inr (Some 1, [la - m - 1]))
       else (s2, Inr (None, [la - m - 1, lb - n - e])))"
    using assms(3-7) by (simp add: g1 g2 rl_args_nth lua_small)
  then show thesis using g1(3) g2(3) that by (cases "la < m + 1"; cases "lb < n + e") auto
qed

lemma check_denied:
  assumes "counts (view s now a) m" and "counts (view s now b) n" and "la < m + 1 \<or> lb < n + e"
    and "\<bar>la\<bar> \<le> 2 ^ 50" "\<bar>lb\<bar> \<le> 2 ^ 50" "\<bar>e\<bar> \<le> 2 ^ 50" "\<bar>m\<bar> \<le> 2 ^ 50" "\<bar>n\<bar> \<le> 2 ^ 50"
  obtains s' rs where "luaCheckAndIncrement r now [a, b] (rl_args la lb e) s = (s', Inr (AArray (map AInt64 ([0, if la < m + 1 then 0 else 1] @ rs))))"
    and "view s' now = view s now"
proof -
  obtain s' rs where c: "lua_check r now 0 [a, b] (rl_args la lb e) s =
      (s', Inr (if la < m + 1 then Some 0 else if lb < n + e then Some 1 else None, rs))" "view s' now = view s now"
    by (rule lua_check_two [OF assms(1,2,4-8)])
  show thesis
    by (rule that [of s' "rs @ replicate (2 - length rs) 0"]) (use c assms(3) in \<open>auto simp: luaCheckAndIncrement_def\<close>)
qed

lemma check_passed:
  assumes "counts (view s now a) m" and "counts (view s now b) n" and "a \<noteq> b" and "m + 1 \<le> la" and "n + e \<le> lb"
    and "\<bar>la\<bar> \<le> 2 ^ 50" "\<bar>lb\<bar> \<le> 2 ^ 50" "\<bar>e\<bar> \<le> 2 ^ 50" "\<bar>m\<bar> \<le> 2 ^ 50" "\<bar>n\<bar> \<le> 2 ^ 50"
  obtains s' where "luaCheckAndIncrement r now [a, b] (rl_args la lb e) s =
      (s', Inr (AArray (map AInt64 [1, - 1, la - (m + 1), lb - (n + e)])))"
    and "counts (view s' now a) (m + 1)" and "counts (view s' now b) (n + e)" and "\<And>k. k \<noteq> a \<Longrightarrow> k \<noteq> b \<Longrightarrow> view s' now k = view s now k"
proof -
  obtain s0 rs where "lua_check r now 0 [a, b] (rl_args la lb e) s =
      (s0, Inr (if la < m + 1 then Some 0 else if lb < n + e then Some 1 else None, rs))" and v: "view s0 now = view s now"
    by (rule lua_check_two [OF assms(1,2,6-10)])
  with assms(4,5) have c: "lua_check r now 0 [a, b] (rl_args la lb e) s = (s0, Inr (None, rs))" by simp
  have "counts (view s0 now a) m" using assms(1) v by simp
  then obtain s1 s2 z where i1: "INCRBY r now a 1 s0 = (s1, Inr (m + 1))" "PEXPIRE r now a 120000 s1 = (s2, z)"
      "counts (view s2 now a) (m + 1)" "\<And>k. k \<noteq> a \<Longrightarrow> view s2 now k = view s0 now k"
    by (rule increment_once [where d = 1]) (use assms(9) in auto)
  then have "counts (view s2 now b) n" using assms(2,3) v by simp
  then obtain s3 s4 y where i2: "INCRBY r now b e s2 = (s3, Inr (n + e))" "PEXPIRE r now b 120000 s3 = (s4, y)"
      "counts (view s4 now b) (n + e)" "\<And>k. k \<noteq> b \<Longrightarrow> view s4 now k = view s2 now k"
    by (rule increment_once [where d = e]) (use assms(8,10) in auto)
  have "lua_increment r now 0 [a, b] (rl_args la lb e) s0 = (s4, Inr [la - (m + 1), lb - (n + e)])"
    using assms(6-10) by (simp add: rl_args_nth lua_small i1 i2)
  with c i1 i2 v assms(3) show thesis by (intro that [of s4]) (simp_all add: luaCheckAndIncrement_def)
qed

lemma acquire_counts:
  assumes "counts (view s now k) c" and "\<bar>cap\<bar> \<le> 2 ^ 50" "\<bar>c\<bar> \<le> 2 ^ 50"
  obtains s' where "luaConcurrencyAcquire r now [k] [FormatInt cap, FormatInt 120] s = (s', Inr (AInt64 (if c < cap then 1 else 0)))"
    and "counts (view s' now k) (if c < cap then c + 1 else c)" and "\<And>k'. k' \<noteq> k \<Longrightarrow> view s' now k' = view s now k'"
proof -
  obtain s0 x where g: "GET r now k s = (s0, x)" "lua_counter x = Some c" "view s0 now = view s now" by (rule get_counts [OF assms(1)])
  then have "counts (view s0 now k) c" using assms(1) by simp
  then obtain s1 s2 z where i: "INCRBY r now k 1 s0 = (s1, Inr (c + 1))" "PEXPIRE r now k 120000 s1 = (s2, z)"
      "counts (view s2 now k) (c + 1)" "\<And>k'. k' \<noteq> k \<Longrightarrow> view s2 now k' = view s0 now k'"
    by (rule increment_once [where d = 1]) (use assms(3) in auto)
  show thesis
  proof (cases "c < cap")
    case True
    with g i assms(2) show thesis by (intro that [of s2]) (simp_all add: luaConcurrencyAcquire_def lua_small)
  next
    case False
    with g assms show thesis by (intro that [of s0]) (simp_all add: luaConcurrencyAcquire_def lua_small)
  qed
qed

lemma undo_counts:
  assumes "counts (view s now a) (m + 1)" and "counts (view s now b) (n + e)" and "a \<noteq> b"
    and "\<bar>e\<bar> \<le> 2 ^ 50" "\<bar>m\<bar> \<le> 2 ^ 50" "\<bar>n\<bar> \<le> 2 ^ 50"
  shows "counts (view (undo_increments r Delivered now a b e s) now a) m"
    and "counts (view (undo_increments r Delivered now a b e s) now b) n"
    and "k \<noteq> a \<Longrightarrow> k \<noteq> b \<Longrightarrow> view (undo_increments r Delivered now a b e s) now k = view s now k"
proof -
  define s1 where "s1 = fst (INCRBY r now a (- 1) s)"
  have i1: "counts (view s1 now a) m" and o1: "k' \<noteq> a \<Longrightarrow> view s1 now k' = view s now k'" for k'
    unfolding s1_def using incr_counts(2,3) [OF assms(1), of "- 1"] assms(5) by simp_all
  have "counts (view s1 now b) (n + e)" using o1 [of b] assms(2,3) by simp
  note i2 = incr_counts(2,3) [OF this, of "- e"]
  have u: "undo_increments r Delivered now a b e s = fst (INCRBY r now b (- e) s1)" by (simp add: undo_increments_def client_call_def s1_def)
  show "counts (view (undo_increments r Delivered now a b e s) now a) m" "counts (view (undo_increments r Delivered now a b e s) now b) n"
    "k \<noteq> a \<Longrightarrow> k \<noteq> b \<Longrightarrow> view (undo_increments r Delivered now a b e s) now k = view s now k"
    unfolding u using i1 i2 o1 assms(3-6) by simp_all
qed

lemma toInt64s_ints [simp]: "toInt64s (map AInt64 ns) = Inr ns"
  by (induction ns) simp_all

lemma check_contract:
  fixes identity limits est v s
  defines "p \<equiv> KeyPrefix identity" and "mk \<equiv> go_div (Unix (rl_wall v)) 60"
  defines "ka \<equiv> rpm_key p mk" and "kb \<equiv> tpm_key p mk" and "kc \<equiv> conc_key p"
  assumes net: "l_check v = Delivered" "l_conc v = Delivered" "l_undo v = Delivered"
    and clock: "at_check v = now" "at_conc v = now" "at_undo v = now"
    and cnt: "counts (view s now ka) a" "counts (view s now kb) b" "counts (view s now kc) c"
    and small: "\<bar>RPM limits\<bar> \<le> 2 ^ 50" "\<bar>TPM limits\<bar> \<le> 2 ^ 50" "\<bar>est\<bar> \<le> 2 ^ 50" "\<bar>a\<bar> \<le> 2 ^ 50" "\<bar>b\<bar> \<le> 2 ^ 50"
      "\<bar>Concurrency limits\<bar> \<le> 2 ^ 50" "\<bar>c\<bar> \<le> 2 ^ 50"
  obtains s' res where "CheckPreRequest (Some r) v identity limits est s = (s', res)"
    and "if a + 1 \<le> RPM limits \<and> b + est \<le> TPM limits \<and> c < Concurrency limits
      then Allowed res \<and> ConcurrencyAcquired res \<and> RemainingRequests res = RPM limits - (a + 1) \<and> RemainingTokens res = TPM limits - (b + est) \<and>
        counts (view s' now ka) (a + 1) \<and> counts (view s' now kb) (b + est) \<and> counts (view s' now kc) (c + 1)
      else \<not> Allowed res \<and> \<not> ConcurrencyAcquired res \<and>
        DenyReason res = (if RPM limits < a + 1 then ''rpm'' else if TPM limits < b + est then ''tpm'' else ''concurrency'') \<and>
        counts (view s' now ka) a \<and> counts (view s' now kb) b \<and> counts (view s' now kc) c"
proof -
  have keys: "ka \<noteq> kb" "ka \<noteq> kc" "kb \<noteq> kc" by (simp_all add: ka_def kb_def kc_def rl_keys_distinct)
  note defs = CheckPreRequest_def net clock client_call_def Let_def Int64Slice_def Int64_def
    p_def [symmetric] mk_def [symmetric] ka_def [symmetric] kb_def [symmetric] kc_def [symmetric] rl_args_def [symmetric]
  show thesis
  proof (cases "RPM limits < a + 1 \<or> TPM limits < b + est")
    case True
    obtain s' rs where "luaCheckAndIncrement r now [ka, kb] (rl_args (RPM limits) (TPM limits) est) s =
        (s', Inr (AArray (map AInt64 ([0, if RPM limits < a + 1 then 0 else 1] @ rs))))" "view s' now = view s now"
      by (rule check_denied [OF cnt(1,2) True small(1-5)])
    with True cnt show thesis
      by (intro that [of s' "denied_window limits mk (rl_until v) (if RPM limits < a + 1 then 0 else 1)"])
        (auto simp: defs denied_window_def)
  next
    case False
    then have le: "a + 1 \<le> RPM limits" "b + est \<le> TPM limits" by auto
    obtain s1 where s1: "luaCheckAndIncrement r now [ka, kb] (rl_args (RPM limits) (TPM limits) est) s =
        (s1, Inr (AArray (map AInt64 [1, - 1, RPM limits - (a + 1), TPM limits - (b + est)])))"
        "counts (view s1 now ka) (a + 1)" "counts (view s1 now kb) (b + est)" "\<And>k. k \<noteq> ka \<Longrightarrow> k \<noteq> kb \<Longrightarrow> view s1 now k = view s now k"
      by (rule check_passed [OF cnt(1,2) keys(1) le small(1-5)]) blast
    then have "counts (view s1 now kc) c" using keys cnt(3) by simp
    then obtain s2 where s2: "luaConcurrencyAcquire r now [kc] [FormatInt (Concurrency limits), FormatInt 120] s1 =
          (s2, Inr (AInt64 (if c < Concurrency limits then 1 else 0)))"
        "counts (view s2 now kc) (if c < Concurrency limits then c + 1 else c)" "\<And>k. k \<noteq> kc \<Longrightarrow> view s2 now k = view s1 now k"
      by (rule acquire_counts [OF _ small(6,7)]) blast
    have ab: "counts (view s2 now ka) (a + 1)" "counts (view s2 now kb) (b + est)" using s1 s2(3) keys by simp_all
    note undo = undo_counts [OF ab keys(1) small(3-5)]
    show thesis
    proof (cases "c < Concurrency limits")
      case True
      obtain res where "CheckPreRequest (Some r) v identity limits est s = (s2, res)" "Allowed res" "ConcurrencyAcquired res"
          "RemainingRequests res = RPM limits - (a + 1)" "RemainingTokens res = TPM limits - (b + est)"
        using s1(1) s2(1) True by (simp add: defs)
      with True le ab s2(2) show thesis by (intro that [of s2 res]) simp_all
    next
      case False
      obtain res where "CheckPreRequest (Some r) v identity limits est s = (undo_increments r Delivered now ka kb est s2, res)" "\<not> Allowed res"
          "\<not> ConcurrencyAcquired res" "DenyReason res = ''concurrency''"
        using s1(1) s2(1) False by (simp add: defs)
      with False le undo s2(2) keys show thesis by (intro that [of "undo_increments r Delivered now ka kb est s2" res]) simp_all
    qed
  qed
qed

end

section \<open>Properties\<close>



definition sample_identity :: request_identity where
  "sample_identity = \<lparr>UserID = 7, IdTenantID = 0, APIKeyID = 0, Model = [], AuthType = ''user''\<rparr>"


text \<open>C34: The correction after a response can create a counter that never expires. If the window's token counter has expired when the response is
  accounted for, the correction creates it anew, and as it sets no time to live the key is there, with that value, at every later time.\<close>
theorem token_correction_immortal:
  assumes "redis_server r view" and "view s now (tpm_key (KeyPrefix identity) mk) = None"
    and "d = wrap64 (actual - estimated)" and "d \<noteq> 0" and "now \<le> t"
  shows "view (TrackPostResponse (Some r) l now Delivered now identity estimated actual mk False s) t (tpm_key (KeyPrefix identity) mk) =
    Some \<lparr>rvalue = FormatInt d, deadline = None\<rparr>"
proof -
  let ?k = "tpm_key (KeyPrefix identity) mk"
  have "in_int64 d" using assms(3) by simp
  have "view (fst (INCRBY r now ?k d s)) now ?k = Some \<lparr>rvalue = FormatInt d, deadline = None\<rparr>"
    using redis_server.INCRBY_absent [OF assms(1,2) \<open>in_int64 d\<close>] by simp
  then have "view (fst (INCRBY r now ?k d s)) t ?k = Some \<lparr>rvalue = FormatInt d, deadline = None\<rparr>"
    by (rule redis_server.view_stays [OF assms(1)]) (use assms(5) in \<open>simp_all add: live_def\<close>)
  with assms(3,4) show ?thesis by (simp add: TrackPostResponse_def client_call_def Let_def)
qed

theorem token_correction_immortal_witness:
  "mini_view (TrackPostResponse (Some mini_redis) Delivered 9 Delivered 9 sample_identity 500 20 3 False Map.empty) (9 + 1000 * hour)
     (tpm_key (KeyPrefix sample_identity) 3) = Some \<lparr>rvalue = ''-480'', deadline = None\<rparr>"
proof -
  have "wrap64 (20 - 500) = - 480" by (simp add: wrap64_id in_int64_def)
  moreover have "FormatInt (- 480) = ''-480''"
    by (simp add: FormatInt_def FormatUint.simps [of 480] FormatUint.simps [of 48] FormatUint.simps [of 4] digit_char_def char_of_def bit_iff_odd)
  ultimately show ?thesis
    using token_correction_immortal [OF mini.redis_server_axioms, of Map.empty 9 sample_identity 3 "- 480" 20 500 "9 + 1000 * hour" Delivered]
    by (simp add: mini_view_def)
qed

text \<open>The estimate of a request's tokens is between 2 and 128500 for every body, be it valid JSON or not.\<close>
theorem estimate_bounds: "2 \<le> EstimateTotalTokens ff pn body \<and> EstimateTotalTokens ff pn body \<le> 128500"
proof -
  have "1 \<le> estimateInputTokens ff pn body \<and> estimateInputTokens ff pn body \<le> 128000"
    by (simp add: estimateInputTokens_def maxInputTokenEstimate_def Let_def)
  moreover have "1 \<le> estimateOutputTokens body \<and> estimateOutputTokens body \<le> 500"
    by (simp add: estimateOutputTokens_def split: option.split json.split)
  ultimately show ?thesis by (simp add: EstimateTotalTokens_def)
qed

end
