(* ===== verification/Go_Regexp.thy ===== *)
theory Go_Regexp
  imports Go_Strings
begin

text \<open>
  The part of \<^verbatim>\<open>regexp\<close> that the repository's patterns use: sequences and alternatives of literals, repeated character
  classes and word boundaries. A class of ASCII characters or a literal never matches inside a multi-byte rune, so
  that matching byte by byte agrees with matching rune by rune; the boundary assertion of Go looks at ASCII word characters only.

  Go matches leftmost first: of the matches that start leftmost it takes the one a backtracking search finds first.
  \<open>ends\<close> lists the lengths of the matches at a position in the order of that search.
\<close>

datatype regex =
    Cls "char \<Rightarrow> bool" nat "nat option" \<comment> \<open>a class, repeated at least and at most so often, greedily\<close>
  | Str string
  | Bound
  | Seq regex regex
  | Alt regex regex

definition word_byte :: "char \<Rightarrow> bool" where
  "word_byte c \<longleftrightarrow> 48 \<le> byte_of c \<and> byte_of c \<le> 57 \<or> 65 \<le> byte_of c \<and> byte_of c \<le> 90 \<or> 97 \<le> byte_of c \<and> byte_of c \<le> 122 \<or> byte_of c = 95"

definition word_at :: "char option \<Rightarrow> bool" where
  "word_at c = (case c of None \<Rightarrow> False | Some c \<Rightarrow> word_byte c)"

definition first_byte :: "string \<Rightarrow> char option" where
  "first_byte s = (case s of [] \<Rightarrow> None | c # _ \<Rightarrow> Some c)"

text \<open>The byte before the position that is reached after \<open>n\<close> bytes.\<close>

definition before :: "char option \<Rightarrow> string \<Rightarrow> nat \<Rightarrow> char option" where
  "before prev s n = (if n = 0 then prev else Some (s ! (n - 1)))"

definition class_run :: "(char \<Rightarrow> bool) \<Rightarrow> nat option \<Rightarrow> string \<Rightarrow> nat" where
  "class_run P most s = (let n = length (takeWhile P s) in case most of None \<Rightarrow> n | Some m \<Rightarrow> min m n)"

fun ends :: "regex \<Rightarrow> char option \<Rightarrow> string \<Rightarrow> nat list" where
  "ends (Cls P least most) prev s = rev [least..<Suc (class_run P most s)]"
| "ends (Str t) prev s = (if HasPrefix s t then [length t] else [])"
| "ends Bound prev s = (if word_at prev \<noteq> word_at (first_byte s) then [0] else [])"
| "ends (Seq a b) prev s =
     concat (map (\<lambda>n. map (\<lambda>m. n + m) (ends b (before prev s n) (drop n s))) (ends a prev s))"
| "ends (Alt a b) prev s = ends a prev s @ ends b prev s"

definition match_at :: "regex \<Rightarrow> char option \<Rightarrow> string \<Rightarrow> nat option" where
  "match_at re prev s = (case ends re prev s of [] \<Rightarrow> None | n # _ \<Rightarrow> Some n)"

text \<open>\<^verbatim>\<open>ReplaceAllStringFunc\<close> for a pattern that matches no empty string.\<close>

function replace_all :: "regex \<Rightarrow> (string \<Rightarrow> string) \<Rightarrow> char option \<Rightarrow> string \<Rightarrow> string" where
  "replace_all re f prev [] = []"
| "replace_all re f prev (c # cs) =
     (case match_at re prev (c # cs) of
        Some (Suc n) \<Rightarrow> f (take (Suc n) (c # cs)) @ replace_all re f (before prev (c # cs) (Suc n)) (drop n cs)
      | _ \<Rightarrow> c # replace_all re f (Some c) cs)"
  by pat_completeness auto
termination by (relation "measure (\<lambda>(re, f, prev, s). length s)") auto

declare replace_all.simps(2) [simp del]

definition ReplaceAllStringFunc :: "regex \<Rightarrow> string \<Rightarrow> (string \<Rightarrow> string) \<Rightarrow> string" where
  "ReplaceAllStringFunc re s f = replace_all re f None s"

text \<open>A sequence of several parts.\<close>

fun Seqs :: "regex list \<Rightarrow> regex" where
  "Seqs [] = Str []"
| "Seqs [a] = a"
| "Seqs (a # as) = Seq a (Seqs as)"

section \<open>Whole words\<close>

text \<open>A pattern that matches exactly the words with a property: at the start of a word it matches all of it or nothing, and
  elsewhere nothing.\<close>

definition whole_word :: "regex \<Rightarrow> (string \<Rightarrow> bool) \<Rightarrow> bool" where
  "whole_word re W \<longleftrightarrow>
     (\<forall>prev s. match_at re prev s =
        (let w = takeWhile word_byte s in if \<not> word_at prev \<and> w \<noteq> [] \<and> W w then Some (length w) else None))"

text \<open>The reference: cut into maximal words and single other bytes, and replace word by word.\<close>

function replace_words :: "(string \<Rightarrow> bool) \<Rightarrow> (string \<Rightarrow> string) \<Rightarrow> string \<Rightarrow> string" where
  "replace_words W f [] = []"
| "replace_words W f (c # cs) =
     (if word_byte c
      then (let w = takeWhile word_byte (c # cs) in (if W w then f w else w) @ replace_words W f (dropWhile word_byte cs))
      else c # replace_words W f cs)"
  by pat_completeness auto
termination by (relation "measure (\<lambda>(W, f, s). length s)") (auto simp: length_dropWhile_le le_imp_less_Suc)

declare replace_words.simps(2) [simp del]

lemma replace_inside_word:
  assumes "whole_word re W" and "word_at prev"
  shows "replace_all re f prev s =
    takeWhile word_byte s @ replace_all re f (if takeWhile word_byte s = [] then prev else Some (last (takeWhile word_byte s))) (dropWhile word_byte s)"
  using assms(2)
proof (induction s arbitrary: prev)
  case (Cons c cs)
  show ?case
  proof (cases "word_byte c")
    case True
    then have "match_at re prev (c # cs) = None" using assms(1) Cons.prems by (simp add: whole_word_def)
    moreover have "word_at (Some c)" using True by (simp add: word_at_def)
    ultimately show ?thesis using True Cons.IH [of "Some c"] by (simp add: replace_all.simps(2))
  qed simp
qed simp

lemma replace_all_words:
  assumes "whole_word re W" and "\<not> word_at prev \<or> s = [] \<or> \<not> word_byte (hd s)"
  shows "replace_all re f prev s = replace_words W f s"
  using assms(2)
proof (induction s arbitrary: prev rule: length_induct)
  case (1 s)
  show ?case
  proof (cases s)
    case (Cons c cs)
    let ?w = "takeWhile word_byte (c # cs)" and ?rest = "dropWhile word_byte cs"
    have rest: "?rest = [] \<or> \<not> word_byte (hd ?rest)" by (metis hd_dropWhile)
    have short: "length ?rest < length s" "length cs < length s" using Cons by (auto simp: length_dropWhile_le le_imp_less_Suc)
    have m: "match_at re prev (c # cs) = (if \<not> word_at prev \<and> ?w \<noteq> [] \<and> W ?w then Some (length ?w) else None)"
      using assms(1) by (simp add: whole_word_def Let_def)
    show ?thesis
    proof (cases "word_byte c")
      case True
      then have prev: "\<not> word_at prev" using 1(2) Cons by simp
      have cut: "take (length ?w) (c # cs) = ?w" "drop (length (takeWhile word_byte cs)) cs = ?rest"
        by (metis append_eq_conv_conj takeWhile_dropWhile_id)+
      show ?thesis
      proof (cases "W ?w")
        case w: True
        have "replace_all re f (before prev (c # cs) (length ?w)) ?rest = replace_words W f ?rest"
          using 1(1) short(1) rest by blast
        with True w prev m cut Cons show ?thesis by (simp add: replace_all.simps(2) replace_words.simps(2))
      next
        case False
        have "word_at (Some c)" using True by (simp add: word_at_def)
        from replace_inside_word [OF assms(1) this, of f cs]
        have "replace_all re f (Some c) cs = takeWhile word_byte cs @ replace_words W f ?rest" using 1(1) short(1) rest by simp
        with True False m Cons show ?thesis by (simp add: replace_all.simps(2) replace_words.simps(2))
      qed
    next
      case False
      then have "\<not> word_at (Some c)" by (simp add: word_at_def)
      with 1(1) short(2) have "replace_all re f (Some c) cs = replace_words W f cs" by blast
      with False m Cons show ?thesis by (simp add: replace_all.simps(2) replace_words.simps(2))
    qed
  qed simp
qed

text \<open>The words of a text, and what replacing does to them.\<close>

function words :: "string \<Rightarrow> string list" where
  "words [] = []"
| "words (c # cs) = (if word_byte c then takeWhile word_byte (c # cs) # words (dropWhile word_byte cs) else words cs)"
  by pat_completeness auto
termination by (relation "measure length") (auto simp: length_dropWhile_le le_imp_less_Suc)

declare words.simps(2) [simp del]

lemma words_append:
  assumes "rest = [] \<or> \<not> word_byte (hd rest)"
  shows "words (u @ rest) = words u @ words rest"
proof (induction u rule: length_induct)
  case (1 u)
  show ?case
  proof (cases u)
    case (Cons c cs)
    show ?thesis
    proof (cases "word_byte c")
      case True
      have "takeWhile word_byte (cs @ rest) = takeWhile word_byte cs \<and> dropWhile word_byte (cs @ rest) = dropWhile word_byte cs @ rest"
      proof (cases "list_all word_byte cs")
        case True
        with assms have "takeWhile word_byte rest = [] \<and> dropWhile word_byte rest = rest" by (cases rest) auto
        moreover have "takeWhile word_byte cs = cs" "dropWhile word_byte cs = []" using True by (simp_all add: list_all_iff)
        moreover have "takeWhile word_byte (cs @ rest) = cs @ takeWhile word_byte rest" "dropWhile word_byte (cs @ rest) = dropWhile word_byte rest"
          using True by (simp_all add: list_all_iff)
        ultimately show ?thesis by (metis append_Nil append_Nil2)
      next
        case False
        then obtain x where "x \<in> set cs" "\<not> word_byte x" by (auto simp: list_all_iff)
        then show ?thesis by (simp add: takeWhile_append1 dropWhile_append1)
      qed
      moreover have "length (dropWhile word_byte cs) < length u" using Cons by (simp add: length_dropWhile_le le_imp_less_Suc)
      ultimately show ?thesis using 1 True Cons by (simp add: words.simps(2))
    next
      case False
      with 1 Cons show ?thesis by (simp add: words.simps(2))
    qed
  qed simp
qed

lemma hd_replace_words:
  assumes "s = [] \<or> \<not> word_byte (hd s)"
  shows "replace_words W f s = [] \<or> \<not> word_byte (hd (replace_words W f s))"
  using assms by (cases s) (simp_all add: replace_words.simps(2))

lemma words_single: "word_byte c \<Longrightarrow> words (takeWhile word_byte (c # cs)) = [takeWhile word_byte (c # cs)]"
  by (simp add: words.simps(2) takeWhile_idem) (metis dropWhile_eq_Nil_conv set_takeWhileD words.simps(1))

lemma words_replace:
  "words (replace_words W f s) = concat (map (\<lambda>w. if W w then words (f w) else [w]) (words s))"
proof (induction s rule: length_induct)
  case (1 s)
  show ?case
  proof (cases s)
    case (Cons c cs)
    have short: "length (dropWhile word_byte cs) < length s" "length cs < length s"
      using Cons by (simp_all add: length_dropWhile_le le_imp_less_Suc)
    let ?rest = "replace_words W f (dropWhile word_byte cs)"
    show ?thesis
    proof (cases "word_byte c")
      case True
      have "dropWhile word_byte cs = [] \<or> \<not> word_byte (hd (dropWhile word_byte cs))" by (metis hd_dropWhile)
      from words_append [OF hd_replace_words [OF this]] have "words (u @ ?rest) = words u @ words ?rest" for u .
      with 1 short(1) True Cons words_single [OF True, of cs] show ?thesis
        by (simp add: replace_words.simps(2) words.simps(2) Let_def)
    next
      case False
      have "words (c # replace_words W f cs) = words (replace_words W f cs)" using False by (simp add: words.simps(2))
      with 1 short(2) False Cons show ?thesis by (simp add: replace_words.simps(2) words.simps(2))
    qed
  qed simp
qed

end
