(* ===== verification/Pii.thy ===== *)
theory Pii
  imports Go_Regexp Go_Utf8 "HOL-Library.Code_Target_Nat"
begin

text \<open>
  The package \<^verbatim>\<open>pii\<close> (\<^verbatim>\<open>pii.go\<close>): tables of patterns with a redaction for each, and the redactor that applies the tables of a
  jurisdiction before the universal one.
\<close>

section \<open>Redactions\<close>

definition ascii_digit :: "char \<Rightarrow> bool" where
  "ascii_digit c \<longleftrightarrow> 48 \<le> byte_of c \<and> byte_of c \<le> 57"

text \<open>The loop runs over runes, but only digits are kept, and these are single bytes that occur in no other rune.\<close>

definition keepDigits :: "string \<Rightarrow> string" where
  "keepDigits s = filter ascii_digit s"

definition redactEmail :: "string \<Rightarrow> string" where
  "redactEmail m =
     (case IndexByte m CHR ''@'' of
        None \<Rightarrow> ''[REDACTED:EMAIL]''
      | Some at \<Rightarrow> if at < 1 then ''[REDACTED:EMAIL]'' else take 1 m @ ''***@'' @ drop (at + 1) m)"

definition redactBankCard :: "string \<Rightarrow> string" where
  "redactBankCard m =
     (let digits = keepDigits m
      in if length digits < 13 \<or> length digits > 19 then m
         else take 4 digits @ '' **** **** '' @ drop (length digits - 4) digits)"

definition redactIPv4 :: "string \<Rightarrow> string" where
  "redactIPv4 m =
     (let parts = SplitByte CHR ''.'' m
      in if length parts \<noteq> 4 then m
         else if list_ex (\<lambda>p. length p < 1 \<or> length p > 3 \<or> list_ex (\<lambda>r. r < 48 \<or> r > 57) (range_runes p)) parts then m
         else parts ! 0 @ ''.'' @ parts ! 1 @ ''.*.*'')"

definition redactRUPhone :: "string \<Rightarrow> string" where
  "redactRUPhone m =
     (let digits = keepDigits m; final = drop (length digits - 2) digits
      in if length digits < 11 then m
         else if hd digits = CHR ''8'' \<and> length digits = 11 then ''+7-'' @ take 3 (drop 1 digits) @ ''-***-**-'' @ final
         else if hd digits = CHR ''7'' \<and> length digits \<ge> 11 then ''+7-'' @ take 3 (drop 1 digits) @ ''-***-**-'' @ final
         else ''+7-***-***-**-'' @ final)"

definition redactCNPhone :: "string \<Rightarrow> string" where
  "redactCNPhone m =
     (let digits = keepDigits m
      in if length digits \<noteq> 11 then m else take 3 digits @ ''****'' @ drop (length digits - 4) digits)"

definition redactINNCandidate :: "string \<Rightarrow> string" where
  "redactINNCandidate m = (if length m = 10 \<or> length m = 12 then ''[REDACTED:INN]'' else m)"

section \<open>Rules\<close>

record rule =
  pattern :: regex
  apply_rule :: "string \<Rightarrow> string"
  label :: string

definition ascii_alnum :: "char \<Rightarrow> bool" where
  "ascii_alnum c \<longleftrightarrow> ascii_digit c \<or> 65 \<le> byte_of c \<and> byte_of c \<le> 90 \<or> 97 \<le> byte_of c \<and> byte_of c \<le> 122"

definition ascii_alpha :: "char \<Rightarrow> bool" where
  "ascii_alpha c \<longleftrightarrow> 65 \<le> byte_of c \<and> byte_of c \<le> 90 \<or> 97 \<le> byte_of c \<and> byte_of c \<le> 122"

text \<open>\<^verbatim>\<open>\s\<close> of Go.\<close>

definition re_space :: "char \<Rightarrow> bool" where
  "re_space c \<longleftrightarrow> byte_of c \<in> {9, 10, 12, 13, 32}"

definition or_in :: "(char \<Rightarrow> bool) \<Rightarrow> string \<Rightarrow> char \<Rightarrow> bool" where
  "or_in P cs c \<longleftrightarrow> P c \<or> c \<in> set cs"

abbreviation digits_re :: "nat \<Rightarrow> regex" where
  "digits_re n \<equiv> Cls ascii_digit n (Some n)"

abbreviation opt_in :: "(char \<Rightarrow> bool) \<Rightarrow> regex" where
  "opt_in P \<equiv> Cls P 0 (Some 1)"

definition jwt_rule :: rule where
  "jwt_rule = \<lparr>
     pattern = (let seg = Cls (or_in ascii_alnum ''_-'') 16 None in Seqs [Bound, Str ''eyJ'', seg, Str ''.'', seg, Str ''.'', seg, Bound]),
     apply_rule = (\<lambda>_. ''[REDACTED:JWT]''), label = ''jwt''\<rparr>"

text \<open>A letter without regard to case: \<^verbatim>\<open>k\<close> also stands for the Kelvin sign U+212A, \<^verbatim>\<open>s\<close> for the long s U+017F.\<close>

definition fold_letter :: "char \<Rightarrow> regex" where
  "fold_letter c =
     (let both = Cls (\<lambda>x. x = c \<or> x = upper_char c) 1 (Some 1)
      in if c = CHR ''k'' then Alt both (Str [char_of (0xE2 :: nat), char_of (0x84 :: nat), char_of (0xAA :: nat)])
         else if c = CHR ''s'' then Alt both (Str [char_of (0xC5 :: nat), char_of (0xBF :: nat)])
         else both)"

definition api_key_rule :: rule where
  "api_key_rule = \<lparr>
     pattern =
       (let dash = Cls (\<lambda>c. c \<in> set ''_-'') 1 (Some 1)
        in Seqs [Bound,
             Alt (Seqs (map fold_letter ''sk'')) (Alt (Seqs (map fold_letter ''pk''))
               (Seqs (map fold_letter ''api'' @ [opt_in (\<lambda>c. c \<in> set ''_-'')] @ map fold_letter ''key''))),
             dash, Cls (or_in ascii_alnum ''_'') 16 None, Bound]),
     apply_rule = (\<lambda>_. ''[REDACTED:APIKEY]''), label = ''api_key''\<rparr>"

definition bank_card_rule :: rule where
  "bank_card_rule = \<lparr>
     pattern = (let sep = opt_in (or_in re_space ''-'') in
       Seqs [Bound, digits_re 4, sep, digits_re 4, sep, digits_re 4, sep, Cls ascii_digit 1 (Some 7), Bound]),
     apply_rule = redactBankCard, label = ''bank_card''\<rparr>"

definition email_rule :: rule where
  "email_rule = \<lparr>
     pattern = Seqs [Bound, Cls (or_in ascii_alnum ''._%+-'') 1 None, Str ''@'', Cls (or_in ascii_alnum ''.-'') 1 None, Str ''.'',
       Cls ascii_alpha 2 None, Bound],
     apply_rule = redactEmail, label = ''email''\<rparr>"

definition ipv4_rule :: rule where
  "ipv4_rule = \<lparr>
     pattern = (let octet = Cls ascii_digit 1 (Some 3) in Seqs [Bound, octet, Str ''.'', octet, Str ''.'', octet, Str ''.'', octet, Bound]),
     apply_rule = redactIPv4, label = ''ipv4''\<rparr>"

definition universalRules :: "rule list" where
  "universalRules = [jwt_rule, api_key_rule, bank_card_rule, email_rule, ipv4_rule]"

definition ru_phone_rule :: rule where
  "ru_phone_rule = \<lparr>
     pattern =
       Seqs [Alt (Seq (opt_in (\<lambda>c. c = CHR ''+'')) (Str ''7'')) (Str ''8''), opt_in (or_in re_space ''-(''), Str ''9'', digits_re 2,
         opt_in (or_in re_space ''-)''), digits_re 3, opt_in (or_in re_space ''-''), digits_re 2, opt_in (or_in re_space ''-''), digits_re 2],
     apply_rule = redactRUPhone, label = ''ru_phone''\<rparr>"

definition snils_rule :: rule where
  "snils_rule = \<lparr>
     pattern = (let sep = Cls (or_in re_space ''-'') 1 (Some 1) in
       Seqs [Bound, digits_re 3, sep, digits_re 3, sep, digits_re 3, sep, digits_re 2, Bound]),
     apply_rule = (\<lambda>_. ''[REDACTED:SNILS]''), label = ''snils''\<rparr>"

definition inn_rule :: rule where
  "inn_rule = \<lparr>pattern = Seqs [Bound, Cls ascii_digit 10 (Some 12), Bound], apply_rule = redactINNCandidate, label = ''inn''\<rparr>"

definition ruRules :: "rule list" where
  "ruRules = [ru_phone_rule, snils_rule, inn_rule]"

definition cn_phone_rule :: rule where
  "cn_phone_rule = \<lparr>
     pattern = Seqs [Bound, Str ''1'', Cls (\<lambda>c. 51 \<le> byte_of c \<and> byte_of c \<le> 57) 1 (Some 1), digits_re 9, Bound],
     apply_rule = redactCNPhone, label = ''cn_phone''\<rparr>"

definition cn_id_rule :: rule where
  "cn_id_rule = \<lparr>
     pattern = Seqs [Bound, digits_re 17, Cls (or_in ascii_digit ''Xx'') 1 (Some 1), Bound],
     apply_rule = (\<lambda>_. ''[REDACTED:CN_ID]''), label = ''cn_id''\<rparr>"

definition cnRules :: "rule list" where
  "cnRules = [cn_phone_rule, cn_id_rule]"

definition applyRule :: "string \<Rightarrow> rule \<Rightarrow> string" where
  "applyRule s rl = ReplaceAllStringFunc (pattern rl) s (apply_rule rl)"

section \<open>The redactor\<close>

record redactor =
  universal :: "rule list"
  ru :: "rule list"
  cn :: "rule list"

definition NewRedactor :: redactor where
  "NewRedactor = \<lparr>universal = universalRules, ru = ruRules, cn = cnRules\<rparr>"

text \<open>\<^verbatim>\<open>strings.IndexAny(hint, "_-")\<close>.\<close>

definition cut_hint :: "string \<Rightarrow> string" where
  "cut_hint h = (let n = length (takeWhile (\<lambda>c. c \<noteq> CHR ''_'' \<and> c \<noteq> CHR ''-'') h) in if 0 < n \<and> n < length h then take n h else h)"

text \<open>\<open>lower\<close> is \<^verbatim>\<open>strings.ToLower\<close> outside ASCII.\<close>

definition RedactString :: "(string \<Rightarrow> string) \<Rightarrow> redactor \<Rightarrow> string \<Rightarrow> string \<Rightarrow> string" where
  "RedactString lower r languageOrJurisdiction s =
     (if s = [] then s
      else let hint = cut_hint (ToLower lower (TrimSpace languageOrJurisdiction));
               out = (if hint = ''ru'' then foldl applyRule s (ru r)
                      else if hint = ''cn'' then foldl applyRule s (cn r)
                      else if hint = ''en'' then s
                      else foldl applyRule (foldl applyRule s (ru r)) (cn r))
           in foldl applyRule out (universal r))"

section \<open>Rules for whole words\<close>

definition inn_word :: "string \<Rightarrow> bool" where
  "inn_word w \<longleftrightarrow> 10 \<le> length w \<and> length w \<le> 12 \<and> list_all ascii_digit w"

definition cn_phone_word :: "string \<Rightarrow> bool" where
  "cn_phone_word w \<longleftrightarrow> length w = 11 \<and> hd w = CHR ''1'' \<and> 51 \<le> byte_of (w ! 1) \<and> byte_of (w ! 1) \<le> 57 \<and> list_all ascii_digit (drop 2 w)"

definition cn_id_word :: "string \<Rightarrow> bool" where
  "cn_id_word w \<longleftrightarrow> length w = 18 \<and> list_all ascii_digit (take 17 w) \<and> or_in ascii_digit ''Xx'' (w ! 17)"

lemma digit_word: "ascii_digit c \<Longrightarrow> word_byte c"
  by (simp add: ascii_digit_def word_byte_def)

lemma or_in_word: "or_in ascii_digit ''Xx'' c \<Longrightarrow> word_byte c"
  by (auto simp: or_in_def digit_word) (simp_all add: word_byte_def)

lemma class_run_ge:
  "n \<le> class_run P (Some n) s \<longleftrightarrow> n \<le> length s \<and> list_all P (take n s)"
proof -
  have "n \<le> length (takeWhile P s) \<longleftrightarrow> n \<le> length s \<and> list_all P (take n s)"
  proof
    assume n: "n \<le> length (takeWhile P s)"
    then have "take n s = take n (takeWhile P s)" by (metis append_take_drop_id takeWhile_dropWhile_id take_append take_all_iff diff_is_0_eq' take0 append_Nil2)
    then have "set (take n s) \<subseteq> set (takeWhile P s)" by (metis set_take_subset)
    then show "n \<le> length s \<and> list_all P (take n s)"
      using n length_takeWhile_le [of P s] by (auto simp: list_all_iff dest: set_takeWhileD)
  next
    assume a: "n \<le> length s \<and> list_all P (take n s)"
    then have "takeWhile P s = take n s @ takeWhile P (drop n s)"
      by (metis append_take_drop_id list_all_iff takeWhile_append2)
    with a show "n \<le> length (takeWhile P s)" by simp
  qed
  then show ?thesis by (simp add: class_run_def)
qed

text \<open>A class repeated a fixed number of times.\<close>

lemma ends_fixed:
  "ends (Cls P n (Some n)) prev s = (if n \<le> length s \<and> list_all P (take n s) then [n] else [])"
proof (cases "n \<le> length s \<and> list_all P (take n s)")
  case True
  then have "class_run P (Some n) s = n" using class_run_ge [of n P s] by (simp add: class_run_def)
  with True show ?thesis by simp
next
  case False
  then have "class_run P (Some n) s < n" using class_run_ge [of n P s] by linarith
  with False show ?thesis by simp
qed

text \<open>The bytes up to a boundary are the word.\<close>

lemma word_end:
  assumes "n \<le> length s" and "list_all word_byte (take n s)"
  shows "\<not> word_at (first_byte (drop n s)) \<longleftrightarrow> takeWhile word_byte s = take n s"
proof -
  have "takeWhile word_byte s = take n s @ takeWhile word_byte (drop n s)"
    using assms(2) by (metis append_take_drop_id list_all_iff takeWhile_append2)
  moreover have "takeWhile word_byte (drop n s) = [] \<longleftrightarrow> \<not> word_at (first_byte (drop n s))"
    by (cases "drop n s") (simp_all add: word_at_def first_byte_def)
  ultimately show ?thesis by simp
qed

lemma ends_bound_tail:
  assumes "n \<le> length s" and "0 < n" and "list_all word_byte (take n s)"
  shows "ends Bound (before prev s n) (drop n s) = (if takeWhile word_byte s = take n s then [0] else [])"
proof -
  have "s ! (n - 1) \<in> set (take n s)" using assms(1,2) by (auto simp: in_set_conv_nth intro: exI [of _ "n - 1"])
  then have "word_at (before prev s n)" using assms(2,3) by (simp add: before_def word_at_def list_all_iff)
  then show ?thesis using word_end [OF assms(1,3)] by simp
qed

lemma before_add: "n + m \<le> length s \<Longrightarrow> before (before prev s n) (drop n s) m = before prev s (n + m)"
  by (simp add: before_def nth_drop)

lemma take_word:
  assumes "takeWhile word_byte s = take n s" and "n \<le> length s"
  shows "length (takeWhile word_byte s) = n"
  using assms by simp

lemma length_word:
  assumes "length (takeWhile word_byte s) = n"
  shows "n \<le> length s \<and> takeWhile word_byte s = take n s"
proof -
  have "take n s = takeWhile word_byte s" using assms by (metis append_eq_conv_conj takeWhile_dropWhile_id)
  then show ?thesis using assms length_takeWhile_le [of word_byte s] by auto
qed

text \<open>A pattern of fixed length between boundaries.\<close>

lemma map_add_0: "map ((+) (0 :: nat)) xs = xs"
  by (induction xs) simp_all

lemma list_all_word: "list_all ascii_digit w \<Longrightarrow> list_all word_byte w"
  by (simp add: list_all_iff digit_word)

lemma whole_word_fixed:
  assumes R: "\<And>prev s. ends R prev s = (if n \<le> length s \<and> Q (take n s) then map ((+) n) (ends Bound (before prev s n) (drop n s)) else [])"
    and Q: "\<And>w. Q w \<Longrightarrow> length w = n \<Longrightarrow> list_all word_byte w" and n: "0 < n"
  shows "whole_word (Seq Bound R) (\<lambda>w. length w = n \<and> Q w)"
  unfolding whole_word_def
proof (intro allI)
  fix prev s
  let ?w = "takeWhile word_byte s"
  show "match_at (Seq Bound R) prev s = (let w = ?w in if \<not> word_at prev \<and> w \<noteq> [] \<and> length w = n \<and> Q w then Some (length w) else None)"
  proof (cases "n \<le> length s \<and> Q (take n s)")
    case True
    then have words: "list_all word_byte (take n s)" using Q [of "take n s"] by simp
    have "hd (take n s) \<in> set (take n s)" using True n by (intro hd_in_set) auto
    then have "word_at (first_byte s)" using words True n by (cases s) (auto simp: word_at_def first_byte_def list_all_iff)
    then have "ends (Seq Bound R) prev s = (if word_at prev then [] else ends R prev s)" by (simp add: before_def map_add_0)
    moreover have "ends R prev s = (if ?w = take n s then [n] else [])"
      using True R [of prev s] unfolding ends_bound_tail [OF conjunct1 [OF True] n words] by simp
    ultimately have e: "ends (Seq Bound R) prev s = (if \<not> word_at prev \<and> ?w = take n s then [n] else [])" by simp
    show ?thesis
    proof (cases "?w = take n s")
      case w: True
      then show ?thesis using e True n by (auto simp: match_at_def Let_def)
    next
      case w: False
      then have "length ?w \<noteq> n" using length_word by blast
      with e w show ?thesis by (simp add: match_at_def Let_def)
    qed
  next
    case False
    then have "ends R prev s = []" by (simp add: R)
    then have "match_at (Seq Bound R) prev s = None" by (simp add: match_at_def before_def [of _ _ 0])
    moreover have "\<not> (length ?w = n \<and> Q ?w)" using False length_word [of s n] by auto
    ultimately show ?thesis by (auto simp: Let_def)
  qed
qed

lemma ends_class: 
  "ends (Seq (Cls P n (Some n)) R) prev s =
     (if n \<le> length s \<and> list_all P (take n s) then map ((+) n) (ends R (before prev s n) (drop n s)) else [])"
  unfolding ends.simps(4) ends_fixed by auto

lemma whole_word_cn_id: "whole_word (pattern cn_id_rule) cn_id_word"
proof -
  let ?X = "or_in ascii_digit ''Xx''"
  let ?Q = "\<lambda>w. list_all ascii_digit (take 17 w) \<and> ?X (w ! 17)"
  have "whole_word (Seq Bound (Seq (digits_re 17) (Seq (Cls ?X 1 (Some 1)) Bound))) (\<lambda>w. length w = 18 \<and> ?Q w)"
  proof (rule whole_word_fixed)
    fix prev s
    have "list_all ?X (take 1 (drop 17 s)) \<longleftrightarrow> ?X (s ! 17)" if "18 \<le> length s" using that by (simp add: take_Suc hd_drop_conv_nth)
    then show "ends (Seq (digits_re 17) (Seq (Cls ?X 1 (Some 1)) Bound)) prev s =
        (if 18 \<le> length s \<and> ?Q (take 18 s) then map ((+) 18) (ends Bound (before prev s 18) (drop 18 s)) else [])"
      using before_add [of 17 1 s prev] unfolding ends_class by (auto simp: take_Suc min_def)
  next
    fix w :: string
    assume w: "?Q w" "length w = 18"
    have all: "list_all word_byte (take 17 w @ [w ! 17])" using w(1) by (simp add: list_all_word or_in_word)
    have w': "take 17 w @ [w ! 17] = w" using w(2) take_Suc_conv_app_nth [of 17 w] by simp
    show "list_all word_byte w" using all unfolding w' .
  qed simp
  then show ?thesis by (simp add: cn_id_rule_def cn_id_word_def [abs_def])
qed

lemma whole_word_cn_phone: "whole_word (pattern cn_phone_rule) cn_phone_word"
proof -
  let ?P = "\<lambda>c :: char. 51 \<le> byte_of c \<and> byte_of c \<le> (57 :: nat)"
  let ?Q = "\<lambda>w. hd w = CHR ''1'' \<and> ?P (w ! 1) \<and> list_all ascii_digit (drop 2 w)"
  have "whole_word (Seq Bound (Seq (Str ''1'') (Seq (Cls ?P 1 (Some 1)) (Seq (digits_re 9) Bound)))) (\<lambda>w. length w = 11 \<and> ?Q w)"
  proof (rule whole_word_fixed)
    fix prev s
    show "ends (Seq (Str ''1'') (Seq (Cls ?P 1 (Some 1)) (Seq (digits_re 9) Bound))) prev s =
        (if 11 \<le> length s \<and> ?Q (take 11 s) then map ((+) 11) (ends Bound (before prev s 11) (drop 11 s)) else [])"
    proof (cases "11 \<le> length s")
      case True
      then obtain a b t where s: "s = a # b # t" "9 \<le> length t" by (cases s; cases "tl s") auto
      show ?thesis using before_add [of 1 1 s prev] before_add [of "Suc (Suc 0)" 9 s prev] True
        by (auto simp: s ends_fixed simp del: ends.simps(1))
    next
      case False
      then show ?thesis by (cases s; cases "tl s") (auto simp: ends_fixed simp del: ends.simps(1))
    qed
  next
    fix w :: string
    assume w: "?Q w" "length w = 11"
    then obtain a b t where "w = a # b # t" by (cases w; cases "tl w") auto
    with w show "list_all word_byte w" by (auto simp: list_all_word word_byte_def)
  qed simp
  then show ?thesis by (simp add: cn_phone_rule_def cn_phone_word_def [abs_def])
qed

lemma pick_one: "concat (map (\<lambda>n. if n = k then [n] else []) (rev [a..<b])) = (if a \<le> k \<and> k < b then [k :: nat] else [])"
  by (induction b) auto

lemma digits_prefix: "n \<le> class_run ascii_digit (Some m) s \<Longrightarrow> n \<le> length s \<and> list_all ascii_digit (take n s)"
  using class_run_ge [of n ascii_digit s] by (auto simp: class_run_def)

lemma whole_word_inn: "whole_word (pattern inn_rule) inn_word"
  unfolding whole_word_def
proof (intro allI)
  fix prev s
  let ?w = "takeWhile word_byte s" and ?k = "class_run ascii_digit (Some 12) s"
  have tail: "ends Bound (before prev s n) (drop n s) = (if n = length ?w then [0] else [])" if "n \<in> set (rev [10..<Suc ?k])" for n
  proof -
    have n: "n \<le> length s" "list_all ascii_digit (take n s)" "0 < n" using that digits_prefix [of n 12 s] by auto
    have "?w = take n s \<longleftrightarrow> n = length ?w" using take_word [of s n] length_word [of s n] n(1) by blast
    then show ?thesis unfolding ends_bound_tail [OF n(1,3) list_all_word [OF n(2)]] by simp
  qed
  have R: "ends (Seq (Cls ascii_digit 10 (Some 12)) Bound) prev s = (if 10 \<le> length ?w \<and> length ?w \<le> ?k then [length ?w] else [])"
  proof -
    have "ends (Seq (Cls ascii_digit 10 (Some 12)) Bound) prev s = concat (map (\<lambda>n. if n = length ?w then [n] else []) (rev [10..<Suc ?k]))"
      unfolding ends.simps(4) ends.simps(1) by (rule arg_cong [where f = concat], rule map_cong [OF refl]) (simp only: tail, simp)
    then show ?thesis unfolding pick_one by auto
  qed
  have k: "length ?w \<le> ?k \<and> 10 \<le> length ?w \<longleftrightarrow> inn_word ?w"
  proof
    assume a: "length ?w \<le> ?k \<and> 10 \<le> length ?w"
    then have "list_all ascii_digit (take (length ?w) s)" using digits_prefix by blast
    moreover have "take (length ?w) s = ?w" using length_word [of s "length ?w"] by simp
    moreover have "length ?w \<le> 12" using a by (simp add: class_run_def)
    ultimately show "inn_word ?w" using a by (simp add: inn_word_def)
  next
    assume a: "inn_word ?w"
    have "take (length ?w) s = ?w" "length ?w \<le> length s" using length_word [of s "length ?w"] by simp_all
    with a have "length ?w \<le> length (takeWhile ascii_digit s)"
      using class_run_ge [of "length ?w" ascii_digit s] by (simp add: inn_word_def class_run_def)
    with a show "length ?w \<le> ?k \<and> 10 \<le> length ?w" by (simp add: class_run_def inn_word_def)
  qed
  have first: "word_at (first_byte s) \<longleftrightarrow> ?w \<noteq> []" by (cases s) (simp_all add: word_at_def first_byte_def)
  have "ends (pattern inn_rule) prev s = (if word_at prev \<noteq> word_at (first_byte s) then ends (Seq (Cls ascii_digit 10 (Some 12)) Bound) prev s else [])"
    by (simp add: inn_rule_def before_def drop_0 map_add_0 del: ends.simps(1) cong: if_cong)
  then show "match_at (pattern inn_rule) prev s = (let w = ?w in if \<not> word_at prev \<and> w \<noteq> [] \<and> inn_word w then Some (length w) else None)"
    using k unfolding R first by (auto simp: match_at_def Let_def inn_word_def)
qed

lemma applyRule_words:
  assumes "whole_word (pattern rl) W"
  shows "applyRule s rl = replace_words W (apply_rule rl) s"
  using replace_all_words [OF assms, of None] by (simp add: applyRule_def ReplaceAllStringFunc_def word_at_def)

section \<open>Properties\<close>

text \<open>C35: The patterns for taxpayer numbers, mobile numbers and identity cards, run by the backtracking matcher, do the same as a replacement word by
  word: a maximal run of letters, digits and underscores is redacted if and only if it is, as a whole, of that form, and
  everything else is left as it is.\<close>
theorem word_rules_reference:
  "applyRule s inn_rule = replace_words inn_word redactINNCandidate s \<and>
   applyRule s cn_phone_rule = replace_words cn_phone_word redactCNPhone s \<and>
   applyRule s cn_id_rule = replace_words cn_id_word (\<lambda>_. ''[REDACTED:CN_ID]'') s"
  using applyRule_words [OF whole_word_inn] applyRule_words [OF whole_word_cn_phone] applyRule_words [OF whole_word_cn_id]
  by (simp add: inn_rule_def cn_phone_rule_def cn_id_rule_def)



text \<open>Without a jurisdiction more of a card number is shown than with one. The Russian telephone pattern is not anchored at word boundaries and runs first:
  it finds a telephone number inside this card number, so that ten digits remain, where the card rule alone leaves eight.\<close>
theorem empty_hint_reveals_more:
  "RedactString id NewRedactor [] ''4276891234567890'' = ''4276+7-912-***-**-890'' \<and>
   RedactString id NewRedactor ''en'' ''4276891234567890'' = ''4276 **** **** 7890''"
  by code_simp

end
