(* ===== verification/Go_Mime.thy ===== *)
theory Go_Mime
  imports Go_Strings
begin

text \<open>
  \<^verbatim>\<open>mime.ParseMediaType\<close>: the media type in front of the first semicolon, and whether the parameters after it are well formed. The values of
  the parameters matter only for detecting a name that is given twice with different values.
\<close>

definition isTSpecial :: "char \<Rightarrow> bool" where
  "isTSpecial c \<longleftrightarrow> c \<in> set ''()<>@,;:/[]?='' \<or> byte_of c = 0x5C \<or> byte_of c = 0x22"

definition isTokenChar :: "char \<Rightarrow> bool" where
  "isTokenChar c \<longleftrightarrow> 0x20 < byte_of c \<and> byte_of c < 0x7F \<and> \<not> isTSpecial c"

definition consumeToken :: "string \<Rightarrow> string \<times> string" where
  "consumeToken v = (takeWhile isTokenChar v, dropWhile isTokenChar v)"

definition TrimLeftSpace :: "string \<Rightarrow> string" where
  "TrimLeftSpace v = strip space_runes v"

text \<open>The rest of a quoted string after the opening quote: its value and what follows the closing quote.\<close>

fun quoted_value :: "string \<Rightarrow> (string \<times> string) option" where
  "quoted_value [] = None"
| "quoted_value (c # cs) =
     (if byte_of c = 0x22 then Some ([], cs)
      else if byte_of c = 0x5C
      then (case cs of
              [] \<Rightarrow> None
            | d # ds \<Rightarrow> if isTSpecial d then map_option (\<lambda>(v, rest). (d # v, rest)) (quoted_value ds)
                        else map_option (\<lambda>(v, rest). (c # v, rest)) (quoted_value cs))
      else if byte_of c = 13 \<or> byte_of c = 10 then None
      else map_option (\<lambda>(v, rest). (c # v, rest)) (quoted_value cs))"

declare quoted_value.simps(2) [simp del]

definition consumeValue :: "string \<Rightarrow> string \<times> string" where
  "consumeValue v =
     (case v of
        [] \<Rightarrow> ([], [])
      | c # cs \<Rightarrow>
          if byte_of c \<noteq> 0x22 then consumeToken v
          else (case quoted_value cs of Some r \<Rightarrow> r | None \<Rightarrow> ([], v)))"

text \<open>\<open>None\<close> stands for the empty name that signals a malformed parameter.\<close>

definition consumeMediaParam :: "(string \<Rightarrow> string) \<Rightarrow> string \<Rightarrow> (string \<times> string \<times> string) option" where
  "consumeMediaParam lower v =
     (let rest = TrimLeftSpace v
      in if \<not> HasPrefix rest '';'' then None
         else let (param, rest) = consumeToken (TrimLeftSpace (drop 1 rest))
              in if param = [] then None
                 else let rest = TrimLeftSpace rest
                      in if \<not> HasPrefix rest ''='' then None
                         else let rest = TrimLeftSpace (drop 1 rest); (val, rest2) = consumeValue rest
                              in if val = [] \<and> rest2 = rest then None else Some (ToLower lower param, val, rest2))"

definition checkMediaTypeDisposition :: "string \<Rightarrow> bool" where
  "checkMediaTypeDisposition s =
     (let (typ, rest) = consumeToken s
      in typ \<noteq> [] \<and>
         (rest = [] \<or>
          HasPrefix rest ''/'' \<and> (let (subtype, rest) = consumeToken (drop 1 rest) in subtype \<noteq> [] \<and> rest = [])))"

lemma strip_length: "length (strip es s) \<le> length s"
  using strip_suffix [of s es] by (metis le_add2 length_append)

lemma quoted_value_length: "quoted_value v = Some (x, rest) \<Longrightarrow> length rest < length v"
proof (induction v arbitrary: x rest rule: length_induct)
  case (1 v)
  then obtain c cs where v: "v = c # cs" by (cases v) auto
  have ih: "length rest < length u" if "length u < length v" "quoted_value u = Some (y, rest)" for u y using 1(1) that by blast
  have "rest = cs \<or> (\<exists>y. quoted_value cs = Some (y, rest)) \<or> (\<exists>y. quoted_value (tl cs) = Some (y, rest) \<and> cs \<noteq> [])"
    using 1(2) unfolding v quoted_value.simps(2) by (auto split: if_splits list.splits)
  then show ?case using ih [of cs] ih [of "tl cs"] v by (auto simp: less_Suc_eq_le intro: less_imp_le less_le_trans)
qed

lemma consumeValue_length:
  assumes "consumeValue v = (x, rest)"
  shows "length rest \<le> length v"
proof (cases v)
  case (Cons c cs)
  show ?thesis
  proof (cases "byte_of c = 0x22")
    case True
    then show ?thesis
      using assms Cons quoted_value_length [of cs x rest] by (cases "quoted_value cs") (auto simp: consumeValue_def)
  next
    case False
    then have "rest = dropWhile isTokenChar v" using assms Cons by (simp add: consumeValue_def consumeToken_def)
    then show ?thesis by (simp add: length_dropWhile_le)
  qed
qed (use assms in \<open>simp add: consumeValue_def\<close>)

lemma consumeMediaParam_length:
  assumes "consumeMediaParam lower v = Some (k, x, rest)"
  shows "length rest < length v"
proof -
  let ?a = "TrimLeftSpace v"
  obtain param r1 where t: "consumeToken (TrimLeftSpace (drop 1 ?a)) = (param, r1)" by fastforce
  obtain val r2 where w: "consumeValue (TrimLeftSpace (drop 1 (TrimLeftSpace r1))) = (val, r2)" by fastforce
  have a: "?a \<noteq> []" "rest = r2" using assms unfolding consumeMediaParam_def Let_def t prod.case w by (auto split: if_splits)
  have "length r2 \<le> length (TrimLeftSpace (drop 1 (TrimLeftSpace r1)))" using consumeValue_length [OF w] .
  also have "\<dots> \<le> length (drop 1 (TrimLeftSpace r1))" unfolding TrimLeftSpace_def by (rule strip_length)
  also have "\<dots> \<le> length (TrimLeftSpace r1)" by simp
  also have "\<dots> \<le> length r1" unfolding TrimLeftSpace_def by (rule strip_length)
  also have "\<dots> \<le> length (TrimLeftSpace (drop 1 ?a))" using t by (auto simp: consumeToken_def length_dropWhile_le)
  also have "\<dots> \<le> length (drop 1 ?a)" unfolding TrimLeftSpace_def by (rule strip_length)
  also have "\<dots> < length ?a" using a by simp
  also have "\<dots> \<le> length v" unfolding TrimLeftSpace_def by (rule strip_length)
  finally show ?thesis using a by simp
qed

text \<open>Whether the parameters are accepted; \<open>seen\<close> are those before.\<close>

function media_params :: "(string \<Rightarrow> string) \<Rightarrow> (string \<times> string) list \<Rightarrow> string \<Rightarrow> bool" where
  "media_params lower seen v =
     (let v = TrimLeftSpace v
      in if v = [] then True
         else case consumeMediaParam lower v of
                None \<Rightarrow> TrimSpace v = '';''
              | Some (k, x, rest) \<Rightarrow>
                  (case map_of seen k of
                     Some y \<Rightarrow> if y \<noteq> x then False else media_params lower ((k, x) # seen) rest
                   | None \<Rightarrow> media_params lower ((k, x) # seen) rest))"
  by pat_completeness auto
termination
proof (relation "measure (\<lambda>(lower, seen, v). length v)")
  have "length rest < length v" if "consumeMediaParam lower (TrimLeftSpace v) = Some (k, x, rest)" for lower v k x rest
    using consumeMediaParam_length [OF that] strip_length [of space_runes v] by (simp add: TrimLeftSpace_def)
  then show "\<And>lower seen v xa x xb y xc ya yb. xa = TrimLeftSpace v \<Longrightarrow> xa \<noteq> [] \<Longrightarrow> consumeMediaParam lower xa = Some x \<Longrightarrow>
      (xb, y) = x \<Longrightarrow> (xc, ya) = y \<Longrightarrow> map_of seen xb = None \<Longrightarrow> ((lower, (xb, xc) # seen, ya), lower, seen, v) \<in> measure (\<lambda>(lower, seen, v). length v)"
    "\<And>lower seen v xa x xb y xc ya yb. xa = TrimLeftSpace v \<Longrightarrow> xa \<noteq> [] \<Longrightarrow> consumeMediaParam lower xa = Some x \<Longrightarrow>
      (xb, y) = x \<Longrightarrow> (xc, ya) = y \<Longrightarrow> map_of seen xb = Some yb \<Longrightarrow> \<not> yb \<noteq> xc \<Longrightarrow>
      ((lower, (xb, xc) # seen, ya), lower, seen, v) \<in> measure (\<lambda>(lower, seen, v). length v)" by auto
qed simp

declare media_params.simps [simp del]

definition ParseMediaType :: "(string \<Rightarrow> string) \<Rightarrow> string \<Rightarrow> string option" where
  "ParseMediaType lower v =
     (let base = takeWhile (\<lambda>c. c \<noteq> CHR '';'') v;
          mediatype = TrimSpace (ToLower lower base)
      in if \<not> checkMediaTypeDisposition mediatype then None
         else if media_params lower [] (drop (length base) v) then Some mediatype else None)"

end
