(* ===== verification/Go_Filepath.thy ===== *)
theory Go_Filepath
  imports Go_Strings
begin

text \<open>
  \<^verbatim>\<open>path/filepath\<close> on Unix, as far as the repository uses it. \<^verbatim>\<open>Clean\<close> is the shortest path equivalent by purely
  lexical processing: empty and \<^verbatim>\<open>.\<close> elements go, an element followed by \<^verbatim>\<open>..\<close> goes with it, and \<^verbatim>\<open>..\<close> at the root goes.
\<close>

abbreviation Separator :: char where
  "Separator \<equiv> CHR ''/''"

text \<open>The stack of elements of a cleaned path, the last one first.\<close>

fun push_elem :: "bool \<Rightarrow> string list \<Rightarrow> string \<Rightarrow> string list" where
  "push_elem rooted st e =
     (if e = [] \<or> e = ''.'' then st
      else if e = ''..''
      then (case st of [] \<Rightarrow> if rooted then [] else [''..''] | t # ts \<Rightarrow> if t = ''..'' then ''..'' # st else ts)
      else e # st)"

declare push_elem.simps [simp del]

definition is_rooted :: "string \<Rightarrow> bool" where
  "is_rooted p = HasPrefix p ''/''"

definition elems :: "string \<Rightarrow> string list" where
  "elems p = rev (foldl (push_elem (is_rooted p)) [] (SplitByte Separator p))"

definition Clean :: "string \<Rightarrow> string" where
  "Clean p =
     (let es = elems p
      in if is_rooted p then ''/'' @ Join es ''/'' else if es = [] then ''.'' else Join es ''/'')"

text \<open>\<^verbatim>\<open>Join\<close> cleans the elements joined from the first one that is not empty on; \<^verbatim>\<open>Dir\<close> cleans what precedes the last separator.\<close>

definition filepath_Join :: "string list \<Rightarrow> string" where
  "filepath_Join ps = (let qs = dropWhile (\<lambda>p. p = []) ps in if qs = [] then [] else Clean (Join qs ''/''))"

definition filepath_Dir :: "string \<Rightarrow> string" where
  "filepath_Dir p = Clean (rev (dropWhile (\<lambda>c. c \<noteq> Separator) (rev p)))"

definition plain_elem :: "string \<Rightarrow> bool" where
  "plain_elem e \<longleftrightarrow> e \<noteq> [] \<and> e \<noteq> ''.'' \<and> e \<noteq> ''..'' \<and> Separator \<notin> set e"

lemma push_plain [simp]: "plain_elem e \<Longrightarrow> push_elem rooted st e = e # st"
  by (simp add: push_elem.simps plain_elem_def)

lemma push_plains: "list_all plain_elem es \<Longrightarrow> foldl (push_elem rooted) st es = rev es @ st"
  by (induction es arbitrary: st) simp_all

lemma Join_append: "xs \<noteq> [] \<Longrightarrow> ys \<noteq> [] \<Longrightarrow> Join (xs @ ys) sep = Join xs sep @ sep @ Join ys sep"
  by (induction xs rule: induct_list012) (auto simp: Join_Cons)

text \<open>The elements of a rooted path are plain.\<close>

lemma push_rooted_plain:
  "list_all plain_elem st \<Longrightarrow> Separator \<notin> set e \<Longrightarrow> list_all plain_elem (push_elem True st e)"
  by (auto simp: push_elem.simps plain_elem_def split: list.split)

lemma elems_rooted_plain:
  assumes "is_rooted p"
  shows "list_all plain_elem (elems p)"
proof -
  have "list_all plain_elem (foldl (push_elem True) st es)" if "list_all plain_elem st" "\<forall>e \<in> set es. Separator \<notin> set e" for st es
    using that by (induction es arbitrary: st) (simp_all add: push_rooted_plain)
  then show ?thesis using assms SplitByte_no_sep by (simp add: elems_def)
qed

lemma SplitByte_rooted: "SplitByte Separator (''/'' @ p) = [] # SplitByte Separator p"
  using SplitByte_append [of Separator "[]" p] by simp

lemma elems_rooted: "elems (''/'' @ p) = rev (foldl (push_elem True) [] (SplitByte Separator p))"
  using SplitByte_rooted [of p] by (simp add: elems_def is_rooted_def push_elem.simps)

text \<open>A path of plain elements is clean.\<close>

lemma elems_Join:
  assumes "list_all plain_elem es" and "es \<noteq> []"
  shows "elems (''/'' @ Join es ''/'') = es" and "Clean (''/'' @ Join es ''/'') = ''/'' @ Join es ''/''"
proof -
  have "SplitByte Separator (Join es ''/'') = es"
    using assms by (intro SplitByte_Join) (auto simp: list_all_iff plain_elem_def)
  then show e: "elems (''/'' @ Join es ''/'') = es" using push_plains [OF assms(1)] by (simp add: elems_rooted del: append_Cons)
  then show "Clean (''/'' @ Join es ''/'') = ''/'' @ Join es ''/''" by (simp add: Clean_def is_rooted_def)
qed

lemma SplitByte_app: "SplitByte c (p @ c # t) = SplitByte c p @ SplitByte c t"
proof (induction p)
  case (Cons d p)
  show ?case using Cons by (cases "SplitByte c p") auto
qed simp

text \<open>Appending a key to a clean rooted path runs the key's elements on top of the path's.\<close>

lemma elems_append:
  assumes "list_all plain_elem bs" and "bs \<noteq> []"
  shows "elems (''/'' @ Join bs ''/'' @ ''/'' @ k) = rev (foldl (push_elem True) (rev bs) (SplitByte Separator k))"
proof -
  have "SplitByte Separator (Join bs ''/'') = bs"
    using assms by (intro SplitByte_Join) (auto simp: list_all_iff plain_elem_def)
  then have "SplitByte Separator (Join bs ''/'' @ ''/'' @ k) = bs @ SplitByte Separator k" using SplitByte_app [of Separator "Join bs ''/''" k] by simp
  then show ?thesis using push_plains [OF assms(1), of True "[]"] by (simp add: elems_rooted del: append_Cons)
qed

end
