(* ===== verification/Go_Date.thy ===== *)
theory Go_Date
  imports Go_Time
begin

text \<open>
  Calendar dates in UTC. An instant counts nanoseconds from the first of January of the year 1, the zero value of \<^verbatim>\<open>time.Time\<close>.
  The year is counted from March, so that a leap day comes last; 400 years have 146097 days.
\<close>

abbreviation day :: duration where
  "day \<equiv> 86400000000000"

record civil =
  Year :: int
  Month :: int
  Day :: int

text \<open>Days from the first of January of the year 1.\<close>

definition date_of_days :: "int \<Rightarrow> civil" where
  "date_of_days d =
     (let z = d + 306;
          era = z div 146097;
          doe = z mod 146097;
          yoe = (doe - doe div 1460 + doe div 36524 - doe div 146096) div 365;
          doy = doe - (365 * yoe + yoe div 4 - yoe div 100);
          mp = (5 * doy + 2) div 153;
          m = (if mp < 10 then mp + 3 else mp - 9)
      in \<lparr>Year = yoe + era * 400 + (if m \<le> 2 then 1 else 0), Month = m, Day = doy - (153 * mp + 2) div 5 + 1\<rparr>)"

definition days_of_date :: "int \<Rightarrow> int \<Rightarrow> int \<Rightarrow> int" where
  "days_of_date y m d =
     (let y = (if m \<le> 2 then y - 1 else y);
          era = y div 400;
          yoe = y mod 400;
          doy = (153 * (if m > 2 then m - 3 else m + 9) + 2) div 5 + d - 1;
          doe = yoe * 365 + yoe div 4 - yoe div 100 + doy
      in era * 146097 + doe - 306)"

definition Date :: "go_time \<Rightarrow> civil" where
  "Date t = date_of_days (t div day)"

text \<open>A number with at least so many digits, as \<^verbatim>\<open>Format\<close> writes it.\<close>

definition append_int :: "nat \<Rightarrow> int \<Rightarrow> string" where
  "append_int w n = (if n < 0 then ''-'' else []) @ pad_zeros w (FormatUint (nat \<bar>n\<bar>))"

text \<open>\<^verbatim>\<open>Format("2006/01/02")\<close> and \<^verbatim>\<open>Format("2006-01-02")\<close>, with the separator as an argument.\<close>

definition format_date :: "string \<Rightarrow> go_time \<Rightarrow> string" where
  "format_date sep t = append_int 4 (Year (Date t)) @ sep @ append_int 2 (Month (Date t)) @ sep @ append_int 2 (Day (Date t))"

lemma append_int_chars: "c \<in> set (append_int w n) \<Longrightarrow> is_digit c \<or> c = CHR ''-''"
  using FormatUint_digits [of "nat \<bar>n\<bar>"]
  by (auto simp: append_int_def pad_zeros_def list_all_iff is_digit_def split: if_splits)

lemma append_int_not_Nil: "append_int w n \<noteq> []"
  by (simp add: append_int_def pad_zeros_def)

lemma append_int_inj:
  assumes "append_int w m = append_int w n"
  shows "m = n"
proof -
  have zeros: "decimal_value 0 (replicate k (CHR ''0'') @ s) = decimal_value 0 s" for k s by (induction k) (simp_all add: digit_val_def)
  have hd: "hd (pad_zeros w (FormatUint k)) \<noteq> CHR ''-''" for k
    using FormatUint_digits [of k] FormatUint_not_Nil [of k]
    by (cases "w - length (FormatUint k)"; cases "FormatUint k") (auto simp: pad_zeros_def is_digit_def)
  have sign: "m < 0 \<longleftrightarrow> n < 0"
    using arg_cong [OF assms, of hd] hd [of "nat \<bar>m\<bar>"] hd [of "nat \<bar>n\<bar>"] by (auto simp: append_int_def split: if_splits)
  then have "pad_zeros w (FormatUint (nat \<bar>m\<bar>)) = pad_zeros w (FormatUint (nat \<bar>n\<bar>))" using assms by (auto simp: append_int_def split: if_splits)
  then have "nat \<bar>m\<bar> = nat \<bar>n\<bar>" using zeros unfolding pad_zeros_def by (metis decimal_value_FormatUint)
  then show ?thesis using sign by linarith
qed

section \<open>Days and dates\<close>

text \<open>The first day of a year of the 400-year cycle, and the estimate of the year from the day.\<close>

lemma div_cut: "k * (x div k) \<le> x" "x < k * (x div k) + k" if "0 < k" for k x :: int
  using that pos_mod_sign [of k x] pos_mod_bound [of k x] mult_div_mod_eq [of k x] by linarith+

lemma div_succ: "(x + 1) div k \<le> x div k + 1" if "0 < k" for k x :: int
proof -
  have "(x + 1) div k \<le> (x + k) div k" using that by (intro zdiv_mono1) simp_all
  then show ?thesis using that by (simp add: div_add_self2)
qed

definition year_start :: "int \<Rightarrow> int" where
  "year_start y = 365 * y + y div 4 - y div 100"

definition year_est :: "int \<Rightarrow> int" where
  "year_est doe = doe - doe div 1460 + doe div 36524 - doe div 146096"

lemma year_est_step: "0 \<le> doe \<Longrightarrow> doe < 146096 \<Longrightarrow> year_est doe \<le> year_est (doe + 1)"
proof -
  assume a: "0 \<le> doe" "doe < 146096"
  show ?thesis
  proof (cases "doe = 146095")
    case True
    show ?thesis unfolding True by (simp add: year_est_def)
  next
    case False
    have "(doe + 1) div 1460 \<le> doe div 1460 + 1" by (rule div_succ) simp
    moreover have "doe div 36524 \<le> (doe + 1) div 36524" by (simp add: zdiv_mono1)
    moreover have "doe div 146096 = 0" "(doe + 1) div 146096 = 0" using a False by (simp_all add: div_pos_pos_trivial)
    ultimately show ?thesis unfolding year_est_def by linarith
  qed
qed

lemma year_est_mono: "0 \<le> a \<Longrightarrow> a \<le> b \<Longrightarrow> b \<le> 146096 \<Longrightarrow> year_est a \<le> year_est b"
proof (induction "nat (b - a)" arbitrary: b)
  case (Suc n)
  have "year_est a \<le> year_est (b - 1)" using Suc.hyps(2) Suc.prems by (intro Suc.hyps(1)) auto
  also have "\<dots> \<le> year_est (b - 1 + 1)" using Suc.hyps(2) Suc.prems by (intro year_est_step) auto
  finally show ?case by simp
qed simp

lemma year_est_ends:
  "list_all (\<lambda>y. 365 * y \<le> year_est (year_start y) \<and> year_est (year_start (y + 1) - 1) < 365 * (y + 1)) [0..399]"
  by code_simp

lemma div_365: "365 * (x div 365) \<le> x" "x < 365 * (x div 365 + 1)" for x :: int
  using div_cut [of 365 x] by simp_all

lemma year_est_0: "year_est 0 = 0" and year_est_last: "year_est 146096 = 145999"
  by (simp_all add: year_est_def)

lemma year_start_bounds:
  assumes "0 \<le> z" "z \<le> 400"
  shows "0 \<le> year_start z" "year_start z \<le> 146097"
proof -
  have d: "0 \<le> z div 4" "z div 4 \<le> 100" "z div 100 \<le> z" "0 \<le> z div 100" using assms div_cut [of 4 z] zdiv_mono1 [of z 400 4] zdiv_mono1 [of 0 z 100] zdiv_mono1 [of 0 z 4] div_cut [of 100 z] by simp_all
  show "0 \<le> year_start z" using assms(1) d(1,3) unfolding year_start_def by linarith
  show "year_start z \<le> 146097"
  proof (cases "z = 400")
    case False
    have "365 * z + a - b \<le> 146097" if "a \<le> 100" "0 \<le> b" for a b :: int using that assms False by linarith
    then show ?thesis using d unfolding year_start_def by blast
  qed (simp add: year_start_def)
qed

lemma year_length: "year_start (y + 1) - year_start y \<le> 366"
proof -
  have "365 * (y + 1) + a - c - (365 * y + b - d) \<le> 366" if "a \<le> b + 1" "d \<le> c" for a b c d :: int using that by (simp add: algebra_simps)
  moreover have "(y + 1) div 4 \<le> y div 4 + 1" "y div 100 \<le> (y + 1) div 100" by (rule div_succ, simp, rule zdiv_mono1, simp_all)
  ultimately show ?thesis unfolding year_start_def by blast
qed

lemma year_of_day:
  assumes "0 \<le> doe" "doe \<le> 146096" and y: "y = year_est doe div 365"
  shows "0 \<le> y" "y < 400" "year_start y \<le> doe" "doe \<le> year_start y + 365"
proof -
  have e: "0 \<le> year_est doe" "year_est doe < 146000"
    using year_est_mono [of 0 doe] year_est_mono [of doe 146096] assms(1,2) year_est_0 year_est_last by linarith+
  then show y0: "0 \<le> y" and y4: "y < 400" using zdiv_mono1 [of 0 "year_est doe" 365] div_cut(1) [of 365 "year_est doe"] unfolding y by simp_all
  have ends: "365 * z \<le> year_est (year_start z)" "year_est (year_start (z + 1) - 1) < 365 * (z + 1)" if "0 \<le> z" "z < 400" for z
    using year_est_ends that by (auto simp: list_all_iff)
  note start_mono = year_start_bounds
  have bounds: "365 * y \<le> year_est doe" "year_est doe < 365 * (y + 1)" unfolding y by (rule div_365)+
  show "year_start y \<le> doe"
  proof (rule ccontr)
    assume "\<not> year_start y \<le> doe"
    then have "0 < y" using assms(1) y0 by (cases "y = 0") (auto simp: year_start_def)
    then have "year_est doe \<le> year_est (year_start y - 1)"
      using \<open>\<not> year_start y \<le> doe\<close> assms(1) start_mono [of y] y4 by (intro year_est_mono) auto
    then show False using ends(2) [of "y - 1"] bounds \<open>0 < y\<close> y4 by simp
  qed
  show "doe \<le> year_start y + 365"
  proof (cases "y = 399")
    case True
    then show ?thesis using assms(2) by (simp add: year_start_def)
  next
    case False
    have "doe < year_start (y + 1)"
    proof (rule ccontr)
      assume a: "\<not> doe < year_start (y + 1)"
      then have "year_est (year_start (y + 1)) \<le> year_est doe" using assms(2) start_mono [of "y + 1"] y0 y4 by (intro year_est_mono) auto
      then show False using ends(1) [of "y + 1"] bounds False y0 y4 by simp
    qed
    then show ?thesis using year_length [of y] by simp
  qed
qed

lemma date_of_days_roundtrip:
  "days_of_date (Year (date_of_days d)) (Month (date_of_days d)) (Day (date_of_days d)) = d"
  and Month_bounds: "1 \<le> Month (date_of_days d) \<and> Month (date_of_days d) \<le> 12"
  and Day_bounds: "1 \<le> Day (date_of_days d) \<and> Day (date_of_days d) \<le> 31"
proof -
  define era doe yoe where "era = (d + 306) div 146097" and "doe = (d + 306) mod 146097" and "yoe = year_est doe div 365"
  define doy mp where "doy = doe - year_start yoe" and "mp = (5 * doy + 2) div 153"
  have "0 \<le> doe" "doe \<le> 146096" unfolding doe_def by auto
  note y = year_of_day [OF this yoe_def]
  have doy: "0 \<le> doy" "doy \<le> 365" using y(3,4) unfolding doy_def by simp_all
  then have mp: "0 \<le> mp" "mp \<le> 11"
    using zdiv_mono1 [of 0 "5 * doy + 2" 153] zdiv_mono1 [of "5 * doy + 2" 1827 153] unfolding mp_def by simp_all
  define m where "m = (if mp < 10 then mp + 3 else mp - 9)"
  have dod: "date_of_days d = \<lparr>Year = yoe + era * 400 + (if m \<le> 2 then 1 else 0), Month = m, Day = doy - (153 * mp + 2) div 5 + 1\<rparr>"
    by (simp only: date_of_days_def Let_def era_def [symmetric] doe_def [symmetric] year_est_def [symmetric] yoe_def [symmetric]
      year_start_def [symmetric] doy_def [symmetric] mp_def [symmetric] m_def [symmetric])
  show "1 \<le> Month (date_of_days d) \<and> Month (date_of_days d) \<le> 12" using mp by (simp add: dod m_def)
  have "153 * mp \<le> 5 * doy + 2" "5 * doy + 2 < 153 * (mp + 1)" using div_cut [of 153 "5 * doy + 2"] unfolding mp_def by simp_all
  moreover have "5 * ((153 * mp + 2) div 5) \<le> 153 * mp + 2" "153 * mp + 2 < 5 * ((153 * mp + 2) div 5) + 5" by (rule div_cut, simp)+
  moreover have "1 \<le> doy - q + 1 \<and> doy - q + 1 \<le> 31"
    if "153 * mp \<le> 5 * doy + 2" "5 * doy + 2 < 153 * (mp + 1)" "5 * q \<le> 153 * mp + 2" "153 * mp + 2 < 5 * q + 5" for q :: int
    using that by (intro conjI) (simp_all add: algebra_simps)
  ultimately have "1 \<le> doy - (153 * mp + 2) div 5 + 1 \<and> doy - (153 * mp + 2) div 5 + 1 \<le> 31" by blast
  then show "1 \<le> Day (date_of_days d) \<and> Day (date_of_days d) \<le> 31" by (simp add: dod)
  have m: "(if m > 2 then m - 3 else m + 9) = mp" "m \<le> 2 \<longleftrightarrow> 10 \<le> mp" using mp by (auto simp: m_def)
  have era: "(yoe + era * 400) div 400 = era" "(yoe + era * 400) mod 400 = yoe" using y(1,2) by simp_all
  have "era * 146097 + doe = d + 306" unfolding era_def doe_def by simp
  moreover have "(if m \<le> 2 then yoe + era * 400 + (if m \<le> 2 then 1 else 0) - 1 else yoe + era * 400 + (if m \<le> 2 then 1 else 0)) = yoe + era * 400"
    by simp
  moreover have "yoe * 365 + yoe div 4 - yoe div 100 + ((153 * mp + 2) div 5 + (doy - (153 * mp + 2) div 5 + 1) - 1) = doe"
    unfolding doy_def year_start_def by simp
  ultimately show "days_of_date (Year (date_of_days d)) (Month (date_of_days d)) (Day (date_of_days d)) = d"
    unfolding dod days_of_date_def Let_def civil.simps by (simp only: m era)
qed

lemma date_of_days_inj: "date_of_days d = date_of_days e \<Longrightarrow> d = e"
  by (metis date_of_days_roundtrip)

end
