(* ===== verification/Files.thy ===== *)
theory Files
  imports Go_Mime Go_Filepath Go_Date Go_Float "HOL-Library.Sublist" "HOL-Library.Code_Target_Nat"
begin

text \<open>
  The packages \<^verbatim>\<open>files\<close> (upload policies and object keys, \<^verbatim>\<open>files.go\<close>) and \<^verbatim>\<open>storage\<close> (the local file storage,
  \<^verbatim>\<open>storage.go\<close>, and the object storage client, \<^verbatim>\<open>oss.go\<close>), and how they fit: an object key that a policy plans is stored exactly
  under the base directory. The operating system and the object store are parameters.
\<close>

section \<open>files.go\<close>

abbreviation DefaultMaxUploadSizeBytes :: int where
  "DefaultMaxUploadSizeBytes \<equiv> 10485760"

definition ErrInvalidUploadPolicy :: go_error where "ErrInvalidUploadPolicy = ErrorNew ''files: invalid upload policy''"
definition ErrInvalidUpload :: go_error where "ErrInvalidUpload = ErrorNew ''files: invalid upload''"
definition ErrUnsupportedType :: go_error where "ErrUnsupportedType = ErrorNew ''files: unsupported content type''"
definition ErrInvalidObjectKey :: go_error where "ErrInvalidObjectKey = ErrorNew ''files: invalid object key''"

abbreviation VisibilityPrivate :: string where "VisibilityPrivate \<equiv> ''private''"
abbreviation VisibilityPublic :: string where "VisibilityPublic \<equiv> ''public''"

record file_object =
  obID :: string
  obTenantID :: string
  obObjectKey :: string
  obContentType :: string
  obSizeBytes :: int
  obVisibility :: string
  obCreatedAt :: go_time

record upload_policy =
  MaxSizeBytes :: int
  AllowedTypes :: "string list"
  AllowedCategories :: "string list"
  DefaultVisibility :: string
  ObjectKeyNamespace :: string

record upload_request =
  rqTenantID :: string
  rqCategory :: string
  rqFilename :: string
  rqContentType :: string
  rqSizeBytes :: int
  rqObjectID :: string
  rqVisibility :: string
  rqNow :: go_time

record object_key_input =
  kiNamespace :: string
  kiTenantID :: string
  kiCategory :: string
  kiContentType :: string
  kiObjectID :: string
  kiNow :: go_time

definition lower_alnum :: "char \<Rightarrow> bool" where
  "lower_alnum c \<longleftrightarrow> 97 \<le> byte_of c \<and> byte_of c \<le> 122 \<or> 48 \<le> byte_of c \<and> byte_of c \<le> 57"

definition any_alnum :: "char \<Rightarrow> bool" where
  "any_alnum c \<longleftrightarrow> lower_alnum c \<or> 65 \<le> byte_of c \<and> byte_of c \<le> 90"

text \<open>The two anchored patterns: a first character of one class, then at most so many of another.\<close>

definition anchored :: "(char \<Rightarrow> bool) \<Rightarrow> string \<Rightarrow> nat \<Rightarrow> string \<Rightarrow> bool" where
  "anchored P others most s =
     (case s of [] \<Rightarrow> False | c # cs \<Rightarrow> P c \<and> length cs \<le> most \<and> list_all (\<lambda>x. P x \<or> x \<in> set others) cs)"

definition categoryPattern :: "string \<Rightarrow> bool" where
  "categoryPattern = anchored lower_alnum ''_-'' 63"

definition tenantIDPattern :: "string \<Rightarrow> bool" where
  "tenantIDPattern = anchored any_alnum ''_.-'' 127"

text \<open>\<open>lower\<close> is \<^verbatim>\<open>strings.ToLower\<close> outside ASCII.\<close>

definition NormalizeCategory :: "(string \<Rightarrow> string) \<Rightarrow> string \<Rightarrow> go_error + string" where
  "NormalizeCategory lower category =
     (let category = ToLower lower (TrimSpace category)
      in if \<not> categoryPattern category then Inl ErrInvalidUpload else Inr category)"

definition NormalizeCategoryOrEmpty :: "(string \<Rightarrow> string) \<Rightarrow> string \<Rightarrow> string" where
  "NormalizeCategoryOrEmpty lower category = (case NormalizeCategory lower category of Inl _ \<Rightarrow> [] | Inr normalized \<Rightarrow> normalized)"

definition NormalizeContentType :: "(string \<Rightarrow> string) \<Rightarrow> string \<Rightarrow> string" where
  "NormalizeContentType lower contentType =
     (case ParseMediaType lower (TrimSpace contentType) of
        Some parsed \<Rightarrow> ToLower lower parsed
      | None \<Rightarrow> ToLower lower (TrimSpace contentType))"

definition ExtensionForContentType :: "(string \<Rightarrow> string) \<Rightarrow> string \<Rightarrow> string option" where
  "ExtensionForContentType lower contentType =
     (let t = NormalizeContentType lower contentType
      in if t = ''image/jpeg'' then Some ''.jpg''
         else if t = ''image/png'' then Some ''.png''
         else if t = ''image/webp'' then Some ''.webp''
         else if t = ''application/pdf'' then Some ''.pdf''
         else if t = ''text/csv'' then Some ''.csv''
         else if t = ''application/json'' then Some ''.json''
         else None)"

definition ValidateVisibility :: "string \<Rightarrow> go_error option" where
  "ValidateVisibility v = (if v = VisibilityPrivate \<or> v = VisibilityPublic then None else Some ErrInvalidUpload)"

definition normalizeNamespace :: "(string \<Rightarrow> string) \<Rightarrow> string \<Rightarrow> go_error + string" where
  "normalizeNamespace lower namespace =
     (let namespace = TrimByte CHR ''/'' (ToLower lower (TrimSpace namespace))
      in if namespace = [] then Inr ''files''
         else let clean = Clean namespace
              in if HasPrefix clean ''../'' \<or> clean = ''..'' \<or> char_of (0x5C :: nat) \<in> set clean then Inl ErrInvalidObjectKey
                 else if list_ex (\<lambda>part. \<not> categoryPattern part) (SplitByte CHR ''/'' clean) then Inl ErrInvalidObjectKey
                 else Inr clean)"

fun containsNormalized :: "(string \<Rightarrow> string) \<Rightarrow> string list \<Rightarrow> string \<Rightarrow> bool" where
  "containsNormalized lower [] want = False"
| "containsNormalized lower (v # values) want =
     (if NormalizeContentType lower v = want \<or> ToLower lower (TrimSpace v) = want then True else containsNormalized lower values want)"

definition effective_visibility :: "upload_policy \<Rightarrow> upload_request \<Rightarrow> string" where
  "effective_visibility p req =
     (let visibility = rqVisibility req;
          visibility = (if visibility = [] then DefaultVisibility p else visibility)
      in if visibility = [] then VisibilityPrivate else visibility)"

definition Validate_upload :: "(string \<Rightarrow> string) \<Rightarrow> upload_policy \<Rightarrow> upload_request \<Rightarrow> go_error option" where
  "Validate_upload lower p req =
     (if TrimSpace (rqTenantID req) = [] \<or> rqSizeBytes req < 0 then Some ErrInvalidUpload
      else case NormalizeCategory lower (rqCategory req) of
             Inl err \<Rightarrow> Some err
           | Inr _ \<Rightarrow>
               (let maxSize = (if MaxSizeBytes p = 0 then DefaultMaxUploadSizeBytes else MaxSizeBytes p)
                in if maxSize < 0 \<or> AllowedTypes p = [] then Some ErrInvalidUploadPolicy
                   else if rqSizeBytes req > maxSize then Some ErrInvalidUpload
                   else if \<not> containsNormalized lower (AllowedTypes p) (NormalizeContentType lower (rqContentType req)) then Some ErrUnsupportedType
                   else if AllowedCategories p \<noteq> [] \<and>
                           \<not> containsNormalized lower (AllowedCategories p) (NormalizeCategoryOrEmpty lower (rqCategory req))
                   then Some ErrInvalidUpload
                   else ValidateVisibility (effective_visibility p req)))"

text \<open>\<open>wall\<close> is the clock, used when the input has no time.\<close>

definition BuildObjectKey :: "(string \<Rightarrow> string) \<Rightarrow> go_time \<Rightarrow> object_key_input \<Rightarrow> go_error + string" where
  "BuildObjectKey lower wall inp =
     (let tenantID = TrimSpace (kiTenantID inp); objectID = TrimSpace (kiObjectID inp)
      in case NormalizeCategory lower (kiCategory inp) of
           Inl err \<Rightarrow> Inl err
         | Inr category \<Rightarrow>
             if \<not> tenantIDPattern tenantID \<or> objectID = [] \<or> CHR ''/'' \<in> set objectID \<or> char_of (0x5C :: nat) \<in> set objectID
             then Inl ErrInvalidObjectKey
             else case normalizeNamespace lower (kiNamespace inp) of
                    Inl err \<Rightarrow> Inl err
                  | Inr namespace \<Rightarrow>
                      (case ExtensionForContentType lower (kiContentType inp) of
                         None \<Rightarrow> Inl ErrUnsupportedType
                       | Some ext \<Rightarrow>
                           (let now = (if IsZero (kiNow inp) then wall else kiNow inp)
                            in Inr (Join [namespace, ''tenants'', tenantID, category, format_date ''/'' now, objectID @ ext] ''/''))))"

text \<open>\<open>uuid\<close> is the identifier the UUID library would return.\<close>

definition Plan :: "(string \<Rightarrow> string) \<Rightarrow> go_time \<Rightarrow> string \<Rightarrow> upload_policy \<Rightarrow> upload_request \<Rightarrow> go_error + file_object" where
  "Plan lower wall uuid p req =
     (case Validate_upload lower p req of
        Some err \<Rightarrow> Inl err
      | None \<Rightarrow>
          (let now = (if IsZero (rqNow req) then wall else rqNow req);
               objectID = (if TrimSpace (rqObjectID req) = [] then uuid else TrimSpace (rqObjectID req))
           in case BuildObjectKey lower wall \<lparr>kiNamespace = ObjectKeyNamespace p, kiTenantID = rqTenantID req, kiCategory = rqCategory req,
                     kiContentType = rqContentType req, kiObjectID = objectID, kiNow = now\<rparr> of
                Inl err \<Rightarrow> Inl err
              | Inr key \<Rightarrow>
                  Inr \<lparr>obID = objectID, obTenantID = TrimSpace (rqTenantID req), obObjectKey = key,
                       obContentType = NormalizeContentType lower (rqContentType req), obSizeBytes = rqSizeBytes req,
                       obVisibility = effective_visibility p req, obCreatedAt = now\<rparr>))"

section \<open>storage.go\<close>

record local_storage =
  basePath :: string
  baseURL :: string

text \<open>What the storage asks of the operating system, over an arbitrary state of the file system; an error is a value.\<close>

record 'f file_system =
  MkdirAll :: "string \<Rightarrow> 'f \<Rightarrow> 'f \<times> go_error option"
  os_Create :: "string \<Rightarrow> 'f \<Rightarrow> 'f \<times> go_error option"
  os_Write :: "string \<Rightarrow> string \<Rightarrow> 'f \<Rightarrow> 'f \<times> go_error option"
  os_Remove :: "string \<Rightarrow> 'f \<Rightarrow> 'f \<times> go_error option"
  IsNotExist :: "go_error \<Rightarrow> bool"

text \<open>\<^verbatim>\<open>filepath.Abs\<close> asks for the working directory \<open>wd\<close> unless the path is rooted; \<open>None\<close> is the error of \<^verbatim>\<open>os.Getwd\<close>.\<close>

definition filepath_Abs :: "string option \<Rightarrow> string \<Rightarrow> string option" where
  "filepath_Abs wd p = (if is_rooted p then Some (Clean p) else map_option (\<lambda>wd. filepath_Join [wd, p]) wd)"

definition NewLocal :: "string option \<Rightarrow> string \<Rightarrow> string \<Rightarrow> local_storage" where
  "NewLocal wd base url = \<lparr>basePath = (case filepath_Abs wd base of Some p \<Rightarrow> p | None \<Rightarrow> base), baseURL = url\<rparr>"

definition escape_error :: go_error where
  "escape_error = ErrorNew ''storage: key escapes base directory''"

definition safePath :: "local_storage \<Rightarrow> string \<Rightarrow> go_error + string" where
  "safePath s key =
     (let fullPath = filepath_Join [basePath s, key]
      in if \<not> HasPrefix fullPath (basePath s @ ''/'') \<and> fullPath \<noteq> basePath s then Inl escape_error else Inr fullPath)"

text \<open>\<open>reader\<close> is the data, or the error met while copying, with what had been copied.\<close>

definition Local_Upload :: "'f file_system \<Rightarrow> local_storage \<Rightarrow> string \<Rightarrow> string \<times> go_error option \<Rightarrow> 'f \<Rightarrow> 'f \<times> (go_error + string)" where
  "Local_Upload os s key reader f =
     (case safePath s key of
        Inl err \<Rightarrow> (f, Inl err)
      | Inr fullPath \<Rightarrow>
          (case MkdirAll os (filepath_Dir fullPath) f of
             (f, Some err) \<Rightarrow> (f, Inl (Errorf ''storage mkdir: %w'' err))
           | (f, None) \<Rightarrow>
               (case os_Create os fullPath f of
                  (f, Some err) \<Rightarrow> (f, Inl (Errorf ''storage create: %w'' err))
                | (f, None) \<Rightarrow>
                    (case os_Write os fullPath (fst reader) f of
                       (f, Some err) \<Rightarrow> (f, Inl (Errorf ''storage write: %w'' err))
                     | (f, None) \<Rightarrow>
                         (case snd reader of
                            Some err \<Rightarrow> (f, Inl (Errorf ''storage write: %w'' err))
                          | None \<Rightarrow> (f, Inr (baseURL s @ ''/'' @ key)))))))"

definition Local_Delete :: "'f file_system \<Rightarrow> local_storage \<Rightarrow> string \<Rightarrow> 'f \<Rightarrow> 'f \<times> go_error option" where
  "Local_Delete os s key f =
     (case safePath s key of
        Inl err \<Rightarrow> (f, Some err)
      | Inr fullPath \<Rightarrow>
          (case os_Remove os fullPath f of
             (f, Some err) \<Rightarrow> (f, if IsNotExist os err then None else Some (Errorf ''storage delete: %w'' err))
           | (f, None) \<Rightarrow> (f, None)))"

definition Local_PresignedURL :: "local_storage \<Rightarrow> string \<Rightarrow> go_error + string" where
  "Local_PresignedURL s key = (case safePath s key of Inl err \<Rightarrow> Inl err | Inr _ \<Rightarrow> Inr (baseURL s @ ''/'' @ key))"

section \<open>oss.go\<close>

record oss_config =
  Endpoint :: string
  AccessKeyID :: string
  AccessKeySecret :: string
  Bucket :: string
  OSSBaseURL :: string

text \<open>The client library: opening a bucket, and the three calls on it; \<open>'b\<close> is the type of buckets, \<open>'o\<close> the state of the service.\<close>

record ('b, 'o) oss_client =
  oss_New :: "string \<Rightarrow> string \<Rightarrow> string \<Rightarrow> go_error option"
  oss_Bucket :: "string \<Rightarrow> go_error + 'b"
  PutObject :: "'b \<Rightarrow> string \<Rightarrow> string \<Rightarrow> string option \<Rightarrow> 'o \<Rightarrow> 'o \<times> go_error option"
  DeleteObject :: "'b \<Rightarrow> string \<Rightarrow> 'o \<Rightarrow> 'o \<times> go_error option"
  SignURL :: "'b \<Rightarrow> string \<Rightarrow> int \<Rightarrow> go_error + string"

record 'b oss_storage =
  bucket :: 'b
  ossBaseURL :: string

definition NewOSS :: "('b, 'o) oss_client \<Rightarrow> oss_config \<Rightarrow> go_error + 'b oss_storage" where
  "NewOSS lib cfg =
     (case oss_New lib (Endpoint cfg) (AccessKeyID cfg) (AccessKeySecret cfg) of
        Some err \<Rightarrow> Inl (Errorf ''storage oss client: %w'' err)
      | None \<Rightarrow>
          (case oss_Bucket lib (Bucket cfg) of
             Inl err \<Rightarrow> Inl (Errorf ''storage oss bucket: %w'' err)
           | Inr b \<Rightarrow>
               Inr \<lparr>bucket = b, ossBaseURL = (if OSSBaseURL cfg = [] then ''https://'' @ Bucket cfg @ ''.'' @ Endpoint cfg else OSSBaseURL cfg)\<rparr>))"

definition OSS_Upload :: "('b, 'o) oss_client \<Rightarrow> 'b oss_storage \<Rightarrow> string \<Rightarrow> string \<Rightarrow> string \<Rightarrow> 'o \<Rightarrow> 'o \<times> (go_error + string)" where
  "OSS_Upload lib s key data contentType w =
     (case PutObject lib (bucket s) key data (if contentType \<noteq> [] then Some contentType else None) w of
        (w, Some err) \<Rightarrow> (w, Inl (Errorf ''storage oss upload: %w'' err))
      | (w, None) \<Rightarrow> (w, Inr (ossBaseURL s @ ''/'' @ key)))"

definition OSS_Delete :: "('b, 'o) oss_client \<Rightarrow> 'b oss_storage \<Rightarrow> string \<Rightarrow> 'o \<Rightarrow> 'o \<times> go_error option" where
  "OSS_Delete lib s key w =
     (case DeleteObject lib (bucket s) key w of
        (w, Some err) \<Rightarrow> (w, Some (Errorf ''storage oss delete: %w'' err))
      | (w, None) \<Rightarrow> (w, None))"

text \<open>The expiry as a float in seconds, cut off to an integer.\<close>

definition OSS_PresignedURL :: "('b, 'o) oss_client \<Rightarrow> 'b oss_storage \<Rightarrow> string \<Rightarrow> duration \<Rightarrow> go_error + string" where
  "OSS_PresignedURL lib s key expiry =
     (case SignURL lib (bucket s) key (float_to_int (Seconds expiry)) of Inl err \<Rightarrow> Inl (Errorf ''storage oss presign: %w'' err) | Inr url \<Rightarrow> Inr url)"

section \<open>Object keys\<close>

lemma anchored_plain:
  assumes "anchored P others most s" and "\<not> P CHR ''/''" and "\<not> P CHR ''.''" and "CHR ''/'' \<notin> set others"
  shows "plain_elem s"
  using assms by (auto simp: anchored_def plain_elem_def list_all_iff split: list.splits)

lemma not_alnum: "\<not> lower_alnum CHR ''/''" "\<not> lower_alnum CHR ''.''" "\<not> any_alnum CHR ''/''" "\<not> any_alnum CHR ''.''"
  by (simp_all add: lower_alnum_def any_alnum_def)

lemma pattern_plain:
  shows "categoryPattern s \<Longrightarrow> plain_elem s" and "tenantIDPattern s \<Longrightarrow> plain_elem s"
  unfolding categoryPattern_def tenantIDPattern_def using not_alnum by (auto intro: anchored_plain)

lemma category_plain: "NormalizeCategory lower c = Inr category \<Longrightarrow> plain_elem category"
  by (auto simp: NormalizeCategory_def Let_def pattern_plain split: if_splits)

lemma namespace_plain:
  assumes "normalizeNamespace lower n = Inr namespace"
  shows "list_all plain_elem (SplitByte Separator namespace)"
proof -
  have "namespace = ''files'' \<or> list_all categoryPattern (SplitByte Separator namespace)"
    using assms by (auto simp: normalizeNamespace_def Let_def list_ex_iff list_all_iff split: if_splits)
  moreover have "categoryPattern ''files''" by code_simp
  ultimately show ?thesis by (auto simp: list_all_iff SplitByte_plain intro: pattern_plain)
qed

definition date_elems :: "go_time \<Rightarrow> string list" where
  "date_elems t = [append_int 4 (Year (Date t)), append_int 2 (Month (Date t)), append_int 2 (Day (Date t))]"

lemma append_int_plain: "plain_elem (append_int w n)"
  using append_int_chars [of _ w n] append_int_not_Nil [of w n]
  by (cases "append_int w n") (fastforce simp: plain_elem_def is_digit_def)+

lemma date_elems_plain: "list_all plain_elem (date_elems t)" "Join (date_elems t) ''/'' = format_date ''/'' t" "date_elems t \<noteq> []"
  by (simp_all add: date_elems_def append_int_plain format_date_def)

lemma date_elems_inj: "date_elems t = date_elems u \<Longrightarrow> Date t = Date u"
  by (auto simp: date_elems_def dest!: append_int_inj)

definition key_elems :: "string \<Rightarrow> string \<Rightarrow> string \<Rightarrow> go_time \<Rightarrow> string \<Rightarrow> string list" where
  "key_elems namespace tenantID category now name =
     SplitByte Separator namespace @ [''tenants'', tenantID, category] @ date_elems now @ [name]"

text \<open>\<open>built\<close> says what a key was made of.\<close>

definition built :: "(string \<Rightarrow> string) \<Rightarrow> go_time \<Rightarrow> object_key_input \<Rightarrow> string \<Rightarrow> string \<Rightarrow> string \<Rightarrow> bool" where
  "built lower wall inp namespace category ext \<longleftrightarrow>
     normalizeNamespace lower (kiNamespace inp) = Inr namespace \<and> NormalizeCategory lower (kiCategory inp) = Inr category \<and>
     ExtensionForContentType lower (kiContentType inp) = Some ext \<and> tenantIDPattern (TrimSpace (kiTenantID inp)) \<and>
     TrimSpace (kiObjectID inp) \<noteq> [] \<and> Separator \<notin> set (TrimSpace (kiObjectID inp))"

definition input_elems :: "go_time \<Rightarrow> object_key_input \<Rightarrow> string \<Rightarrow> string \<Rightarrow> string \<Rightarrow> string list" where
  "input_elems wall inp namespace category ext =
     key_elems namespace (TrimSpace (kiTenantID inp)) category (if IsZero (kiNow inp) then wall else kiNow inp) (TrimSpace (kiObjectID inp) @ ext)"

lemma extension_cases:
  assumes "ExtensionForContentType lower c = Some ext"
  shows "ext \<in> {''.jpg'', ''.png'', ''.webp'', ''.pdf'', ''.csv'', ''.json''}"
  using assms by (auto simp: ExtensionForContentType_def Let_def split: if_splits)

lemma BuildObjectKey_built:
  assumes "BuildObjectKey lower wall inp = Inr key"
  obtains namespace category ext where "built lower wall inp namespace category ext"
    and "key = Join (input_elems wall inp namespace category ext) ''/''"
proof -
  obtain category where c: "NormalizeCategory lower (kiCategory inp) = Inr category"
    using assms by (auto simp: BuildObjectKey_def Let_def split: sum.splits)
  obtain namespace where n: "normalizeNamespace lower (kiNamespace inp) = Inr namespace"
    using assms by (auto simp: BuildObjectKey_def Let_def split: sum.splits if_splits)
  obtain ext where e: "ExtensionForContentType lower (kiContentType inp) = Some ext"
    using assms c n by (auto simp: BuildObjectKey_def Let_def split: if_splits option.splits)
  show ?thesis
  proof
    show "built lower wall inp namespace category ext"
      using assms c n e by (auto simp: built_def BuildObjectKey_def Let_def split: if_splits)
    show "key = Join (input_elems wall inp namespace category ext) ''/''"
      using assms c n e Join_SplitByte [of Separator namespace] date_elems_plain(2,3)
      by (auto simp: BuildObjectKey_def Let_def input_elems_def key_elems_def Join_append Join_Cons split: if_splits)
  qed
qed

lemma input_elems_plain:
  assumes "built lower wall inp namespace category ext"
  shows "list_all plain_elem (input_elems wall inp namespace category ext)"
proof -
  have "plain_elem (TrimSpace (kiObjectID inp) @ ext)"
    using assms extension_cases [of lower "kiContentType inp" ext] by (auto simp: built_def plain_elem_def append_eq_Cons_conv)
  moreover have "plain_elem ''tenants''" by code_simp
  ultimately show ?thesis
    using assms namespace_plain category_plain pattern_plain(2) date_elems_plain(1)
    by (auto simp: built_def input_elems_def key_elems_def)
qed

lemma extension_inj:
  assumes "o1 @ e1 = o2 @ e2" and "ExtensionForContentType lower c1 = Some e1" and "ExtensionForContentType lower c2 = Some e2"
  shows "o1 = o2 \<and> e1 = e2"
proof -
  have "rev e1 @ rev o1 = rev e2 @ rev o2" using assms(1) by (metis rev_append)
  then have "rev e1 = rev e2" using extension_cases [OF assms(2)] extension_cases [OF assms(3)] by auto
  then show ?thesis using assms(1) by simp
qed

section \<open>Paths under the base directory\<close>

lemma Abs_clean:
  assumes "filepath_Abs wd base = Some b" and "\<And>w. wd = Some w \<Longrightarrow> is_rooted w"
  obtains bs where "list_all plain_elem bs" and "b = ''/'' @ Join bs ''/''"
proof (cases "is_rooted base")
  case True
  then show ?thesis using assms(1) elems_rooted_plain [OF True] that by (simp add: filepath_Abs_def Clean_def Let_def)
next
  case False
  then obtain w where w: "wd = Some w" "b = filepath_Join [w, base]" using assms(1) by (auto simp: filepath_Abs_def)
  then have rooted: "is_rooted w" using assms(2) by simp
  then have "w \<noteq> []" "is_rooted (w @ ''/'' @ base)" by (auto simp: is_rooted_def HasPrefix_iff)
  then have "b = ''/'' @ Join (elems (w @ ''/'' @ base)) ''/''" using w by (simp add: filepath_Join_def Clean_def Let_def)
  then show ?thesis using elems_rooted_plain [OF \<open>is_rooted (w @ ''/'' @ base)\<close>] that by blast
qed

lemma filepath_Join_base:
  "filepath_Join [''/'' @ Join bs ''/'', key] = ''/'' @ Join (elems (''/'' @ Join bs ''/'' @ ''/'' @ key)) ''/''"
  by (simp add: filepath_Join_def Clean_def is_rooted_def Let_def)

lemma Join_plain_prefix:
  assumes "list_all plain_elem bs" "bs \<noteq> []" "list_all plain_elem es"
  shows "HasPrefix (Join es ''/'') (Join bs ''/'' @ ''/'') \<or> Join es ''/'' = Join bs ''/'' \<longleftrightarrow> prefix bs es"
proof (cases "es = []")
  case True
  have "Join bs ''/'' \<noteq> []" using assms(1,2) by (induction bs rule: induct_list012) (auto simp: plain_elem_def)
  then show ?thesis using True assms(2) by (auto simp: HasPrefix_def)
next
  case False
  have split: "SplitByte Separator (Join bs ''/'') = bs" "SplitByte Separator (Join es ''/'') = es"
    using assms False by (auto intro!: SplitByte_Join simp: list_all_iff plain_elem_def)
  show ?thesis
  proof
    assume "HasPrefix (Join es ''/'') (Join bs ''/'' @ ''/'') \<or> Join es ''/'' = Join bs ''/''"
    then show "prefix bs es"
    proof
      assume "HasPrefix (Join es ''/'') (Join bs ''/'' @ ''/'')"
      then obtain t where "Join es ''/'' = Join bs ''/'' @ Separator # t" by (auto simp: HasPrefix_iff)
      then have "es = bs @ SplitByte Separator t" using split SplitByte_app [of Separator "Join bs ''/''" t] by simp
      then show ?thesis by simp
    qed (use split in \<open>metis prefix_order.refl\<close>)
  next
    assume "prefix bs es"
    then obtain us where us: "es = bs @ us" by (auto simp: prefix_def)
    show "HasPrefix (Join es ''/'') (Join bs ''/'' @ ''/'') \<or> Join es ''/'' = Join bs ''/''"
      using assms(2) us by (cases "us = []") (simp_all add: Join_append HasPrefix_def)
  qed
qed

lemma safePath_spec:
  fixes s :: local_storage and key :: string
  assumes "list_all plain_elem bs" and "bs \<noteq> []" and "basePath s = ''/'' @ Join bs ''/''"
  defines "es \<equiv> elems (basePath s @ ''/'' @ key)"
  shows "safePath s key = (if prefix bs es then Inr (''/'' @ Join es ''/'') else Inl escape_error)"
proof -
  have plain: "list_all plain_elem es" unfolding es_def assms(3) by (rule elems_rooted_plain) (simp add: is_rooted_def)
  have "filepath_Join [basePath s, key] = ''/'' @ Join es ''/''" using filepath_Join_base [of bs key] by (simp add: es_def assms(3))
  then show ?thesis
    using Join_plain_prefix [OF assms(1,2) plain] by (auto simp: safePath_def Let_def assms(3) HasPrefix_def)
qed

lemma safePath_plain:
  assumes "list_all plain_elem bs" and "bs \<noteq> []" and "basePath s = ''/'' @ Join bs ''/''" and "list_all plain_elem es" and "es \<noteq> []"
  shows "safePath s (Join es ''/'') = Inr (basePath s @ ''/'' @ Join es ''/'')"
proof -
  have "SplitByte Separator (Join es ''/'') = es" using assms(4,5) by (intro SplitByte_Join) (auto simp: list_all_iff plain_elem_def)
  then have "elems (basePath s @ ''/'' @ Join es ''/'') = bs @ es"
    using elems_append [OF assms(1,2), of "Join es ''/''"] push_plains [OF assms(4)] by (simp add: assms(3))
  then show ?thesis using safePath_spec [OF assms(1-3), of "Join es ''/''"] assms(2,5) by (simp add: Join_append assms(3))
qed

lemma safePath_root:
  assumes "basePath s = ''/''"
  shows "safePath s key = (if elems (''//'' @ key) = [] then Inr ''/'' else Inl escape_error)"
proof -
  let ?es = "elems (''//'' @ key)"
  have plain: "list_all plain_elem ?es" by (rule elems_rooted_plain) (simp add: is_rooted_def)
  have "filepath_Join [basePath s, key] = ''/'' @ Join ?es ''/''" using filepath_Join_base [of "[]" key] by (simp add: assms)
  moreover have "\<not> HasPrefix (Join es ''/'') ''/'' \<and> Join es ''/'' \<noteq> []" if "es \<noteq> []" "list_all plain_elem es" for es
    using that by (induction es rule: induct_list012) (auto simp: plain_elem_def append_eq_Cons_conv split: list.splits)
  ultimately show ?thesis using plain by (auto simp: safePath_def Let_def assms)
qed

section \<open>The file system\<close>

text \<open>
  \<open>view f p\<close> is the content of the regular file at \<open>p\<close>, if there is one; different clean paths are different files (no links). A
  failed write may leave anything in its own file.
\<close>

locale file_store =
  fixes os :: "'f file_system" and view :: "'f \<Rightarrow> string \<Rightarrow> string option"
  assumes MkdirAll_view: "view (fst (MkdirAll os p f)) = view f"
    and Create_ok: "os_Create os p f = (g, None) \<Longrightarrow> view g = (view f)(p \<mapsto> [])"
    and Create_fail: "os_Create os p f = (g, Some e) \<Longrightarrow> view g = view f"
    and Write_ok: "os_Write os p d f = (g, None) \<Longrightarrow> view f p = Some c \<Longrightarrow> view g = (view f)(p \<mapsto> c @ d)"
    and Write_fail: "os_Write os p d f = (g, Some e) \<Longrightarrow> q \<noteq> p \<Longrightarrow> view g q = view f q"
    and Remove_ok: "os_Remove os p f = (g, None) \<Longrightarrow> view g = (view f)(p := None)"
    and Remove_fail: "os_Remove os p f = (g, Some e) \<Longrightarrow> view g = view f"
    and Remove_missing: "os_Remove os p f = (g, Some e) \<Longrightarrow> IsNotExist os e \<Longrightarrow> view f p = None"
begin

lemma upload_success:
  assumes "Local_Upload os s key (data, None) f = (g, Inr u)" and "safePath s key = Inr p"
  shows "view g = (view f)(p \<mapsto> data)" and "u = baseURL s @ ''/'' @ key"
proof -
  obtain f1 m where m: "MkdirAll os (filepath_Dir p) f = (f1, m)" by fastforce
  obtain f2 c where c: "os_Create os p f1 = (f2, c)" by fastforce
  obtain f3 w where w: "os_Write os p data f2 = (f3, w)" by fastforce
  have r: "m = None" "c = None" "w = None" "g = f3" "u = baseURL s @ ''/'' @ key"
    using assms(1) unfolding Local_Upload_def assms(2) by (auto simp: m c w split: option.splits)
  have "view f2 = (view f)(p \<mapsto> [])" using Create_ok c r(2) MkdirAll_view [of "filepath_Dir p" f] m by simp
  then show "view g = (view f)(p \<mapsto> data)" using Write_ok [of p data f2 f3 "[]"] w r by simp
  show "u = baseURL s @ ''/'' @ key" by (fact r)
qed

lemma upload_frame:
  assumes "Local_Upload os s key reader f = (g, r)" and "safePath s key \<noteq> Inr q"
  shows "view g q = view f q"
proof (cases "safePath s key")
  case (Inr p)
  then have q: "q \<noteq> p" using assms(2) by auto
  obtain f1 m where m: "MkdirAll os (filepath_Dir p) f = (f1, m)" by fastforce
  obtain f2 c where c: "os_Create os p f1 = (f2, c)" by fastforce
  obtain f3 w where w: "os_Write os p (fst reader) f2 = (f3, w)" by fastforce
  have "view f1 q = view f q" using MkdirAll_view [of "filepath_Dir p" f] m by simp
  moreover have "view f2 q = view f1 q" using Create_ok [of p f1 f2] Create_fail [of p f1 f2] c q by (cases c) auto
  moreover have "view f3 q = view f2 q" if "c = None"
    using Write_ok [of p "fst reader" f2 f3 "[]"] Write_fail [of p "fst reader" f2 f3] Create_ok [of p f1 f2] w c that q by (cases w) auto
  moreover have "g = f1 \<or> g = f2 \<or> c = None \<and> g = f3"
    using assms(1) unfolding Local_Upload_def Inr by (auto simp: m c w split: option.splits)
  ultimately show ?thesis by auto
qed (use assms in \<open>simp add: Local_Upload_def\<close>)

lemma delete_success:
  assumes "Local_Delete os s key f = (g, None)" and "safePath s key = Inr p"
  shows "view g = (view f)(p := None)"
proof -
  obtain f1 e where e: "os_Remove os p f = (f1, e)" by fastforce
  have "g = f1" "\<And>x. e = Some x \<Longrightarrow> IsNotExist os x"
    using assms unfolding Local_Delete_def by (auto simp: e split: option.splits if_splits)
  then show ?thesis using Remove_ok [of p f f1] Remove_fail [of p f f1] Remove_missing [of p f f1] e by (cases e) auto
qed

end

text \<open>A file system that holds the files in a map; the root cannot be created and a missing file cannot be removed.\<close>

definition mini_files :: "(string \<Rightarrow> string option) file_system" where
  "mini_files =
     \<lparr>MkdirAll = (\<lambda>p f. (f, None)),
      os_Create = (\<lambda>p f. if p = ''/'' then (f, Some (ErrorNew ''is a directory'')) else (f(p \<mapsto> []), None)),
      os_Write = (\<lambda>p d f. (f(p \<mapsto> (case f p of None \<Rightarrow> [] | Some c \<Rightarrow> c) @ d), None)),
      os_Remove = (\<lambda>p f. if f p = None then (f, Some (ErrorNew ''no such file or directory'')) else (f(p := None), None)),
      IsNotExist = (\<lambda>e. e = ErrorNew ''no such file or directory'')\<rparr>"

interpretation mini_store: file_store mini_files "\<lambda>f. f"
  by unfold_locales (auto simp: mini_files_def split: if_splits)

section \<open>Properties\<close>

lemma Abs_base:
  assumes "filepath_Abs wd base = Some b" and "pred_option is_rooted wd" and "b \<noteq> ''/''"
  obtains bs where "list_all plain_elem bs" and "bs \<noteq> []" and "basePath (NewLocal wd base url) = ''/'' @ Join bs ''/''" and "b = ''/'' @ Join bs ''/''"
    and "elems b = bs"
proof -
  obtain bs where bs: "list_all plain_elem bs" "b = ''/'' @ Join bs ''/''" using Abs_clean [OF assms(1)] assms(2) by (metis option.pred_inject(2))
  then have n: "bs \<noteq> []" using assms(3) by auto
  have "basePath (NewLocal wd base url) = b" using assms(1) by (simp add: NewLocal_def)
  then show ?thesis using that [OF bs(1) n] bs elems_Join(1) [OF bs(1) n] by simp
qed

lemma Plan_built:
  assumes "Plan lower wall uuid p req = Inr ob"
  obtains es where "list_all plain_elem es" and "es \<noteq> []" and "obObjectKey ob = Join es ''/''"
proof -
  have "Validate_upload lower p req = None" using assms by (cases "Validate_upload lower p req") (simp_all add: Plan_def)
  then obtain inp where "BuildObjectKey lower wall inp = Inr (obObjectKey ob)"
    using assms unfolding Plan_def Let_def by (auto split: sum.splits)
  then obtain n c e where b: "built lower wall inp n c e" "obObjectKey ob = Join (input_elems wall inp n c e) ''/''"
    by (rule BuildObjectKey_built)
  show ?thesis
  proof
    show "list_all plain_elem (input_elems wall inp n c e)" by (rule input_elems_plain [OF b(1)])
    show "input_elems wall inp n c e \<noteq> []" by (simp add: input_elems_def key_elems_def)
  qed (fact b)
qed

text \<open>C37: The local storage puts a planned object exactly where its key says. When a policy accepts an upload, and the storage is
  rooted anywhere but at the root of the file system, a successful upload of the data under the object's key changes exactly the one file at the
  base directory followed by the key, gives it exactly the data, and returns the URL the presigned URL will be.
\<close>

theorem planned_object_stored:
  assumes "file_store os view"
    and "Plan lower wall uuid p req = Inr ob"
    and "filepath_Abs wd base = Some b" and "pred_option is_rooted wd" and "b \<noteq> ''/''"
    and "Local_Upload os (NewLocal wd base url) (obObjectKey ob) (data, None) f = (g, Inr u)"
  shows "view g = (view f)(b @ ''/'' @ obObjectKey ob \<mapsto> data) \<and> Local_PresignedURL (NewLocal wd base url) (obObjectKey ob) = Inr u"
proof -
  obtain bs where bs: "list_all plain_elem bs" "bs \<noteq> []" "basePath (NewLocal wd base url) = ''/'' @ Join bs ''/''" "b = ''/'' @ Join bs ''/''"
    using Abs_base [OF assms(3-5)] by metis
  obtain es where es: "list_all plain_elem es" "es \<noteq> []" "obObjectKey ob = Join es ''/''" using Plan_built [OF assms(2)] by metis
  have "safePath (NewLocal wd base url) (obObjectKey ob) = Inr (b @ ''/'' @ obObjectKey ob)"
    using safePath_plain [OF bs(1-3) es(1,2)] es(3) bs(3,4) by simp
  then show ?thesis using file_store.upload_success [OF assms(1) assms(6)] by (simp add: Local_PresignedURL_def)
qed

definition sample_policy :: upload_policy where
  "sample_policy = \<lparr>MaxSizeBytes = 0, AllowedTypes = [''image/png''], AllowedCategories = [], DefaultVisibility = [], ObjectKeyNamespace = ''App/Media''\<rparr>"

definition sample_request :: upload_request where
  "sample_request = \<lparr>rqTenantID = ''t1'', rqCategory = ''Avatars'', rqFilename = ''x.png'', rqContentType = ''image/png; q=1'', rqSizeBytes = 5,
     rqObjectID = [], rqVisibility = [], rqNow = 0\<rparr>"

definition sample_key :: string where
  "sample_key = ''app/media/tenants/t1/avatars/0001/01/01/u-1.png''"

lemma sample_plan:
  "Plan (\<lambda>s. s) 1 ''u-1'' sample_policy sample_request =
     Inr \<lparr>obID = ''u-1'', obTenantID = ''t1'', obObjectKey = sample_key, obContentType = ''image/png'', obSizeBytes = 5,
          obVisibility = ''private'', obCreatedAt = 1\<rparr>"
  by code_simp

theorem planned_object_stored_witness:
  "fst (Local_Upload mini_files (NewLocal (Some ''/srv'') ''data/'' ''http://h'') sample_key (''hello'', None) Map.empty) =
     [''/srv/data/'' @ sample_key \<mapsto> ''hello'']"
proof -
  have "Local_Upload mini_files (NewLocal (Some ''/srv'') ''data/'' ''http://h'') sample_key (''hello'', None) Map.empty =
      ([''/srv/data/'' @ sample_key \<mapsto> ''hello''], Inr (''http://h/'' @ sample_key))"
  proof -
    have "safePath (NewLocal (Some ''/srv'') ''data/'' ''http://h'') sample_key = Inr (''/srv/data/'' @ sample_key)" by code_simp
    then show ?thesis by (simp add: Local_Upload_def mini_files_def NewLocal_def)
  qed
  moreover have "filepath_Abs (Some ''/srv'') ''data/'' = Some ''/srv/data''" by code_simp
  ultimately show ?thesis
    using planned_object_stored [OF mini_store.file_store_axioms sample_plan, of "Some ''/srv''" "''data/''" "''/srv/data''" "''http://h''" "''hello''" Map.empty]
    by (simp add: is_rooted_def)
qed

text \<open>C38: Object keys are unambiguous. Two keys built under the same namespace are equal only for the same tenant, the same
  category, the same date, the same object identifier and the same file type: no tenant can name an object so that its key is a key of another
  tenant.
\<close>

theorem object_keys_unambiguous:
  assumes "BuildObjectKey lower wall i = Inr key" and "BuildObjectKey lower wall j = Inr key"
    and "kiNamespace i = kiNamespace j"
  shows "TrimSpace (kiTenantID i) = TrimSpace (kiTenantID j) \<and> NormalizeCategory lower (kiCategory i) = NormalizeCategory lower (kiCategory j) \<and>
    Date (if IsZero (kiNow i) then wall else kiNow i) = Date (if IsZero (kiNow j) then wall else kiNow j) \<and>
    TrimSpace (kiObjectID i) = TrimSpace (kiObjectID j) \<and>
    ExtensionForContentType lower (kiContentType i) = ExtensionForContentType lower (kiContentType j)"
proof -
  have split: "SplitByte Separator (Join es ''/'') = es" if "list_all plain_elem es" "es \<noteq> []" for es
    using that by (intro SplitByte_Join) (auto simp: list_all_iff plain_elem_def)
  have ne: "input_elems w q n c e \<noteq> []" for w q n c e by (simp add: input_elems_def key_elems_def)
  obtain n c e where i: "built lower wall i n c e" "key = Join (input_elems wall i n c e) ''/''" using assms(1) by (rule BuildObjectKey_built)
  obtain m d x where j: "built lower wall j m d x" "key = Join (input_elems wall j m d x) ''/''" using assms(2) by (rule BuildObjectKey_built)
  have mn: "m = n" using i j assms(3) by (simp add: built_def)
  have "input_elems wall i n c e = input_elems wall j n d x"
    using split [OF input_elems_plain [OF i(1)] ne] split [OF input_elems_plain [OF j(1)] ne] i(2) j(2) unfolding mn by metis
  then have same: "TrimSpace (kiTenantID i) = TrimSpace (kiTenantID j)" "c = d"
      "date_elems (if IsZero (kiNow i) then wall else kiNow i) = date_elems (if IsZero (kiNow j) then wall else kiNow j)"
      "TrimSpace (kiObjectID i) @ e = TrimSpace (kiObjectID j) @ x"
    unfolding input_elems_def key_elems_def date_elems_def by simp_all
  have ex: "ExtensionForContentType lower (kiContentType i) = Some e" "ExtensionForContentType lower (kiContentType j) = Some x"
    and cat: "NormalizeCategory lower (kiCategory i) = Inr c" "NormalizeCategory lower (kiCategory j) = Inr d"
    using i(1) j(1) unfolding built_def by simp_all
  show ?thesis using same(1,2) extension_inj [OF same(4) ex] date_elems_inj [OF same(3)] cat ex by simp
qed

theorem object_keys_unambiguous_witness:
  "Date 1 = Date 86399999999999 \<and> TrimSpace ''t1'' = TrimSpace '' t1''"
proof -
  have a: "BuildObjectKey (\<lambda>s. s) 1 \<lparr>kiNamespace = [], kiTenantID = ''t1'', kiCategory = ''a'', kiContentType = ''text/csv'', kiObjectID = ''x'',
      kiNow = 1\<rparr> = Inr ''files/tenants/t1/a/0001/01/01/x.csv''" by code_simp
  have b: "BuildObjectKey (\<lambda>s. s) 1 \<lparr>kiNamespace = [], kiTenantID = '' t1'', kiCategory = ''A'', kiContentType = ''Text/CSV;'', kiObjectID = ''x '',
      kiNow = 86399999999999\<rparr> = Inr ''files/tenants/t1/a/0001/01/01/x.csv''" by code_simp
  show ?thesis using object_keys_unambiguous [OF a b] unfolding IsZero_def object_key_input.simps by simp
qed

text \<open>C39: The string test of the local storage is the right test. Wherever the storage is rooted, it accepts a key exactly when the cleaned
  path, read element by element, lies in the base directory, and then the path is the cleaned one; a sibling directory whose name begins
  with the base directory's is refused, and so is every way out through dot-dot elements. Rooted at the root of the file system,
  where every path would lie inside, it accepts only keys that name the root itself.
\<close>

theorem safePath_contract:
  assumes "filepath_Abs wd base = Some b" and "pred_option is_rooted wd"
  shows "safePath (NewLocal wd base url) key =
    (if (if b = ''/'' then elems (b @ ''/'' @ key) = [] else prefix (elems b) (elems (b @ ''/'' @ key)))
     then Inr (Clean (b @ ''/'' @ key)) else Inl escape_error)"
proof (cases "b = ''/''")
  case True
  then have "basePath (NewLocal wd base url) = ''/''" using assms(1) by (simp add: NewLocal_def)
  then show ?thesis using safePath_root [of _ key] True by (simp add: Clean_def is_rooted_def)
next
  case False
  then obtain bs where bs: "list_all plain_elem bs" "bs \<noteq> []" "basePath (NewLocal wd base url) = ''/'' @ Join bs ''/''"
      "b = ''/'' @ Join bs ''/''" "elems b = bs"
    using Abs_base [OF assms] by metis
  have "Clean (b @ ''/'' @ key) = ''/'' @ Join (elems (b @ ''/'' @ key)) ''/''" by (simp add: Clean_def is_rooted_def bs(4))
  then show ?thesis using safePath_spec [OF bs(1-3), of key] False bs(3-5) by simp
qed

theorem safePath_contract_witness:
  "safePath (NewLocal None ''/srv/data'' ''http://h'') ''../data-evil/x'' = Inl escape_error \<and>
   safePath (NewLocal None ''/srv/data'' ''http://h'') ''a/../../data/x'' = Inr ''/srv/data/x'' \<and>
   safePath (NewLocal None ''/'' ''http://h'') ''x'' = Inl escape_error"
proof -
  have "filepath_Abs None ''/srv/data'' = Some ''/srv/data''" "filepath_Abs None ''/'' = Some ''/''" by code_simp+
  moreover have "\<not> prefix (elems ''/srv/data'') (elems (''/srv/data'' @ ''/'' @ ''../data-evil/x''))"
    "prefix (elems ''/srv/data'') (elems (''/srv/data'' @ ''/'' @ ''a/../../data/x''))"
    "Clean (''/srv/data'' @ ''/'' @ ''a/../../data/x'') = ''/srv/data/x''" "elems (''/'' @ ''/'' @ ''x'') \<noteq> []" by code_simp+
  ultimately show ?thesis using safePath_contract [of None] by simp
qed

end
