(* ===== verification/Sequence.thy ===== *)
theory Sequence
  imports Redis_Interface Go_Date "HOL-Library.Code_Target_Nat"
begin

text \<open>
  Sequential identifiers (\<^verbatim>\<open>sequence/sequence.go\<close>) and the Redis cache (\<^verbatim>\<open>cache/cache.go\<close>), over the Redis server. The local time zone is a
  fixed offset to UTC, an argument of the generator.
\<close>

section \<open>sequence.go\<close>

record generator =
  keyPrefix :: string
  zone :: duration

text \<open>\<^verbatim>\<open>time.Now().Format("20060102")\<close> in the local zone.\<close>

definition local_date :: "generator \<Rightarrow> go_time \<Rightarrow> string" where
  "local_date g now = format_date [] (now + zone g)"

definition seq_key :: "generator \<Rightarrow> string \<Rightarrow> string \<Rightarrow> string" where
  "seq_key g bizPrefix date = keyPrefix g @ '':seq:'' @ bizPrefix @ '':'' @ date"

text \<open>\<^verbatim>\<open>%0*d\<close>: the sign counts for the width.\<close>

definition fmt_0d :: "nat \<Rightarrow> int \<Rightarrow> string" where
  "fmt_0d w n = (if n < 0 then ''-'' @ pad_zeros (w - 1) (FormatUint (nat (- n))) else pad_zeros w (FormatUint (nat n)))"

text \<open>The two commands of \<^verbatim>\<open>Next\<close>; \<open>now\<close> is the clock of the generator, \<open>t\<close> the time at which the server handles the command.\<close>

definition next_incr :: "'s redis \<Rightarrow> generator \<Rightarrow> go_time \<Rightarrow> link \<Rightarrow> go_time \<Rightarrow> string \<Rightarrow> 's \<Rightarrow> 's \<times> (go_error + int)" where
  "next_incr r g now l t bizPrefix s = client_call l (INCRBY r t (seq_key g bizPrefix (local_date g now)) 1) s"

definition next_expire :: "'s redis \<Rightarrow> generator \<Rightarrow> go_time \<Rightarrow> link \<Rightarrow> go_time \<Rightarrow> string \<Rightarrow> 's \<Rightarrow> 's" where
  "next_expire r g now l t bizPrefix s =
     fst (client_call l (\<lambda>s. map_prod id Inr (PEXPIRE r t (seq_key g bizPrefix (local_date g now)) (48 * 3600000) s)) s)"

definition next_id :: "generator \<Rightarrow> go_time \<Rightarrow> string \<Rightarrow> int \<Rightarrow> string" where
  "next_id g now bizPrefix seq = bizPrefix @ local_date g now @ fmt_0d 3 seq"

definition Generator_Next :: "'s redis \<Rightarrow> generator \<Rightarrow> go_time \<Rightarrow> link \<Rightarrow> go_time \<Rightarrow> link \<Rightarrow> go_time \<Rightarrow> string \<Rightarrow> 's \<Rightarrow> 's \<times> (go_error + string)" where
  "Generator_Next r g now l t l' t' bizPrefix s =
     (case next_incr r g now l t bizPrefix s of
        (s, Inl err) \<Rightarrow> (s, Inl (Errorf ''sequence incr: %w'' err))
      | (s, Inr seq) \<Rightarrow> (next_expire r g now l' t' bizPrefix s, Inr (next_id g now bizPrefix seq)))"

section \<open>cache.go\<close>

text \<open>The cache interface, over a state.\<close>

record 'c cache =
  cache_Get :: "string \<Rightarrow> 'c \<Rightarrow> 'c \<times> (go_error + string)"
  cache_Set :: "string \<Rightarrow> string \<Rightarrow> duration \<Rightarrow> 'c \<Rightarrow> 'c \<times> go_error option"
  cache_Del :: "string \<Rightarrow> 'c \<Rightarrow> 'c \<times> go_error option"

text \<open>\<open>loader\<close> acts on the same state, so that it may be any program.\<close>

definition GetOrLoad :: "'c cache \<Rightarrow> string \<Rightarrow> duration \<Rightarrow> ('c \<Rightarrow> 'c \<times> (go_error + string)) \<Rightarrow> 'c \<Rightarrow> 'c \<times> (go_error + string)" where
  "GetOrLoad c key ttl loader s =
     (case cache_Get c key s of
        (s, Inr val) \<Rightarrow> (s, Inr val)
      | (s, Inl _) \<Rightarrow>
          (case loader s of
             (s, Inl err) \<Rightarrow> (s, Inl err)
           | (s, Inr result) \<Rightarrow>
               (case cache_Set c key result ttl s of
                  (s, Some setErr) \<Rightarrow> (s, Inr result)
                | (s, None) \<Rightarrow> (s, Inr result))))"

definition prefixedKey :: "string \<Rightarrow> string \<Rightarrow> string" where
  "prefixedKey p key = p @ '':'' @ key"

definition redis_Nil :: go_error where
  "redis_Nil = ErrorNew ''redis: nil''"

definition RedisCache_Get :: "'s redis \<Rightarrow> link \<Rightarrow> go_time \<Rightarrow> string \<Rightarrow> string \<Rightarrow> 's \<Rightarrow> 's \<times> (go_error + string)" where
  "RedisCache_Get r l now p key s =
     client_call l (\<lambda>s. case GET r now (prefixedKey p key) s of (s, None) \<Rightarrow> (s, Inl redis_Nil) | (s, Some v) \<Rightarrow> (s, Inr v)) s"

definition call_error :: "'s \<times> (go_error + 'a) \<Rightarrow> 's \<times> go_error option" where
  "call_error res = (case res of (s, Inl err) \<Rightarrow> (s, Some err) | (s, Inr _) \<Rightarrow> (s, None))"

definition RedisCache_Set :: "'s redis \<Rightarrow> link \<Rightarrow> go_time \<Rightarrow> string \<Rightarrow> string \<Rightarrow> string \<Rightarrow> duration \<Rightarrow> 's \<Rightarrow> 's \<times> go_error option" where
  "RedisCache_Set r l now p key val ttl s = call_error (client_call l (SETEX r now (prefixedKey p key) val ttl) s)"

definition RedisCache_Del :: "'s redis \<Rightarrow> link \<Rightarrow> go_time \<Rightarrow> string \<Rightarrow> string \<Rightarrow> 's \<Rightarrow> 's \<times> go_error option" where
  "RedisCache_Del r l now p key s = call_error (client_call l (\<lambda>s. map_prod id Inr (DEL r now (prefixedKey p key) s)) s)"

definition NewRedis :: "'s redis \<Rightarrow> string \<Rightarrow> link \<Rightarrow> link \<Rightarrow> link \<Rightarrow> go_time \<Rightarrow> 's cache" where
  "NewRedis r p lg ls ld now =
     \<lparr>cache_Get = RedisCache_Get r lg now p, cache_Set = RedisCache_Set r ls now p, cache_Del = RedisCache_Del r ld now p\<rparr>"

section \<open>Dates and identifiers\<close>

definition local_day :: "generator \<Rightarrow> go_time \<Rightarrow> int" where
  "local_day g now = (now + zone g) div day"

text \<open>The date of a day, written with eight digits between the years 0 and 9999.\<close>

definition day_string :: "int \<Rightarrow> string" where
  "day_string n = append_int 4 (Year (date_of_days n)) @ append_int 2 (Month (date_of_days n)) @ append_int 2 (Day (date_of_days n))"

definition four_digit_year :: "int \<Rightarrow> bool" where
  "four_digit_year n \<longleftrightarrow> 0 \<le> Year (date_of_days n) \<and> Year (date_of_days n) \<le> 9999"









section \<open>Histories\<close>

text \<open>
  What happens at the server to the counters of one business prefix: commands of any number of generators that share the prefix and the zone, in any
  order and with any loss of messages, and commands that do not touch these counters. The state is the server, the time of the last
  command and the identifiers handed out. A generator's clock is within twelve hours of the server's when its increment arrives; its
  expiry comes later.
\<close>

abbreviation half_day :: duration where
  "half_day \<equiv> 43200000000000"

inductive seq_step ::
  "'s redis \<Rightarrow> ('s \<Rightarrow> go_time \<Rightarrow> string \<Rightarrow> redis_entry option) \<Rightarrow> generator \<Rightarrow> string \<Rightarrow>
   's \<times> go_time \<times> string list \<Rightarrow> 's \<times> go_time \<times> string list \<Rightarrow> bool"
  for r view g b where
  incr: "T \<le> t \<Longrightarrow> \<bar>now - t\<bar> \<le> half_day \<Longrightarrow> four_digit_year (local_day g now) \<Longrightarrow>
    view s t (seq_key g b (local_date g now)) \<notin> {Some e |e. rvalue e = FormatInt max_int64} \<Longrightarrow>
    next_incr r g now l t b s = (s', res) \<Longrightarrow>
    seq_step r view g b (s, T, ids) (s', t, case res of Inl _ \<Rightarrow> ids | Inr seq \<Rightarrow> next_id g now b seq # ids)"
| expire: "T \<le> t \<Longrightarrow> now - half_day \<le> t \<Longrightarrow> four_digit_year (local_day g now) \<Longrightarrow>
    seq_step r view g b (s, T, ids) (next_expire r g now l t b s, t, ids)"
| other: "T \<le> t \<Longrightarrow> (\<And>n. view s' t (seq_key g b (day_string n)) = view s t (seq_key g b (day_string n))) \<Longrightarrow>
    seq_step r view g b (s, T, ids) (s', t, ids)"










section \<open>Properties\<close>

text \<open>\<^verbatim>\<open>Next\<close> is an increment followed, when it succeeds, by an expiry.\<close>

lemma Next_steps:
  assumes "Generator_Next r g now l t l' t' b s = (s', res)" and "T \<le> t" "t \<le> t'" "\<bar>now - t\<bar> \<le> half_day" "four_digit_year (local_day g now)"
    and "view s t (seq_key g b (local_date g now)) \<notin> {Some e |e. rvalue e = FormatInt max_int64}"
  shows "(seq_step r view g b)\<^sup>*\<^sup>* (s, T, ids) (s', case res of Inl _ \<Rightarrow> t | Inr _ \<Rightarrow> t', case res of Inl _ \<Rightarrow> ids | Inr i \<Rightarrow> i # ids)"
proof -
  obtain s1 r1 where i: "next_incr r g now l t b s = (s1, r1)" by fastforce
  note step1 = seq_step.incr [where view = view, OF assms(2,4,5,6) i, of ids]
  show ?thesis
  proof (cases r1)
    case (Inl e)
    then have "s' = s1" "res = Inl (Errorf ''sequence incr: %w'' e)" using assms(1) i by (auto simp: Generator_Next_def)
    then show ?thesis using step1 Inl by auto
  next
    case (Inr v)
    then have s': "s' = next_expire r g now l' t' b s1" "res = Inr (next_id g now b v)" using assms(1) i by (auto simp: Generator_Next_def)
    have "now - half_day \<le> t'" using assms(3,4) by linarith
    from seq_step.expire [OF assms(3) this assms(5), of r view b s1 "next_id g now b v # ids" l'] step1 Inr s' show ?thesis
      by (auto intro: rtranclp.intros)
  qed
qed











end
