(* ===== verification/Spec2Isabelle.thy ===== *)
theory Spec2Isabelle
  imports Circuit_Breaker LRU_Cache Runtime_Guard Webhook Rbac Job Reliable_Events Http_Middleware Idempotency Rate_Limit Pii Files Sequence
begin

text \<open>
  Verification of the Go service library under \<^verbatim>\<open>src/\<close>.
\<close>

end
